(* ===== verification/Prelude.thy ===== *)
theory Prelude
  imports Main "HOL-Library.Word"
begin

text \<open>
  Shared vocabulary of the development: the machine integers of the sources as words,
  the ways a C++ call can fail as values of \<open>cpp_error\<close>, the conversions the sources
  rely on (a container size read as \<open>size_t\<close>, a \<open>size_t\<close> narrowed to \<open>int\<close>), and
  the generic lemmas on words and lists that the component theories use.
\<close>

section \<open>Types\<close>

type_synonym u8 = "8 word"
type_synonym u16 = "16 word"
type_synonym u32 = "32 word"
type_synonym u64 = "64 word"

text \<open>On the LP64 platforms the library targets, \<open>size_t\<close> has 64 bits and \<open>unsigned\<close> 32.\<close>

type_synonym size_t = u64
type_synonym byte = u8
type_synonym bytes = "byte list"

text \<open>
  A throwing call returns \<open>Inl\<close>. \<open>Undefined_behaviour\<close> marks calls that the standard
  leaves undefined (\<open>front()\<close> of an empty queue, an index outside a container).
\<close>

datatype cpp_error =
    Out_of_range
  | Invalid_argument
  | Length_error
  | Runtime_error string
  | Undefined_behaviour

type_synonym 'a result = "cpp_error + 'a"

fun result_bind :: "'a result \<Rightarrow> ('a \<Rightarrow> 'b result) \<Rightarrow> 'b result" where
  "result_bind (Inl e) f = Inl e"
| "result_bind (Inr x) f = f x"

fun result_map :: "('a \<Rightarrow> 'b) \<Rightarrow> 'a result \<Rightarrow> 'b result" where
  "result_map f (Inl e) = Inl e"
| "result_map f (Inr x) = Inr (f x)"

section \<open>Conversions\<close>

text \<open>The \<open>size()\<close> of a string, deque or vector holding these elements.\<close>

definition list_size :: "'a list \<Rightarrow> size_t" where
  "list_size xs = of_nat (length xs)"

text \<open>A \<open>size_t\<close> assigned to an \<open>int\<close>: the low 32 bits read as two's complement.\<close>

definition int_of_size :: "size_t \<Rightarrow> int" where
  "int_of_size n = sint (ucast n :: 32 word)"

section \<open>Collections and lemmas\<close>

named_theorems size_simps \<open>sizes and conversions that do not wrap\<close>

lemma unat_list_size [size_simps]:
  "length xs < 2 ^ 64 \<Longrightarrow> unat (list_size xs) = length xs"
  by (simp add: list_size_def unat_of_nat take_bit_nat_eq_self)

lemma unat_list_size_31 [size_simps]:
  "length xs < 2 ^ 31 \<Longrightarrow> unat (list_size xs) = length xs"
  by (rule unat_list_size) simp

lemma list_size_Nil [simp]: "list_size [] = 0"
  by (simp add: list_size_def)

lemma int_of_size_small [size_simps]:
  assumes "unat n < 2 ^ 31"
  shows "int_of_size n = int (unat n)"
proof -
  have "int (unat n) < int (2 ^ 31)"
    using assms by (simp only: of_nat_less_iff)
  then have n: "uint n < 2 ^ 31"
    by (simp only: uint_nat of_nat_power of_nat_numeral)
  have "uint (ucast n :: 32 word) = uint n"
    using n by (simp add: unsigned_ucast_eq take_bit_int_eq_self)
  moreover have "signed_take_bit 31 (uint n) = uint n"
    using n order_trans [OF _ uint_ge_0 [of n], of "- (2 ^ 31)"]
    by (intro signed_take_bit_int_eq_self) simp_all
  ultimately show ?thesis
    by (simp add: int_of_size_def sint_uint)
qed

lemma min_unat: "unat (min a b) = min (unat a) (unat (b :: 'a::len word))"
  by (simp add: min_def word_le_nat_alt)

lemma unat_u64_less: "unat (x :: u64) < 2 ^ 64"
  using unsigned_less [of x, where ?'a = nat] by simp

lemma unat_le_diff: "b \<le> a \<Longrightarrow> unat (a - b) = unat a - unat (b :: 'a::len word)"
  by (rule unat_sub)

lemma unat_ucast_mod: "unat (ucast (x :: 'a::len word) :: 'b::len word) = unat x mod 2 ^ LENGTH('b)"
  by (simp add: unsigned_ucast_eq take_bit_eq_mod)

lemma unat_ucast_up:
  assumes "LENGTH('a::len) \<le> LENGTH('b::len)"
  shows "unat (ucast (x :: 'a word) :: 'b word) = unat x"
proof -
  have "unat x < 2 ^ LENGTH('a)" by (rule unsigned_less)
  also have "\<dots> \<le> (2 :: nat) ^ LENGTH('b)" using assms by simp
  finally show ?thesis by (simp add: unat_ucast_mod)
qed

lemma take_bit_add_down:
  assumes "m \<le> n"
  shows "take_bit m (take_bit n a + take_bit n b) = take_bit m (a + b :: int)"
proof -
  have "take_bit m (take_bit n a + take_bit n b) = take_bit m (take_bit n (take_bit n a + take_bit n b))"
    using assms by (simp add: min_absorb1)
  also have "\<dots> = take_bit m (take_bit n (a + b))" by (simp only: take_bit_add)
  finally show ?thesis using assms by (simp add: min_absorb1)
qed

lemma take_bit_diff_down:
  assumes "m \<le> n"
  shows "take_bit m (take_bit n a - take_bit n b) = take_bit m (a - b :: int)"
proof -
  have "take_bit m (take_bit n a - take_bit n b) = take_bit m (take_bit n (take_bit n a - take_bit n b))"
    using assms by (simp add: min_absorb1)
  also have "\<dots> = take_bit m (take_bit n (a - b))" by (simp only: take_bit_diff)
  finally show ?thesis using assms by (simp add: min_absorb1)
qed

lemma ucast_add_down:
  assumes "LENGTH('b::len) \<le> LENGTH('a::len)"
  shows "ucast (a + b :: 'a word) = (ucast a + ucast b :: 'b word)"
  using assms by transfer (simp add: take_bit_add_down)

lemma ucast_diff_down:
  assumes "LENGTH('b::len) \<le> LENGTH('a::len)"
  shows "ucast (a - b :: 'a word) = (ucast a - ucast b :: 'b word)"
  using assms by transfer (simp add: take_bit_diff_down)

lemma mult_diff_mod:
  fixes d K M :: nat
  assumes "d \<le> K * M" and "0 < M"
  shows "(K * M - d) mod M = (if d mod M = 0 then 0 else M - d mod M)"
proof (cases "d mod M = 0")
  case True
  then obtain q where "d = M * q" by (metis mod_0_imp_dvd dvd_def)
  then have "K * M - d = (K - q) * M" by (simp add: algebra_simps diff_mult_distrib)
  with True show ?thesis by simp
next
  case False
  define q where "q = d div M"
  have d: "d = q * M + d mod M" by (simp add: q_def)
  have "\<not> K \<le> q"
    using mult_le_mono1 [of K q M] d False assms(1) by linarith
  then have "K = (K - Suc q) + Suc q" by simp
  then have "K * M = ((K - Suc q) + Suc q) * M" by (rule arg_cong)
  then have "K * M = (K - Suc q) * M + M + q * M" by (simp only: add_mult_distrib mult_Suc add.assoc)
  then have "K * M - d = (K - Suc q) * M + (M - d mod M)"
    using d assms(2) mod_less_divisor [of M d] by linarith
  moreover have "M - d mod M < M" using False assms(2) by simp
  ultimately have "(K * M - d) mod M = M - d mod M"
    by (simp only: mod_mult_self3 mod_less)
  with False show ?thesis by simp
qed

lemma mod_add_cancel: "(s + v) mod m = (s + w) mod m \<Longrightarrow> v mod m = w mod (m :: nat)"
  by (auto simp: nat_mod_eq_iff)

lemma fold_snoc_append: "fold (\<lambda>x ys. ys @ [x]) xs ys = ys @ xs"
  by (induction xs arbitrary: ys) simp_all

lemma funpow_tl: "(tl ^^ n) xs = drop n xs"
  by (induction n arbitrary: xs) (simp_all add: drop_Suc tl_drop)

lemma result_bind_Inr_iff:
  "result_bind m f = Inr y \<longleftrightarrow> (\<exists>x. m = Inr x \<and> f x = Inr y)"
  by (cases m) simp_all

lemma result_map_Inr_iff: "result_map f m = Inr y \<longleftrightarrow> (\<exists>x. m = Inr x \<and> y = f x)"
  by (cases m) auto

section \<open>Excerpts of a stream\<close>

text \<open>\<open>data\<close> is the excerpt of \<open>S\<close> at index \<open>k\<close>.\<close>

definition excerpt_at :: "bytes \<Rightarrow> nat \<Rightarrow> bytes \<Rightarrow> bool" where
  "excerpt_at S k data \<longleftrightarrow> k + length data \<le> length S \<and> take (length data) (drop k S) = data"

lemma excerpt_at_nth: "excerpt_at S k data \<Longrightarrow> i < length data \<Longrightarrow> S ! (k + i) = data ! i"
  by (metis (no_types, lifting) excerpt_at_def nth_drop nth_take add_leD1)

lemma excerpt_at_Cons:
  assumes "excerpt_at S k (c # cs)"
  shows "k < length S \<and> S ! k = c \<and> excerpt_at S (Suc k) cs"
proof -
  from assms have len: "k + Suc (length cs) \<le> length S"
    and eq: "take (Suc (length cs)) (drop k S) = c # cs"
    by (simp_all add: excerpt_at_def)
  from len have "drop k S = S ! k # drop (Suc k) S" by (simp add: Cons_nth_drop_Suc)
  with eq len show ?thesis by (simp add: excerpt_at_def)
qed

lemma excerpt_at_drop:
  assumes "excerpt_at S k data" and "n \<le> length data"
  shows "excerpt_at S (k + n) (drop n data)"
proof -
  from assms(1) have len: "k + length data \<le> length S"
    and eq: "data = take (length data) (drop k S)" by (simp_all add: excerpt_at_def)
  have "drop n data = take (length data - n) (drop (k + n) S)"
    by (subst eq) (simp add: drop_take add.commute)
  with len assms(2) show ?thesis by (simp add: excerpt_at_def)
qed

lemma excerpt_at_take:
  assumes "excerpt_at S k data"
  shows "excerpt_at S k (take n data)"
proof -
  from assms have len: "k + length data \<le> length S"
    and eq: "data = take (length data) (drop k S)" by (simp_all add: excerpt_at_def)
  have "take n data = take (min n (length data)) (drop k S)"
    by (subst eq) (simp add: min_def)
  with len show ?thesis by (auto simp: excerpt_at_def min_def)
qed

end
