(* ===== verification/Buffers.thy ===== *)
theory Buffers
  imports Prelude
begin

text \<open>
  The string containers of \<open>libsponge/util/buffer.hh\<close> and \<open>buffer.cc\<close>: \<open>Buffer\<close>, a
  shared read-only string with a starting offset; \<open>BufferList\<close>, a queue of buffers; and
  \<open>BufferViewList\<close>, a queue of views. All three promise to be one string from which
  bytes can be discarded at the front; the locale \<open>byte_sequence\<close> states that promise
  and each class interprets it.
\<close>

section \<open>Buffer\<close>

text \<open>The storage is shared but never written, so a copy of the pointer is a copy of the string.\<close>

record Buffer =
  buf_storage :: "bytes option"
  buf_starting_offset :: size_t

definition Buffer_new :: Buffer where
  "Buffer_new = \<lparr>buf_storage = None, buf_starting_offset = 0\<rparr>"

definition Buffer_of :: "bytes \<Rightarrow> Buffer" where
  "Buffer_of str = \<lparr>buf_storage = Some str, buf_starting_offset = 0\<rparr>"

definition Buffer_str :: "Buffer \<Rightarrow> bytes" where
  "Buffer_str b =
     (case buf_storage b of
        None \<Rightarrow> []
      | Some storage \<Rightarrow>
          take (unat (list_size storage - buf_starting_offset b))
            (drop (unat (buf_starting_offset b)) storage))"

definition Buffer_size :: "Buffer \<Rightarrow> size_t" where
  "Buffer_size b = list_size (Buffer_str b)"

definition Buffer_at :: "Buffer \<Rightarrow> size_t \<Rightarrow> byte result" where
  "Buffer_at b n =
     (if unat n < length (Buffer_str b) then Inr (Buffer_str b ! unat n) else Inl Out_of_range)"

definition Buffer_remove_prefix :: "Buffer \<Rightarrow> size_t \<Rightarrow> Buffer result" where
  "Buffer_remove_prefix b n =
     (if Buffer_size b < n then Inl Out_of_range
      else
        let offset = buf_starting_offset b + n;
            b' = b\<lparr>buf_starting_offset := offset\<rparr>
        in Inr (case buf_storage b of
                  None \<Rightarrow> b'
                | Some storage \<Rightarrow>
                    if offset = list_size storage then b'\<lparr>buf_storage := None\<rparr> else b'))"

section \<open>BufferList\<close>

type_synonym BufferList = "Buffer list"

definition BufferList_append :: "BufferList \<Rightarrow> BufferList \<Rightarrow> BufferList" where
  "BufferList_append bl other = fold (\<lambda>buf bufs. bufs @ [buf]) other bl"

text \<open>Construction by taking ownership of a string.\<close>

definition BufferList_of :: "bytes \<Rightarrow> BufferList" where
  "BufferList_of str = BufferList_append [] [Buffer_of str]"

definition BufferList_to_Buffer :: "BufferList \<Rightarrow> Buffer result" where
  "BufferList_to_Buffer bl =
     (case bl of
        [] \<Rightarrow> Inr Buffer_new
      | [b] \<Rightarrow> Inr b
      | _ \<Rightarrow> Inl (Runtime_error ''BufferList: please use concatenate() to combine a multi-Buffer BufferList into one Buffer''))"

definition BufferList_concatenate :: "BufferList \<Rightarrow> bytes" where
  "BufferList_concatenate bl = fold (\<lambda>buf ret. ret @ Buffer_str buf) bl []"

definition BufferList_size :: "BufferList \<Rightarrow> size_t" where
  "BufferList_size bl = fold (\<lambda>buf ret. ret + Buffer_size buf) bl 0"

fun BufferList_remove_prefix :: "BufferList \<Rightarrow> size_t \<Rightarrow> BufferList result" where
  "BufferList_remove_prefix [] n = (if 0 < n then Inl Out_of_range else Inr [])"
| "BufferList_remove_prefix (b # bl) n =
     (if 0 < n then
        if n < Buffer_size b then result_map (\<lambda>b'. b' # bl) (Buffer_remove_prefix b n)
        else BufferList_remove_prefix bl (n - Buffer_size b)
      else Inr (b # bl))"

section \<open>BufferViewList\<close>

text \<open>A \<open>string_view\<close> is the sequence of bytes it shows.\<close>

type_synonym BufferViewList = "bytes list"

definition BufferViewList_of :: "BufferList \<Rightarrow> BufferViewList" where
  "BufferViewList_of buffers = map Buffer_str buffers"

fun BufferViewList_remove_prefix :: "BufferViewList \<Rightarrow> size_t \<Rightarrow> BufferViewList result" where
  "BufferViewList_remove_prefix [] n = (if 0 < n then Inl Out_of_range else Inr [])"
| "BufferViewList_remove_prefix (v # vs) n =
     (if 0 < n then
        if n < list_size v then Inr (drop (unat n) v # vs)
        else BufferViewList_remove_prefix vs (n - list_size v)
      else Inr (v # vs))"

definition BufferViewList_size :: "BufferViewList \<Rightarrow> size_t" where
  "BufferViewList_size vs = fold (\<lambda>buf ret. ret + list_size buf) vs 0"

definition BufferViewList_as_iovecs :: "BufferViewList \<Rightarrow> (bytes \<times> size_t) list" where
  "BufferViewList_as_iovecs vs = fold (\<lambda>x ret. ret @ [(x, list_size x)]) vs []"

section \<open>The contract: a string with a removable prefix\<close>

locale byte_sequence =
  fixes view :: "'b \<Rightarrow> bytes"
    and invar :: "'b \<Rightarrow> bool"
    and size_of :: "'b \<Rightarrow> size_t"
    and remove_front :: "'b \<Rightarrow> size_t \<Rightarrow> 'b result"
  assumes view_bound: "invar b \<Longrightarrow> length (view b) < 2 ^ 64"
    and size_view: "invar b \<Longrightarrow> size_of b = list_size (view b)"
    and remove_ok: "invar b \<Longrightarrow> unat n \<le> length (view b) \<Longrightarrow>
      \<exists>b'. remove_front b n = Inr b' \<and> invar b' \<and> view b' = drop (unat n) (view b)"
    and remove_fail: "invar b \<Longrightarrow> length (view b) < unat n \<Longrightarrow> remove_front b n = Inl Out_of_range"
begin

lemma size_unat: "invar b \<Longrightarrow> unat (size_of b) = length (view b)"
  using view_bound [of b] by (simp add: size_view unat_list_size)

text \<open>Several removals in a row, as a client that drains the string performs them.\<close>

lemma removals:
  assumes "invar b"
  shows "case fold (\<lambda>n r. result_bind r (\<lambda>b. remove_front b n)) ns (Inr b) of
      Inl e \<Rightarrow> e = Out_of_range \<and> length (view b) < sum_list (map unat ns)
    | Inr b' \<Rightarrow> invar b' \<and> sum_list (map unat ns) \<le> length (view b)
                \<and> view b' = drop (sum_list (map unat ns)) (view b)"
  using assms
proof (induction ns arbitrary: b)
  case Nil
  then show ?case by simp
next
  case (Cons n ns)
  have err: "fold (\<lambda>n r. result_bind r (\<lambda>b. remove_front b n)) ns (Inl e) = Inl e" for e
    by (induction ns) simp_all
  show ?case
  proof (cases "unat n \<le> length (view b)")
    case True
    then obtain b1 where "remove_front b n = Inr b1" "invar b1" "view b1 = drop (unat n) (view b)"
      using remove_ok Cons.prems by blast
    with Cons.IH [of b1] True show ?thesis
      by (auto simp: less_diff_conv add.commute split: sum.splits)
  next
    case False
    then show ?thesis
      using remove_fail [OF Cons.prems] err by simp
  qed
qed

lemma remove_everything:
  assumes "invar b"
  shows "\<exists>b'. remove_front b (size_of b) = Inr b' \<and> view b' = []"
  using remove_ok [OF assms, of "size_of b"] size_unat [OF assms] by auto

end

section \<open>The classes provide it\<close>

definition Buffer_inv :: "Buffer \<Rightarrow> bool" where
  "Buffer_inv b \<longleftrightarrow>
     (case buf_storage b of
        None \<Rightarrow> True
      | Some storage \<Rightarrow> length storage < 2 ^ 64 \<and> unat (buf_starting_offset b) \<le> length storage)"

lemma Buffer_str_eq:
  assumes "Buffer_inv b"
  shows "Buffer_str b =
     (case buf_storage b of None \<Rightarrow> [] | Some s \<Rightarrow> drop (unat (buf_starting_offset b)) s)"
proof (cases "buf_storage b")
  case (Some s)
  with assms have "unat (list_size s - buf_starting_offset b) = length s - unat (buf_starting_offset b)"
    by (subst unat_le_diff) (simp_all add: Buffer_inv_def word_le_nat_alt unat_list_size)
  with Some show ?thesis by (simp add: Buffer_str_def)
qed (simp add: Buffer_str_def)

lemma Buffer_str_new [simp]: "Buffer_str Buffer_new = []"
  by (simp add: Buffer_str_def Buffer_new_def)

lemma Buffer_inv_new [simp]: "Buffer_inv Buffer_new"
  by (simp add: Buffer_inv_def Buffer_new_def)

lemma Buffer_inv_of: "length s < 2 ^ 64 \<Longrightarrow> Buffer_inv (Buffer_of s)"
  by (simp add: Buffer_inv_def Buffer_of_def)

lemma Buffer_str_of: "length s < 2 ^ 64 \<Longrightarrow> Buffer_str (Buffer_of s) = s"
  using Buffer_inv_of [of s] by (simp add: Buffer_str_eq Buffer_of_def)

lemma Buffer_str_bound: "Buffer_inv b \<Longrightarrow> length (Buffer_str b) < 2 ^ 64"
  by (auto simp: Buffer_str_eq Buffer_inv_def split: option.splits)

lemma Buffer_remove_prefix_ok:
  assumes "Buffer_inv b" and "unat n \<le> length (Buffer_str b)"
  shows "\<exists>b'. Buffer_remove_prefix b n = Inr b' \<and> Buffer_inv b' \<and> Buffer_str b' = drop (unat n) (Buffer_str b)"
proof -
  have nlt: "\<not> Buffer_size b < n"
    using assms Buffer_str_bound [of b] by (simp add: Buffer_size_def word_less_nat_alt unat_list_size)
  show ?thesis
  proof (cases "buf_storage b")
    case None
    with nlt assms show ?thesis
      by (simp add: Buffer_remove_prefix_def Buffer_inv_def Buffer_str_def)
  next
    case (Some s)
    let ?o = "buf_starting_offset b"
    have s: "length s < 2 ^ 64" and le: "unat ?o + unat n \<le> length s"
      using assms Some by (auto simp: Buffer_inv_def Buffer_str_eq [OF assms(1)])
    then have o: "unat (?o + n) = unat ?o + unat n"
      by (simp add: unat_word_ariths)
    have eq: "?o + n = list_size s \<longleftrightarrow> unat ?o + unat n = length s"
      unfolding word_unat_eq_iff o unat_list_size [OF s] ..
    have inv': "Buffer_inv (b\<lparr>buf_starting_offset := ?o + n\<rparr>)"
      using Some s le o by (simp add: Buffer_inv_def)
    show ?thesis
      using nlt Some assms eq le o inv'
      by (auto simp: Buffer_remove_prefix_def Let_def Buffer_str_eq Buffer_inv_def add.commute)
  qed
qed

interpretation buf: byte_sequence Buffer_str Buffer_inv Buffer_size Buffer_remove_prefix
proof (unfold_locales, goal_cases)
  case (4 b n)
  then show ?case
    using Buffer_str_bound [of b]
    by (simp add: Buffer_remove_prefix_def Buffer_size_def word_less_nat_alt unat_list_size)
qed (use Buffer_str_bound Buffer_remove_prefix_ok in \<open>auto simp: Buffer_size_def\<close>)

lemma fold_append_concat: "fold (\<lambda>x ret. ret @ f x) xs acc = acc @ concat (map f xs)"
  by (induction xs arbitrary: acc) simp_all

lemma BufferList_concatenate_eq: "BufferList_concatenate bl = concat (map Buffer_str bl)"
  by (simp add: BufferList_concatenate_def fold_append_concat)

lemma BufferList_append_eq [simp]: "BufferList_append bl other = bl @ other"
  by (simp add: BufferList_append_def fold_snoc_append)

lemma BufferList_concatenate_append [simp]:
  "BufferList_concatenate (bl @ other) = BufferList_concatenate bl @ BufferList_concatenate other"
  by (simp add: BufferList_concatenate_eq)

lemma BufferList_concatenate_of: "length s < 2 ^ 64 \<Longrightarrow> BufferList_concatenate (BufferList_of s) = s"
  by (simp add: BufferList_concatenate_eq BufferList_of_def Buffer_str_of)

lemma fold_list_size: "fold (\<lambda>x ret. ret + list_size (f x)) xs acc = acc + list_size (concat (map f xs))"
  by (induction xs arbitrary: acc) (simp_all add: list_size_def)

definition BufferList_inv :: "BufferList \<Rightarrow> bool" where
  "BufferList_inv bl \<longleftrightarrow> list_all Buffer_inv bl \<and> length (BufferList_concatenate bl) < 2 ^ 64"

lemma BufferList_remove_prefix_ok:
  assumes "list_all Buffer_inv bl" and "unat n \<le> length (concat (map Buffer_str bl))"
  shows "\<exists>bl'. BufferList_remove_prefix bl n = Inr bl' \<and> list_all Buffer_inv bl'
           \<and> concat (map Buffer_str bl') = drop (unat n) (concat (map Buffer_str bl))"
  using assms
proof (induction bl arbitrary: n)
  case Nil
  then show ?case by (simp add: unat_eq_zero)
next
  case (Cons b bl)
  have b: "Buffer_inv b" "unat (Buffer_size b) = length (Buffer_str b)"
    using Cons.prems buf.size_unat [of b] by simp_all
  consider "n = 0" | "0 < n" "n < Buffer_size b" | "0 < n" "Buffer_size b \<le> n"
    by (metis not_less word_gt_0)
  then show ?case
  proof cases
    case 1
    with Cons.prems show ?thesis by simp
  next
    case 2
    then obtain b' where "Buffer_remove_prefix b n = Inr b'" "Buffer_inv b'"
        "Buffer_str b' = drop (unat n) (Buffer_str b)" and "unat n < length (Buffer_str b)"
      using Buffer_remove_prefix_ok [OF b(1), of n] b(2) by (auto simp: word_less_nat_alt)
    with 2 Cons.prems show ?thesis by simp
  next
    case 3
    then have "unat (n - Buffer_size b) = unat n - length (Buffer_str b)" "length (Buffer_str b) \<le> unat n"
      using b(2) by (simp_all add: unat_le_diff word_le_nat_alt)
    with 3 Cons.prems Cons.IH [of "n - Buffer_size b"] show ?thesis
      by (auto simp: drop_eq_Nil not_less)
  qed
qed

lemma BufferList_remove_prefix_fail:
  assumes "list_all Buffer_inv bl" and "length (concat (map Buffer_str bl)) < unat n"
  shows "BufferList_remove_prefix bl n = Inl Out_of_range"
  using assms
proof (induction bl arbitrary: n)
  case Nil
  then show ?case by (simp add: word_gt_0 unat_gt_0)
next
  case (Cons b bl)
  have b: "unat (Buffer_size b) = length (Buffer_str b)"
    using Cons.prems buf.size_unat [of b] by simp
  then have "Buffer_size b \<le> n" using Cons.prems by (simp add: word_le_nat_alt)
  moreover from this b have "unat (n - Buffer_size b) = unat n - length (Buffer_str b)"
    by (simp add: unat_le_diff)
  moreover have "0 < n" using Cons.prems by (auto simp: word_gt_0)
  ultimately show ?case
    using Cons.prems Cons.IH [of "n - Buffer_size b"] by (simp add: leD)
qed

interpretation buf_list: byte_sequence
  BufferList_concatenate BufferList_inv BufferList_size BufferList_remove_prefix
proof (unfold_locales, goal_cases)
  case (1 b)
  then show ?case by (simp add: BufferList_inv_def)
next
  case (2 b)
  then show ?case
    using fold_list_size [of Buffer_str b 0]
    by (simp add: BufferList_size_def BufferList_concatenate_eq Buffer_size_def)
next
  case (3 b n)
  then show ?case
    using BufferList_remove_prefix_ok [of b n] by (auto simp: BufferList_inv_def BufferList_concatenate_eq)
next
  case (4 b n)
  then show ?case
    using BufferList_remove_prefix_fail [of b n] by (simp add: BufferList_inv_def BufferList_concatenate_eq)
qed

text \<open>A view list behaves like a buffer list of fresh buffers with the same contents.\<close>

definition BufferViewList_inv :: "BufferViewList \<Rightarrow> bool" where
  "BufferViewList_inv vs \<longleftrightarrow> length (concat vs) < 2 ^ 64"

lemma BufferViewList_remove_prefix_eq:
  assumes "length (concat vs) < 2 ^ 64"
  shows "case BufferViewList_remove_prefix vs n of
      Inl e \<Rightarrow> e = Out_of_range \<and> length (concat vs) < unat n
    | Inr vs' \<Rightarrow> unat n \<le> length (concat vs) \<and> concat vs' = drop (unat n) (concat vs)"
  using assms
proof (induction vs arbitrary: n)
  case Nil
  then show ?case by (auto simp: word_gt_0 unat_gt_0)
next
  case (Cons v vs)
  have v: "unat (list_size v) = length v"
    using Cons.prems by (simp add: unat_list_size)
  consider "n = 0" | "0 < n" "n < list_size v" | "0 < n" "list_size v \<le> n"
    by (metis not_less word_gt_0)
  then show ?case
  proof cases
    case 3
    then have "unat (n - list_size v) = unat n - length v" "length v \<le> unat n"
      using v by (simp_all add: unat_le_diff word_le_nat_alt)
    with 3 Cons.prems Cons.IH [of "n - list_size v"] show ?thesis
      by (auto split: sum.splits)
  qed (use v in \<open>auto simp: word_less_nat_alt\<close>)
qed

interpretation view_list: byte_sequence
  concat BufferViewList_inv BufferViewList_size BufferViewList_remove_prefix
proof (unfold_locales, goal_cases)
  case (2 b)
  then show ?case using fold_list_size [of "\<lambda>x. x" b 0] by (simp add: BufferViewList_size_def)
next
  case (3 b n)
  then show ?case
    using BufferViewList_remove_prefix_eq [of b n] by (auto simp: BufferViewList_inv_def split: sum.splits)
next
  case (4 b n)
  then show ?case
    using BufferViewList_remove_prefix_eq [of b n] by (auto simp: BufferViewList_inv_def split: sum.splits)
qed (simp add: BufferViewList_inv_def)

end
