(* ===== verification/Net_Parser.thy ===== *)
theory Net_Parser
  imports Buffers
begin

text \<open>
  \<open>NetParser\<close> and \<open>NetUnparser\<close> of \<open>libsponge/util/parser.hh\<close> and \<open>parser.cc\<close>: integers
  in network byte order read from the front of a buffer and appended to a string. The
  header parsers of the protocol theories are compositions of these operations, so the
  theory also has the two judgements they are proved with: \<open>parser_total\<close> (no call throws)
  and \<open>parses\<close> (these bytes are read as that value), and the locale \<open>codec\<close> of a
  serializer and the parser that reads its output back.
\<close>

section \<open>Results\<close>

datatype ParseResult =
    NoError
  | BadChecksum
  | PacketTooShort
  | WrongIPVersion
  | HeaderTooShort
  | TruncatedPacket
  | Unsupported

text \<open>The table of \<open>as_string\<close> has six entries; the index of \<open>Unsupported\<close> is past its end.\<close>

fun as_string :: "ParseResult \<Rightarrow> string result" where
  "as_string NoError = Inr ''NoError''"
| "as_string BadChecksum = Inr ''BadChecksum''"
| "as_string PacketTooShort = Inr ''PacketTooShort''"
| "as_string WrongIPVersion = Inr ''WrongIPVersion''"
| "as_string HeaderTooShort = Inr ''HeaderTooShort''"
| "as_string TruncatedPacket = Inr ''TruncatedPacket''"
| "as_string Unsupported = Inl Undefined_behaviour"

section \<open>NetParser\<close>

record NetParser =
  np_buffer :: Buffer
  np_error :: ParseResult

type_synonym 'a parser = "NetParser \<Rightarrow> ('a \<times> NetParser) result"

definition NetParser_new :: "Buffer \<Rightarrow> NetParser" where
  "NetParser_new buffer = \<lparr>np_buffer = buffer, np_error = NoError\<rparr>"

definition NetParser_set_error :: "ParseResult \<Rightarrow> NetParser \<Rightarrow> NetParser" where
  "NetParser_set_error res p = p\<lparr>np_error := res\<rparr>"

definition NetParser_error :: "NetParser \<Rightarrow> bool" where
  "NetParser_error p \<longleftrightarrow> np_error p \<noteq> NoError"

definition NetParser_check_size :: "size_t \<Rightarrow> NetParser \<Rightarrow> NetParser" where
  "NetParser_check_size sz p =
     (if Buffer_size (np_buffer p) < sz then NetParser_set_error PacketTooShort p else p)"

text \<open>The loop over the first \<open>sizeof(T)\<close> bytes: \<open>ret <<= 8; ret += uint8_t(_buffer.at(i))\<close>.\<close>

definition NetParser_int_loop :: "Buffer \<Rightarrow> nat \<Rightarrow> 'w::len word result" where
  "NetParser_int_loop b len =
     fold (\<lambda>i r. result_bind r (\<lambda>ret. result_map (\<lambda>c. push_bit 8 ret + ucast c) (Buffer_at b (of_nat i))))
       [0..<len] (Inr 0)"

definition NetParser_parse_int :: "'w::len word parser" where
  "NetParser_parse_int p =
     (let len = LENGTH('w) div 8;
          p' = NetParser_check_size (of_nat len) p
      in if NetParser_error p' then Inr (0, p')
         else result_bind (NetParser_int_loop (np_buffer p') len) (\<lambda>ret.
              result_map (\<lambda>b. (ret, p'\<lparr>np_buffer := b\<rparr>)) (Buffer_remove_prefix (np_buffer p') (of_nat len))))"

definition NetParser_u32 :: "u32 parser" where
  "NetParser_u32 = NetParser_parse_int"

definition NetParser_u16 :: "u16 parser" where
  "NetParser_u16 = NetParser_parse_int"

definition NetParser_u8 :: "u8 parser" where
  "NetParser_u8 = NetParser_parse_int"

definition NetParser_remove_prefix :: "size_t \<Rightarrow> unit parser" where
  "NetParser_remove_prefix n p =
     (let p' = NetParser_check_size n p
      in if NetParser_error p' then Inr ((), p')
         else result_map (\<lambda>b. ((), p'\<lparr>np_buffer := b\<rparr>)) (Buffer_remove_prefix (np_buffer p') n))"

text \<open>Sequential composition of calls on one parser object.\<close>

definition parser_bind :: "'a parser \<Rightarrow> ('a \<Rightarrow> 'b parser) \<Rightarrow> 'b parser" where
  "parser_bind m f = (\<lambda>p. result_bind (m p) (\<lambda>(x, p'). f x p'))"

definition parser_return :: "'a \<Rightarrow> 'a parser" where
  "parser_return x = (\<lambda>p. Inr (x, p))"

definition NetParser_get_error :: "ParseResult parser" where
  "NetParser_get_error = (\<lambda>p. Inr (np_error p, p))"

section \<open>NetUnparser\<close>

definition NetUnparser_unparse_int :: "bytes \<Rightarrow> 'w::len word \<Rightarrow> bytes" where
  "NetUnparser_unparse_int s val =
     (let len = LENGTH('w) div 8
      in fold (\<lambda>i s. s @ [ucast (take_bit 8 (drop_bit ((len - i - 1) * 8) val))]) [0..<len] s)"

definition NetUnparser_u32 :: "bytes \<Rightarrow> u32 \<Rightarrow> bytes" where
  "NetUnparser_u32 s val = NetUnparser_unparse_int s val"

definition NetUnparser_u16 :: "bytes \<Rightarrow> u16 \<Rightarrow> bytes" where
  "NetUnparser_u16 s val = NetUnparser_unparse_int s val"

definition NetUnparser_u8 :: "bytes \<Rightarrow> u8 \<Rightarrow> bytes" where
  "NetUnparser_u8 s val = NetUnparser_unparse_int s val"

text \<open>\<open>string::resize\<close>: truncate, or extend with zero bytes.\<close>

definition string_resize :: "nat \<Rightarrow> bytes \<Rightarrow> bytes" where
  "string_resize n s = take n s @ replicate (n - length s) 0"

section \<open>Parsers that never throw\<close>

abbreviation NetParser_rest :: "NetParser \<Rightarrow> bytes" where
  "NetParser_rest p \<equiv> Buffer_str (np_buffer p)"

definition NetParser_inv :: "NetParser \<Rightarrow> bool" where
  "NetParser_inv p \<longleftrightarrow> Buffer_inv (np_buffer p)"

text \<open>
  A total parser returns on every well-formed state, leaves a suffix of the input, never
  clears an error and consumes nothing once there is one.
\<close>

definition parser_total :: "'a parser \<Rightarrow> bool" where
  "parser_total m \<longleftrightarrow>
     (\<forall>p. NetParser_inv p \<longrightarrow>
        (\<exists>x p'. m p = Inr (x, p') \<and> NetParser_inv p'
           \<and> (\<exists>n. NetParser_rest p' = drop n (NetParser_rest p))
           \<and> (NetParser_error p \<longrightarrow> NetParser_error p' \<and> NetParser_rest p' = NetParser_rest p)))"

named_theorems parser_intros \<open>composition rules for total parsers\<close>

lemma parser_total_return [parser_intros]: "parser_total (parser_return x)"
  unfolding parser_total_def parser_return_def by (auto intro: exI [of _ 0])

lemma parser_total_get_error [parser_intros]: "parser_total NetParser_get_error"
  unfolding parser_total_def NetParser_get_error_def by (auto intro: exI [of _ 0])

lemma parser_total_bind [parser_intros]:
  assumes m: "parser_total m" and f: "\<And>x. parser_total (f x)"
  shows "parser_total (parser_bind m f)"
  unfolding parser_total_def
proof (intro allI impI)
  fix p assume "NetParser_inv p"
  then obtain x p1 n1 where 1: "m p = Inr (x, p1)" "NetParser_inv p1"
      "NetParser_rest p1 = drop n1 (NetParser_rest p)"
      "NetParser_error p \<longrightarrow> NetParser_error p1 \<and> NetParser_rest p1 = NetParser_rest p"
    using m unfolding parser_total_def by blast
  then obtain y p2 n2 where 2: "f x p1 = Inr (y, p2)" "NetParser_inv p2"
      "NetParser_rest p2 = drop n2 (NetParser_rest p1)"
      "NetParser_error p1 \<longrightarrow> NetParser_error p2 \<and> NetParser_rest p2 = NetParser_rest p1"
    using f [of x] unfolding parser_total_def by blast
  have "parser_bind m f p = Inr (y, p2)" using 1 2 by (simp add: parser_bind_def)
  moreover have "NetParser_rest p2 = drop (n2 + n1) (NetParser_rest p)"
    using 1 2 by simp
  ultimately show "\<exists>y p'. parser_bind m f p = Inr (y, p') \<and> NetParser_inv p'
      \<and> (\<exists>n. NetParser_rest p' = drop n (NetParser_rest p))
      \<and> (NetParser_error p \<longrightarrow> NetParser_error p' \<and> NetParser_rest p' = NetParser_rest p)"
    using 1 2 by metis
qed

lemma check_size_cases:
  assumes "NetParser_inv p" and "unat n = len"
  shows "NetParser_check_size n p =
     (if length (NetParser_rest p) < len then p\<lparr>np_error := PacketTooShort\<rparr> else p)"
  using assms buf.size_unat [of "np_buffer p"]
  by (simp add: NetParser_check_size_def NetParser_set_error_def NetParser_inv_def word_less_nat_alt)

text \<open>The value of a string of bytes read most significant byte first.\<close>

definition be_value :: "bytes \<Rightarrow> 'w::len word" where
  "be_value bs = fold (\<lambda>c ret. push_bit 8 ret + ucast c) bs 0"

lemma int_loop_eq:
  assumes "len \<le> length (Buffer_str b)" and "len < 2 ^ 64"
  shows "NetParser_int_loop b len = Inr (be_value (take len (Buffer_str b)))"
  using assms
proof (induction len)
  case 0
  then show ?case by (simp add: NetParser_int_loop_def be_value_def)
next
  case (Suc len)
  have "unat (of_nat len :: size_t) = len"
    using Suc.prems by (simp add: unat_of_nat take_bit_nat_eq_self)
  then have "Buffer_at b (of_nat len) = Inr (Buffer_str b ! len)"
    using Suc.prems by (simp add: Buffer_at_def)
  with Suc show ?case
    by (simp add: NetParser_int_loop_def be_value_def take_Suc_conv_app_nth)
qed

lemma parse_int_short:
  assumes "NetParser_inv p" and "length (NetParser_rest p) < LENGTH('w::len) div 8" and "LENGTH('w) < 2 ^ 64"
  shows "(NetParser_parse_int :: 'w word parser) p = Inr (0, p\<lparr>np_error := PacketTooShort\<rparr>)"
proof -
  have "unat (of_nat (LENGTH('w) div 8) :: size_t) = LENGTH('w) div 8"
    using assms(3) by (simp add: unat_of_nat take_bit_nat_eq_self)
  from check_size_cases [OF assms(1) this] assms(2) show ?thesis
    by (simp add: NetParser_parse_int_def Let_def NetParser_error_def)
qed

lemma parse_int_error:
  assumes "NetParser_inv p" and "NetParser_error p" and "LENGTH('w::len) < 2 ^ 64"
  shows "\<exists>p'. (NetParser_parse_int :: 'w word parser) p = Inr (0, p') \<and> NetParser_inv p'
    \<and> NetParser_error p' \<and> NetParser_rest p' = NetParser_rest p"
proof -
  have "unat (of_nat (LENGTH('w) div 8) :: size_t) = LENGTH('w) div 8"
    using assms(3) by (simp add: unat_of_nat take_bit_nat_eq_self)
  from check_size_cases [OF assms(1) this] assms(1,2) show ?thesis
    by (auto simp: NetParser_parse_int_def Let_def NetParser_error_def NetParser_inv_def)
qed

lemma parse_int_ok:
  assumes "NetParser_inv p" and "np_error p = NoError"
    and "LENGTH('w::len) div 8 \<le> length (NetParser_rest p)" and "LENGTH('w) < 2 ^ 64"
  shows "\<exists>p'. (NetParser_parse_int :: 'w word parser) p =
      Inr (be_value (take (LENGTH('w) div 8) (NetParser_rest p)), p') \<and> NetParser_inv p'
    \<and> np_error p' = NoError \<and> NetParser_rest p' = drop (LENGTH('w) div 8) (NetParser_rest p)"
proof -
  let ?len = "LENGTH('w) div 8"
  have len: "unat (of_nat ?len :: size_t) = ?len" "?len < 2 ^ 64"
    using assms(4) by (simp_all add: unat_of_nat take_bit_nat_eq_self)
  obtain b' where "Buffer_remove_prefix (np_buffer p) (of_nat ?len) = Inr b'" "Buffer_inv b'"
      "Buffer_str b' = drop ?len (NetParser_rest p)"
    using Buffer_remove_prefix_ok [of "np_buffer p" "of_nat ?len"] assms len
    by (auto simp: NetParser_inv_def)
  moreover have "(NetParser_int_loop (np_buffer p) ?len :: 'w word result) =
      Inr (be_value (take ?len (NetParser_rest p)))"
    by (rule int_loop_eq [OF assms(3) len(2)])
  ultimately show ?thesis
    using check_size_cases [OF assms(1) len(1)] assms(1,2,3)
    by (simp add: NetParser_parse_int_def Let_def NetParser_error_def NetParser_inv_def)
qed

lemma parser_total_parse_int:
  assumes "LENGTH('w::len) < 2 ^ 64"
  shows "parser_total (NetParser_parse_int :: 'w word parser)"
  unfolding parser_total_def
proof (intro allI impI)
  fix p assume inv: "NetParser_inv p"
  let ?m = "NetParser_parse_int :: 'w word parser"
  consider (err) "NetParser_error p" | (short) "np_error p = NoError" "length (NetParser_rest p) < LENGTH('w) div 8"
    | (ok) "np_error p = NoError" "LENGTH('w) div 8 \<le> length (NetParser_rest p)"
    by (metis NetParser_error_def not_less)
  then show "\<exists>x p'. ?m p = Inr (x, p') \<and> NetParser_inv p'
      \<and> (\<exists>n. NetParser_rest p' = drop n (NetParser_rest p))
      \<and> (NetParser_error p \<longrightarrow> NetParser_error p' \<and> NetParser_rest p' = NetParser_rest p)"
  proof cases
    case err
    from parse_int_error [OF inv err assms] show ?thesis by (metis drop0)
  next
    case short
    from parse_int_short [OF inv short(2) assms] inv short(1) show ?thesis
      by (auto simp: NetParser_inv_def NetParser_error_def intro: exI [of _ 0])
  next
    case ok
    from parse_int_ok [OF inv ok assms] ok(1) show ?thesis by (auto simp: NetParser_error_def)
  qed
qed

lemma parser_total_ints [parser_intros]:
  "parser_total NetParser_u32" "parser_total NetParser_u16" "parser_total NetParser_u8"
  by (simp_all add: NetParser_u32_def NetParser_u16_def NetParser_u8_def parser_total_parse_int)

lemma remove_prefix_cases:
  assumes "NetParser_inv p"
  shows "\<exists>p'. NetParser_remove_prefix n p = Inr ((), p') \<and> NetParser_inv p'
    \<and> (if NetParser_error p then NetParser_error p' \<and> NetParser_rest p' = NetParser_rest p
       else if length (NetParser_rest p) < unat n then p' = p\<lparr>np_error := PacketTooShort\<rparr>
       else np_error p' = NoError \<and> NetParser_rest p' = drop (unat n) (NetParser_rest p))"
proof (cases "NetParser_error p \<or> length (NetParser_rest p) < unat n")
  case True
  then show ?thesis
    using assms check_size_cases [OF assms refl, of n]
    by (auto simp: NetParser_remove_prefix_def Let_def NetParser_error_def NetParser_inv_def)
next
  case False
  then obtain b' where "Buffer_remove_prefix (np_buffer p) n = Inr b'" "Buffer_inv b'"
      "Buffer_str b' = drop (unat n) (NetParser_rest p)"
    using Buffer_remove_prefix_ok [of "np_buffer p" n] assms by (auto simp: NetParser_inv_def)
  with False show ?thesis
    using assms check_size_cases [OF assms refl, of n]
    by (simp add: NetParser_remove_prefix_def Let_def NetParser_error_def NetParser_inv_def)
qed

lemma parser_total_remove_prefix [parser_intros]: "parser_total (NetParser_remove_prefix n)"
  unfolding parser_total_def
proof (intro allI impI)
  fix p assume "NetParser_inv p"
  from remove_prefix_cases [OF this, of n]
  obtain p' where p': "NetParser_remove_prefix n p = Inr ((), p')" "NetParser_inv p'"
    "if NetParser_error p then NetParser_error p' \<and> NetParser_rest p' = NetParser_rest p
       else if length (NetParser_rest p) < unat n then p' = p\<lparr>np_error := PacketTooShort\<rparr>
       else np_error p' = NoError \<and> NetParser_rest p' = drop (unat n) (NetParser_rest p)" by blast
  then have "\<exists>n. NetParser_rest p' = drop n (NetParser_rest p)"
    by (cases "NetParser_error p \<or> length (NetParser_rest p) < unat n")
      (auto split: if_splits intro: exI [of _ 0])
  with p' show "\<exists>x p'. NetParser_remove_prefix n p = Inr (x, p') \<and> NetParser_inv p'
      \<and> (\<exists>n. NetParser_rest p' = drop n (NetParser_rest p))
      \<and> (NetParser_error p \<longrightarrow> NetParser_error p' \<and> NetParser_rest p' = NetParser_rest p)"
    by auto
qed

section \<open>How much input a success needs\<close>

definition parser_needs :: "'a parser \<Rightarrow> nat \<Rightarrow> bool" where
  "parser_needs m k \<longleftrightarrow>
     (\<forall>p x p'. NetParser_inv p \<and> m p = Inr (x, p') \<and> \<not> NetParser_error p' \<longrightarrow>
        k \<le> length (NetParser_rest p) \<and> length (NetParser_rest p') \<le> length (NetParser_rest p) - k)"

lemma parser_needs_int:
  assumes "LENGTH('w::len) < 2 ^ 64"
  shows "parser_needs (NetParser_parse_int :: 'w word parser) (LENGTH('w) div 8)"
  unfolding parser_needs_def
proof (intro allI impI)
  fix p p' and x :: "'w word"
  assume a: "NetParser_inv p \<and> NetParser_parse_int p = Inr (x, p') \<and> \<not> NetParser_error p'"
  then have ok: "np_error p = NoError"
    using parse_int_error [of p, where ?'w = 'w] assms by (auto simp: NetParser_error_def)
  have "LENGTH('w) div 8 \<le> length (NetParser_rest p)"
    using parse_int_short [of p, where ?'w = 'w] a assms by (fastforce simp: NetParser_error_def not_less [symmetric])
  with parse_int_ok [of p, where ?'w = 'w] a ok assms
  show "LENGTH('w) div 8 \<le> length (NetParser_rest p)
      \<and> length (NetParser_rest p') \<le> length (NetParser_rest p) - LENGTH('w) div 8"
    by auto
qed

lemma parser_needs_bind:
  assumes m: "parser_needs m j" "parser_total m" and f: "\<And>x. parser_needs (f x) k" "\<And>x. parser_total (f x)"
  shows "parser_needs (parser_bind m f) (j + k)"
  unfolding parser_needs_def
proof (intro allI impI)
  fix p y p2
  assume a: "NetParser_inv p \<and> parser_bind m f p = Inr (y, p2) \<and> \<not> NetParser_error p2"
  then obtain x p1 where 1: "m p = Inr (x, p1)" "NetParser_inv p1"
    using m(2) unfolding parser_total_def by blast
  with a have 2: "f x p1 = Inr (y, p2)" by (simp add: parser_bind_def)
  have "\<not> NetParser_error p1"
    using f(2) [of x] 1(2) 2 a unfolding parser_total_def by fastforce
  with 1 a have "j \<le> length (NetParser_rest p)" "length (NetParser_rest p1) \<le> length (NetParser_rest p) - j"
    using m(1) unfolding parser_needs_def by blast+
  moreover have "k \<le> length (NetParser_rest p1)" "length (NetParser_rest p2) \<le> length (NetParser_rest p1) - k"
    using f(1) [of x] 1(2) 2 a unfolding parser_needs_def by blast+
  ultimately show "j + k \<le> length (NetParser_rest p) \<and> length (NetParser_rest p2) \<le> length (NetParser_rest p) - (j + k)"
    by linarith
qed

lemma parser_needs_zero: "parser_total m \<Longrightarrow> parser_needs m 0"
  unfolding parser_needs_def parser_total_def by (metis length_drop diff_le_self diff_zero Inr_inject prod.inject zero_le)

lemma parser_needs_chain:
  "\<lbrakk>\<And>x. parser_needs (f x) k; \<And>x. parser_total (f x)\<rbrakk> \<Longrightarrow> parser_needs (parser_bind NetParser_u32 f) (4 + k)"
  "\<lbrakk>\<And>x. parser_needs (g x) k; \<And>x. parser_total (g x)\<rbrakk> \<Longrightarrow> parser_needs (parser_bind NetParser_u16 g) (2 + k)"
  "\<lbrakk>\<And>x. parser_needs (h x) k; \<And>x. parser_total (h x)\<rbrakk> \<Longrightarrow> parser_needs (parser_bind NetParser_u8 h) (1 + k)"
  using parser_needs_bind [OF parser_needs_int [where ?'w = 32] parser_total_parse_int [where ?'w = 32], of f k]
    parser_needs_bind [OF parser_needs_int [where ?'w = 16] parser_total_parse_int [where ?'w = 16], of g k]
    parser_needs_bind [OF parser_needs_int [where ?'w = 8] parser_total_parse_int [where ?'w = 8], of h k]
  by (simp_all add: NetParser_u32_def NetParser_u16_def NetParser_u8_def)

section \<open>Reading back what was written\<close>

definition parses :: "'a parser \<Rightarrow> bytes \<Rightarrow> 'a \<Rightarrow> bool" where
  "parses m bs x \<longleftrightarrow>
     (\<forall>p rest. NetParser_inv p \<and> np_error p = NoError \<and> NetParser_rest p = bs @ rest \<longrightarrow>
        (\<exists>p'. m p = Inr (x, p') \<and> NetParser_inv p' \<and> np_error p' = NoError \<and> NetParser_rest p' = rest))"

lemma parsesD:
  assumes "parses m bs x" and "NetParser_inv p" "np_error p = NoError" "NetParser_rest p = bs @ rest"
  obtains p' where "m p = Inr (x, p')" "NetParser_inv p'" "np_error p' = NoError" "NetParser_rest p' = rest"
  using assms unfolding parses_def by blast

lemma parses_bind:
  assumes "parses m bs x" and "parses (f x) bs' y"
  shows "parses (parser_bind m f) (bs @ bs') y"
  unfolding parses_def
proof (intro allI impI)
  fix p rest
  assume "NetParser_inv p \<and> np_error p = NoError \<and> NetParser_rest p = (bs @ bs') @ rest"
  then obtain p1 where 1: "m p = Inr (x, p1)" "NetParser_inv p1" "np_error p1 = NoError"
      "NetParser_rest p1 = bs' @ rest"
    using parsesD [OF assms(1), of p "bs' @ rest"] by auto
  then obtain p2 where "f x p1 = Inr (y, p2)" "NetParser_inv p2" "np_error p2 = NoError"
      "NetParser_rest p2 = rest"
    using parsesD [OF assms(2), of p1 rest] by auto
  with 1 show "\<exists>p'. parser_bind m f p = Inr (y, p') \<and> NetParser_inv p' \<and> np_error p' = NoError
      \<and> NetParser_rest p' = rest"
    by (simp add: parser_bind_def)
qed

lemma parses_return: "parses (parser_return x) [] x"
  by (simp add: parses_def parser_return_def)

lemma parses_get_error: "parses NetParser_get_error [] NoError"
  by (simp add: parses_def NetParser_get_error_def)

lemma parses_remove_prefix:
  assumes "length bs = unat n"
  shows "parses (NetParser_remove_prefix n) bs ()"
  unfolding parses_def
proof (intro allI impI)
  fix p rest
  assume "NetParser_inv p \<and> np_error p = NoError \<and> NetParser_rest p = bs @ rest"
  then show "\<exists>p'. NetParser_remove_prefix n p = Inr ((), p') \<and> NetParser_inv p' \<and> np_error p' = NoError
      \<and> NetParser_rest p' = rest"
    using remove_prefix_cases [of p n] assms by (auto simp: NetParser_error_def)
qed

text \<open>The bytes of an integer, most significant first.\<close>

definition be_bytes :: "'w::len word \<Rightarrow> bytes" where
  "be_bytes val = map (\<lambda>i. ucast (drop_bit ((LENGTH('w) div 8 - i - 1) * 8) val)) [0..<LENGTH('w) div 8]"

lemma unparse_int_eq: "NetUnparser_unparse_int s val = s @ be_bytes (val :: 'w::len word)"
proof -
  have "fold (\<lambda>i s. s @ [f i]) xs s = s @ map f xs" for f :: "nat \<Rightarrow> byte" and xs
    by (induction xs arbitrary: s) simp_all
  moreover have "(ucast (take_bit 8 w) :: byte) = ucast (w :: 'w word)" for w
    by transfer (simp add: min.commute)
  ultimately show ?thesis
    by (simp add: NetUnparser_unparse_int_def be_bytes_def Let_def)
qed

lemma unparse_simps:
  "NetUnparser_u32 s v = s @ be_bytes v" "NetUnparser_u16 s w = s @ be_bytes w"
  "NetUnparser_u8 s x = s @ [x]"
  by (simp_all add: NetUnparser_u32_def NetUnparser_u16_def NetUnparser_u8_def unparse_int_eq)
    (simp add: be_bytes_def)

lemma length_be_bytes [simp]: "length (be_bytes (v :: 'w::len word)) = LENGTH('w) div 8"
  by (simp add: be_bytes_def)

lemma be_bytes_zero_u16: "be_bytes (0 :: u16) = [0, 0]"
  by (simp add: be_bytes_def upt_rec)

lemma drop_push_nibble: "(d :: u8) < 16 \<Longrightarrow> drop_bit 4 (push_bit 4 d) = d"
proof -
  assume "d < 16"
  then have "unat d < 16" by (simp add: word_less_nat_alt)
  then have "unat (drop_bit 4 (push_bit 4 d)) = unat d"
    by (simp add: drop_bit_eq_div push_bit_eq_mult unat_div_distrib unat_word_ariths)
  then show ?thesis by (simp only: word_unat_eq_iff)
qed

lemma push_bit_drop_bit_8:
  fixes w :: "'w::len word"
  assumes "8 \<le> LENGTH('w)"
  shows "push_bit 8 (drop_bit 8 w) + ucast (ucast w :: byte) = w"
proof -
  have "(ucast (ucast w :: byte) :: 'w word) = take_bit 8 w"
    using assms by transfer (simp add: min_absorb1 min_absorb2)
  then show ?thesis using bits_ident [of 8 w] by simp
qed

lemma be_value_bytes:
  assumes "8 dvd LENGTH('w::len)"
  shows "be_value (be_bytes (v :: 'w word)) = v"
proof -
  obtain n where n: "LENGTH('w) = 8 * n" using assms by auto
  then have "8 \<le> LENGTH('w)" using len_gt_0 [where ?'a = 'w] by (cases n) auto
  note step = push_bit_drop_bit_8 [OF this]
  have "fold (\<lambda>c :: byte. \<lambda>ret. push_bit 8 ret + ucast c)
      (map (\<lambda>i. ucast (drop_bit ((n - i - 1) * 8) v)) [0..<k]) 0 = (drop_bit ((n - k) * 8) v :: 'w word)"
    if "k \<le> n" for k
    using that
  proof (induction k)
    case 0
    then show ?case using n by (simp add: mult.commute)
  next
    case (Suc k)
    then have "(n - k) * 8 = 8 + (n - Suc k) * 8" by (simp add: Suc_diff_Suc)
    then have d: "drop_bit ((n - k) * 8) v = drop_bit 8 (drop_bit ((n - Suc k) * 8) v)" by simp
    show ?case
      using Suc step [of "drop_bit ((n - Suc k) * 8) v"] by (simp add: d del: drop_bit_drop_bit)
  qed
  from this [of n] n show ?thesis by (simp add: be_value_def be_bytes_def)
qed

lemma parses_parse_int:
  assumes "8 dvd LENGTH('w::len)" and "LENGTH('w) < 2 ^ 64"
  shows "parses NetParser_parse_int (be_bytes (v :: 'w word)) v"
  unfolding parses_def
proof (intro allI impI)
  fix p rest
  assume p: "NetParser_inv p \<and> np_error p = NoError \<and> NetParser_rest p = be_bytes v @ rest"
  then show "\<exists>p'. NetParser_parse_int p = Inr (v, p') \<and> NetParser_inv p' \<and> np_error p' = NoError
      \<and> NetParser_rest p' = rest"
    using parse_int_ok [of p, where ?'w = 'w] assms(2) be_value_bytes [OF assms(1)] by simp
qed

lemma parses_ints:
  "parses NetParser_u32 (be_bytes v) v" "parses NetParser_u16 (be_bytes w) w"
  "parses NetParser_u8 [x] x"
  using parses_parse_int [of v] parses_parse_int [of w] parses_parse_int [of x]
  by (simp_all add: NetParser_u32_def NetParser_u16_def NetParser_u8_def be_bytes_def)

text \<open>A parser that first checks that enough bytes are there.\<close>

lemma parser_total_checked:
  "parser_total m \<Longrightarrow> parser_total (\<lambda>p. if Buffer_size (np_buffer p) < n then Inr (x, p) else m p)"
  unfolding parser_total_def by (auto intro: exI [of _ 0])

lemma parses_checked:
  assumes "parses m bs y" and "unat n \<le> length bs"
  shows "parses (\<lambda>p. if Buffer_size (np_buffer p) < n then Inr (x, p) else m p) bs y"
  unfolding parses_def
proof (intro allI impI)
  fix p rest
  assume p: "NetParser_inv p \<and> np_error p = NoError \<and> NetParser_rest p = bs @ rest"
  then have "length (NetParser_rest p) < 2 ^ 64" by (auto simp: NetParser_inv_def dest: Buffer_str_bound)
  with p assms(2) have "\<not> Buffer_size (np_buffer p) < n"
    by (simp add: Buffer_size_def word_less_nat_alt unat_list_size)
  with parsesD [OF assms(1)] p show "\<exists>p'. (if Buffer_size (np_buffer p) < n then Inr (x, p) else m p) = Inr (y, p')
      \<and> NetParser_inv p' \<and> np_error p' = NoError \<and> NetParser_rest p' = rest"
    by metis
qed

text \<open>Composition with the bytes given in front of those still to read.\<close>

lemma parses_chain:
  "parses (f v) bs y \<Longrightarrow> parses (parser_bind NetParser_u32 f) (be_bytes v @ bs) y"
  "parses (g w) bs y \<Longrightarrow> parses (parser_bind NetParser_u16 g) (be_bytes w @ bs) y"
  "parses (h x) bs y \<Longrightarrow> parses (parser_bind NetParser_u8 h) (x # bs) y"
  using parses_bind [OF parses_ints(1)] parses_bind [OF parses_ints(2)] parses_bind [OF parses_ints(3)]
  by (fastforce, fastforce, fastforce)

section \<open>Serializers and their parsers\<close>

locale codec =
  fixes valid :: "'a \<Rightarrow> bool"
    and encode :: "'a \<Rightarrow> bytes result"
    and decode :: "'b parser"
    and outcome :: "'a \<Rightarrow> 'b"
  assumes encode_decode: "valid x \<Longrightarrow> \<exists>bs. encode x = Inr bs \<and> parses decode bs (outcome x)"
    and outcome_inj: "valid x \<Longrightarrow> valid y \<Longrightarrow> outcome x = outcome y \<Longrightarrow> x = y"
    and decode_total: "parser_total decode"
begin

text \<open>Reading a fresh buffer that starts with an encoded value.\<close>

lemma decode_buffer:
  assumes "valid x" and "encode x = Inr bs" and "length (bs @ rest) < 2 ^ 64"
  shows "\<exists>p. decode (NetParser_new (Buffer_of (bs @ rest))) = Inr (outcome x, p)
     \<and> np_error p = NoError \<and> NetParser_rest p = rest \<and> NetParser_inv p"
proof -
  have "parses decode bs (outcome x)" using encode_decode [OF assms(1)] assms(2) by auto
  from parsesD [OF this, of "NetParser_new (Buffer_of (bs @ rest))" rest] assms(3) show ?thesis
    by (auto simp: NetParser_new_def NetParser_inv_def Buffer_inv_of Buffer_str_of)
qed

text \<open>The encoding is a prefix code: what follows a value cannot change how it is read.\<close>

lemma prefix_free:
  assumes "valid x" "valid y" and "encode x = Inr bs" "encode y = Inr bs'"
    and "bs @ rest = bs' @ rest'" and "length (bs @ rest) < 2 ^ 64"
  shows "x = y \<and> rest = rest'"
  using decode_buffer [OF assms(1,3,6)] decode_buffer [OF assms(2,4), of rest'] assms(5,6)
    outcome_inj [OF assms(1,2)] by auto

lemma decode_returns:
  assumes "length bs < 2 ^ 64"
  shows "\<exists>y p n. decode (NetParser_new (Buffer_of bs)) = Inr (y, p) \<and> NetParser_inv p
     \<and> NetParser_rest p = drop n bs"
proof -
  have "NetParser_inv (NetParser_new (Buffer_of bs))" "NetParser_rest (NetParser_new (Buffer_of bs)) = bs"
    using assms by (simp_all add: NetParser_new_def NetParser_inv_def Buffer_inv_of Buffer_str_of)
  then show ?thesis using decode_total unfolding parser_total_def by metis
qed

end

interpretation u32_codec: codec "\<lambda>_. True" "\<lambda>v. Inr (NetUnparser_u32 [] v)" NetParser_u32 "\<lambda>v. v"
  by unfold_locales (simp_all add: unparse_simps parses_ints parser_total_ints)

interpretation u16_codec: codec "\<lambda>_. True" "\<lambda>v. Inr (NetUnparser_u16 [] v)" NetParser_u16 "\<lambda>v. v"
  by unfold_locales (simp_all add: unparse_simps parses_ints parser_total_ints)

interpretation u8_codec: codec "\<lambda>_. True" "\<lambda>v. Inr (NetUnparser_u8 [] v)" NetParser_u8 "\<lambda>v. v"
  by unfold_locales (simp_all add: unparse_simps parses_ints parser_total_ints)

end
