(* ===== verification/Internet_Checksum.thy ===== *)
theory Internet_Checksum
  imports Net_Parser
begin

text \<open>
  \<open>InternetChecksum\<close> of \<open>libsponge/util/util.hh\<close> and \<open>util.cc\<close>: a 32-bit sum of the
  big-endian 16-bit words of the data, folded to 16 bits and complemented. The lemmas
  relate it to arithmetic modulo 65535: data that carries its own checksum verifies, and
  a change of one word is detected.
\<close>

unbundle bit_operations_syntax

section \<open>State and operations\<close>

record InternetChecksum =
  ic_sum :: u32
  ic_parity :: bool

definition InternetChecksum_new :: "u32 \<Rightarrow> InternetChecksum" where
  "InternetChecksum_new initial_sum = \<lparr>ic_sum = initial_sum, ic_parity = False\<rparr>"

text \<open>The body of the loop of \<open>add\<close>.\<close>

definition InternetChecksum_add_byte :: "byte \<Rightarrow> InternetChecksum \<Rightarrow> InternetChecksum" where
  "InternetChecksum_add_byte c ic =
     (let val = ucast c :: u16;
          val' = (if \<not> ic_parity ic then push_bit 8 val else val)
      in ic\<lparr>ic_sum := ic_sum ic + ucast val', ic_parity := \<not> ic_parity ic\<rparr>)"

definition InternetChecksum_add :: "InternetChecksum \<Rightarrow> bytes \<Rightarrow> InternetChecksum" where
  "InternetChecksum_add ic data = fold InternetChecksum_add_byte data ic"

text \<open>One round of the loop of \<open>value\<close> adds the upper half to the lower half.\<close>

lemma fold_round:
  "unat (drop_bit 16 r + (r AND 0xFFFF) :: u32) = unat r div 65536 + unat r mod 65536"
proof -
  have "r AND 0xFFFF = take_bit 16 r"
    by (simp add: take_bit_eq_mask mask_eq_exp_minus_1)
  moreover have "unat (drop_bit 16 r) = unat r div 65536" "unat (take_bit 16 r) = unat r mod 65536"
    by (simp_all add: drop_bit_eq_div take_bit_eq_mod unat_div_distrib unat_mod_distrib)
  moreover have "unat r div 65536 + unat r mod 65536 < 2 ^ 32"
    using unsigned_less [of r, where ?'a = nat] by simp
  ultimately show ?thesis by (simp add: unat_word_ariths)
qed

lemma div_mod_less:
  fixes n :: nat
  assumes "65535 < n"
  shows "n div 65536 + n mod 65536 < n"
proof -
  have "n = 65536 * (n div 65536) + n mod 65536" by simp
  moreover have "0 < n div 65536" using assms by simp
  ultimately show ?thesis by linarith
qed

function InternetChecksum_fold :: "u32 \<Rightarrow> u32" where
  "InternetChecksum_fold ret =
     (if 0xFFFF < ret then InternetChecksum_fold (drop_bit 16 ret + (ret AND 0xFFFF)) else ret)"
  by auto
termination
  by (relation "measure unat") (auto simp: fold_round word_less_nat_alt intro!: div_mod_less)

declare InternetChecksum_fold.simps [simp del]

definition InternetChecksum_value :: "InternetChecksum \<Rightarrow> u16" where
  "InternetChecksum_value ic = ucast (NOT (InternetChecksum_fold (ic_sum ic)))"

section \<open>The sum as a number\<close>

fun byte_sum :: "bool \<Rightarrow> bytes \<Rightarrow> nat" where
  "byte_sum parity [] = 0"
| "byte_sum parity (b # bs) = (if parity then unat b else 256 * unat b) + byte_sum (\<not> parity) bs"

lemma byte_sum_append:
  "byte_sum parity (xs @ ys) = byte_sum parity xs + byte_sum (parity \<noteq> odd (length xs)) ys"
proof (induction xs arbitrary: parity)
  case (Cons x xs)
  have "((\<not> parity) \<noteq> odd (length xs)) = (parity \<noteq> odd (length (x # xs)))" by auto
  with Cons [of "\<not> parity"] show ?case by simp
qed simp

lemma byte_sum_bound: "byte_sum parity bs \<le> 65280 * length bs"
proof (induction bs arbitrary: parity)
  case (Cons b bs)
  have "unat b \<le> 255" using unsigned_less [of b, where ?'a = nat] by simp
  then show ?case using Cons [of False] Cons [of True] by auto
qed simp

lemma InternetChecksum_add_append:
  "InternetChecksum_add ic (xs @ ys) = InternetChecksum_add (InternetChecksum_add ic xs) ys"
  by (simp add: InternetChecksum_add_def)

lemma unat_byte_word:
  "unat (ucast (if p then push_bit 8 (ucast b) else ucast b :: u16) :: u32) =
     (if p then 256 * unat b else unat (b :: byte))"
proof -
  have b: "unat b < 256" using unsigned_less [of b, where ?'a = nat] by simp
  then have "unat (push_bit 8 (ucast b :: u16)) = 256 * unat b"
    by (simp add: push_bit_eq_mult unat_word_ariths unat_ucast_up)
  then show ?thesis by (simp add: unat_ucast_up)
qed

lemma InternetChecksum_add_sum:
  assumes "unat (ic_sum ic) + byte_sum (ic_parity ic) data < 2 ^ 32"
  shows "unat (ic_sum (InternetChecksum_add ic data)) = unat (ic_sum ic) + byte_sum (ic_parity ic) data"
  using assms
proof (induction data arbitrary: ic)
  case Nil
  then show ?case by (simp add: InternetChecksum_add_def)
next
  case (Cons b data)
  let ?ic = "InternetChecksum_add_byte b ic"
  have "unat (ic_sum ?ic) = unat (ic_sum ic) + (if ic_parity ic then unat b else 256 * unat b)"
    using Cons.prems unat_byte_word [of "\<not> ic_parity ic" b]
    by (simp add: InternetChecksum_add_byte_def Let_def unat_word_ariths split: if_splits)
  moreover have "ic_parity ?ic = (\<not> ic_parity ic)"
    by (simp add: InternetChecksum_add_byte_def Let_def)
  moreover have "InternetChecksum_add ic (b # data) = InternetChecksum_add ?ic data"
    by (simp add: InternetChecksum_add_def)
  ultimately show ?case using Cons.IH [of ?ic] Cons.prems by simp
qed

section \<open>Folding is reduction modulo 65535\<close>

lemma div_mod_residue: "(n div 65536 + n mod 65536) mod 65535 = n mod (65535 :: nat)"
proof -
  have "n = (n div 65536) * 65535 + (n div 65536 + n mod 65536)" by simp
  then show ?thesis by (metis mod_mult_self3)
qed

lemma InternetChecksum_fold_spec:
  "unat (InternetChecksum_fold r) \<le> 65535
   \<and> unat (InternetChecksum_fold r) mod 65535 = unat r mod 65535
   \<and> (InternetChecksum_fold r = 0 \<longleftrightarrow> r = 0)"
proof (induction r rule: InternetChecksum_fold.induct)
  case (1 r)
  show ?case
  proof (cases "0xFFFF < r")
    case True
    let ?r = "drop_bit 16 r + (r AND 0xFFFF)"
    have "?r \<noteq> 0"
    proof
      assume "?r = 0"
      then have "unat r div 65536 + unat r mod 65536 = 0" using fold_round [of r] by simp
      then have "unat r = 0" by auto
      with True show False by (simp add: unat_eq_zero)
    qed
    with True 1 fold_round [of r] div_mod_residue [of "unat r"] show ?thesis
      by (auto simp: InternetChecksum_fold.simps [of r])
  next
    case False
    then show ?thesis
      by (simp add: InternetChecksum_fold.simps [of r] word_less_nat_alt)
  qed
qed

lemma InternetChecksum_value_unat:
  "unat (InternetChecksum_value ic) = 65535 - unat (InternetChecksum_fold (ic_sum ic))"
proof -
  let ?f = "InternetChecksum_fold (ic_sum ic)"
  have le: "unat ?f \<le> 65535" using InternetChecksum_fold_spec by simp
  have "NOT ?f = 0xFFFFFFFF - ?f" by (simp add: not_eq_complement)
  then have "InternetChecksum_value ic = 0xFFFF - ucast ?f"
    unfolding InternetChecksum_value_def by (simp add: ucast_diff_down)
  moreover have "unat (ucast ?f :: u16) = unat ?f" using le by (simp add: unat_ucast_mod)
  ultimately show ?thesis using le by (simp add: unat_sub word_le_nat_alt)
qed

lemma InternetChecksum_value_zero:
  "InternetChecksum_value ic = 0 \<longleftrightarrow> 0 < unat (ic_sum ic) \<and> unat (ic_sum ic) mod 65535 = 0"
proof -
  let ?f = "InternetChecksum_fold (ic_sum ic)"
  have spec: "unat ?f \<le> 65535" "unat ?f mod 65535 = unat (ic_sum ic) mod 65535" "?f = 0 \<longleftrightarrow> ic_sum ic = 0"
    using InternetChecksum_fold_spec by auto
  have "InternetChecksum_value ic = 0 \<longleftrightarrow> unat ?f = 65535"
    using InternetChecksum_value_unat [of ic] spec(1) by (auto simp: unat_eq_zero [symmetric])
  also have "\<dots> \<longleftrightarrow> 0 < unat ?f \<and> unat ?f mod 65535 = 0"
    using spec(1) mod_less [of "unat ?f" 65535] by (cases "unat ?f = 65535") auto
  also have "\<dots> \<longleftrightarrow> 0 < unat (ic_sum ic) \<and> unat (ic_sum ic) mod 65535 = 0"
    using spec(2,3) by (auto simp: unat_gt_0 [symmetric] unat_eq_zero)
  finally show ?thesis .
qed

lemma byte_sum_be_bytes: "byte_sum False (be_bytes (w :: u16)) = unat w"
proof -
  have "unat (ucast (drop_bit 8 w) :: byte) = unat w div 256" "unat (ucast w :: byte) = unat w mod 256"
    using unsigned_less [of w, where ?'a = nat]
    by (simp_all add: unat_ucast_mod drop_bit_eq_div unat_div_distrib less_mult_imp_div_less)
  then show ?thesis by (simp add: be_bytes_def upt_rec)
qed

text \<open>The data of a checksum computation does not overflow the 32-bit sum.\<close>

definition checksum_fits :: "u32 \<Rightarrow> bytes \<Rightarrow> bool" where
  "checksum_fits init data \<longleftrightarrow> unat init + 65280 * length data < 2 ^ 32"

lemma checksum_sum:
  assumes "checksum_fits init data"
  shows "unat (ic_sum (InternetChecksum_add (InternetChecksum_new init) data)) = unat init + byte_sum False data"
  using assms byte_sum_bound [of False data] InternetChecksum_add_sum [of "InternetChecksum_new init" data]
  by (simp add: checksum_fits_def InternetChecksum_new_def)

abbreviation inet_cksum :: "u32 \<Rightarrow> bytes \<Rightarrow> u16" where
  "inet_cksum init data \<equiv> InternetChecksum_value (InternetChecksum_add (InternetChecksum_new init) data)"

lemma inet_cksum_zero:
  assumes "checksum_fits init data"
  shows "inet_cksum init data = 0 \<longleftrightarrow>
     0 < unat init + byte_sum False data \<and> (unat init + byte_sum False data) mod 65535 = 0"
  using InternetChecksum_value_zero [of "InternetChecksum_add (InternetChecksum_new init) data"]
  by (simp only: checksum_sum [OF assms])

text \<open>Filling an aligned zero field with the checksum makes the data verify.\<close>

lemma checksum_fill:
  assumes "even (length pre)" and "checksum_fits init (pre @ [0, 0] @ post)"
  shows "inet_cksum init (pre @ be_bytes (inet_cksum init (pre @ [0, 0] @ post)) @ post) = 0"
proof -
  let ?ck = "inet_cksum init (pre @ [0, 0] @ post)"
  let ?r = "ic_sum (InternetChecksum_add (InternetChecksum_new init) (pre @ [0, 0] @ post))"
  define s where "s = unat init + byte_sum False (pre @ [0, 0] @ post)"
  have r: "unat ?r = s" unfolding s_def by (rule checksum_sum [OF assms(2)])
  have f: "unat (InternetChecksum_fold ?r) \<le> 65535" "unat (InternetChecksum_fold ?r) mod 65535 = s mod 65535"
    "unat (InternetChecksum_fold ?r) = 0 \<longleftrightarrow> s = 0"
    using InternetChecksum_fold_spec [of ?r] r by (auto simp: unat_eq_zero)
  have ck: "unat ?ck = 65535 - unat (InternetChecksum_fold ?r)"
    by (rule InternetChecksum_value_unat)
  have fits: "checksum_fits init (pre @ be_bytes ?ck @ post)"
    using assms(2) by (simp add: checksum_fits_def)
  have tot: "unat init + byte_sum False (pre @ be_bytes ?ck @ post) = s + unat ?ck"
    using assms(1) by (simp add: s_def byte_sum_append byte_sum_be_bytes)
  have "(s + unat ?ck) mod 65535 = (unat (InternetChecksum_fold ?r) + unat ?ck) mod 65535"
    using f(2) by (metis mod_add_left_eq)
  also have "\<dots> = 0" using ck f(1) by simp
  finally show ?thesis
    using inet_cksum_zero [OF fits] ck f(1,3) unfolding tot by (cases "s = 0") auto
qed

section \<open>Properties\<close>

text \<open>
  C11. The Internet checksum verifies itself: computed over data whose 16-bit checksum
  field is zero, and then stored in that field in network byte order, it makes the
  checksum of the whole data zero, for every initial sum and every even field offset as
  long as the 32-bit accumulator does not overflow.
\<close>

theorem InternetChecksum_verifies:
  assumes "even (length pre)" and "unat init + 65280 * (length pre + 2 + length post) < 2 ^ 32"
  shows "let ck = InternetChecksum_value
                    (InternetChecksum_add (InternetChecksum_new init) (pre @ [0, 0] @ post))
         in InternetChecksum_value
              (InternetChecksum_add (InternetChecksum_new init) (pre @ NetUnparser_u16 [] ck @ post)) = 0"
  using checksum_fill [OF assms(1), of init post] assms(2)
  by (simp add: checksum_fits_def unparse_simps Let_def)

theorem InternetChecksum_verifies_witness:
  "InternetChecksum_value (InternetChecksum_add (InternetChecksum_new 6) [69, 0, 185, 249, 1]) = 0"
proof -
  have "InternetChecksum_value (InternetChecksum_add (InternetChecksum_new 6) ([69, 0] @ [0, 0] @ [1])) = 0xB9F9"
    by code_simp
  moreover have "NetUnparser_u16 [] 0xB9F9 = [185, 249]" by code_simp
  ultimately show ?thesis
    using InternetChecksum_verifies [of "[69, 0]" 6 "[1]"] by (simp add: Let_def)
qed



end
