(* ===== verification/Wrapping_Integers.thy ===== *)
theory Wrapping_Integers
  imports Prelude
begin

text \<open>
  Sequence numbers: \<open>libsponge/wrapping_integers.hh\<close> and \<open>wrapping_integers.cc\<close>. A
  \<open>WrappingInt32\<close> is a 32-bit number relative to an initial sequence number; \<open>wrap\<close> and
  \<open>unwrap\<close> convert between it and a 64-bit absolute sequence number. Every definition
  computes on words, with the wrap-around of the code.
\<close>

section \<open>The class and its operators\<close>

datatype WrappingInt32 = WrappingInt32 (raw_value: u32)

text \<open>\<open>operator-\<close> on two values returns the 32-bit difference as \<open>int32_t\<close>.\<close>

definition WrappingInt32_diff :: "WrappingInt32 \<Rightarrow> WrappingInt32 \<Rightarrow> int" where
  "WrappingInt32_diff a b = sint (raw_value a - raw_value b)"

definition WrappingInt32_eq :: "WrappingInt32 \<Rightarrow> WrappingInt32 \<Rightarrow> bool" where
  "WrappingInt32_eq a b \<longleftrightarrow> raw_value a = raw_value b"

definition WrappingInt32_plus :: "WrappingInt32 \<Rightarrow> u32 \<Rightarrow> WrappingInt32" where
  "WrappingInt32_plus a b = WrappingInt32 (raw_value a + b)"

definition WrappingInt32_minus :: "WrappingInt32 \<Rightarrow> u32 \<Rightarrow> WrappingInt32" where
  "WrappingInt32_minus a b = WrappingInt32_plus a (- b)"

section \<open>Conversions\<close>

definition wrap :: "u64 \<Rightarrow> WrappingInt32 \<Rightarrow> WrappingInt32" where
  "wrap n isn = WrappingInt32_plus isn (ucast (n mod 2 ^ 32))"

definition unwrap :: "WrappingInt32 \<Rightarrow> WrappingInt32 \<Rightarrow> u64 \<Rightarrow> u64" where
  "unwrap n isn checkpoint =
     (let n_64 = ucast (raw_value n) :: u64;
          isn_64 = ucast (raw_value isn) :: u64;
          abs_seqno = (if n_64 < isn_64 then n_64 + 2 ^ 32 - isn_64 else n_64 - isn_64)
      in if checkpoint \<le> abs_seqno then abs_seqno
         else
           let left_dist = (checkpoint - abs_seqno) mod 2 ^ 32;
               right_dist = (abs_seqno - checkpoint) mod 2 ^ 32
           in if right_dist < left_dist then checkpoint + right_dist
              else checkpoint - left_dist)"

section \<open>Arithmetic behind the conversions\<close>

text \<open>The offset of a sequence number from the initial one, as a number below \<open>2 ^ 32\<close>.\<close>

definition seq_offset :: "WrappingInt32 \<Rightarrow> WrappingInt32 \<Rightarrow> nat" where
  "seq_offset n isn = unat (raw_value n - raw_value isn)"

lemma seq_offset_less: "seq_offset n isn < 2 ^ 32"
  using unsigned_less [of "raw_value n - raw_value isn"] by (simp add: seq_offset_def)

lemma WrappingInt32_plus_assoc:
  "WrappingInt32_plus (WrappingInt32_plus a b) c = WrappingInt32_plus a (b + c)"
  by (simp add: WrappingInt32_plus_def add.assoc)

lemma WrappingInt32_plus_0 [simp]: "WrappingInt32_plus a 0 = a"
  by (simp add: WrappingInt32_plus_def)

lemma ucast_mod_2_32: "ucast ((n :: u64) mod 2 ^ 32) = (ucast n :: u32)"
proof -
  have "ucast (take_bit 32 n) = (ucast n :: u32)"
    by (rule bit_word_eqI) (simp add: bit_simps)
  then show ?thesis
    by (simp only: take_bit_eq_mod)
qed

lemma ucast_add_u32: "ucast (a + b :: u64) = (ucast a + ucast b :: u32)"
  by (rule ucast_add_down) simp

lemma ucast_diff_u32: "ucast (a - b :: u64) = (ucast a - ucast b :: u32)"
  by (rule ucast_diff_down) simp

lemma ucast_2_32: "ucast (2 ^ 32 :: u64) = (0 :: u32)"
  by simp

lemma wrap_ucast: "wrap n isn = WrappingInt32_plus isn (ucast n)"
  by (simp only: wrap_def ucast_mod_2_32)

lemma wrap_add: "wrap (a + b) isn = WrappingInt32_plus (wrap a isn) (ucast b)"
  by (simp add: wrap_ucast WrappingInt32_plus_assoc ucast_add_u32)

lemma wrap_eq_iff: "wrap a isn = wrap b isn \<longleftrightarrow> unat a mod 2 ^ 32 = unat b mod 2 ^ 32"
proof -
  have "wrap a isn = wrap b isn \<longleftrightarrow> (ucast a :: u32) = ucast b"
    by (simp add: wrap_ucast WrappingInt32_plus_def)
  then show ?thesis
    by (simp add: word_unat_eq_iff unat_ucast_mod)
qed

definition unwrap_base :: "WrappingInt32 \<Rightarrow> WrappingInt32 \<Rightarrow> u64" where
  "unwrap_base n isn =
    (if (ucast (raw_value n) :: u64) < ucast (raw_value isn)
     then ucast (raw_value n) + 2 ^ 32 - ucast (raw_value isn)
     else ucast (raw_value n) - ucast (raw_value isn))"

lemma unat_unwrap_base: "unat (unwrap_base n isn) = seq_offset n isn"
proof -
  let ?n = "unat (raw_value n)" and ?i = "unat (raw_value isn)"
  have up: "unat (ucast (x :: u32) :: u64) = unat x" for x
    by (rule unat_ucast_up) simp
  have b: "?n < 2 ^ 32" "?i < 2 ^ 32"
    using unsigned_less [of "raw_value n"] unsigned_less [of "raw_value isn"] by simp_all
  show ?thesis
  proof (cases "?n < ?i")
    case True
    have s: "unat (ucast (raw_value n) + 2 ^ 32 :: u64) = ?n + 2 ^ 32"
      using b by (simp add: unat_word_ariths up)
    have "unat (ucast (raw_value n) + 2 ^ 32 - ucast (raw_value isn) :: u64) = ?n + 2 ^ 32 - ?i"
      using b by (subst unat_sub) (simp_all add: word_le_nat_alt s [simplified] up)
    moreover have "unat (raw_value n - raw_value isn) = ?n + 2 ^ 32 - ?i"
      using True by (simp add: unat_sub_if')
    ultimately show ?thesis
      using True by (simp add: unwrap_base_def seq_offset_def word_less_nat_alt up)
  next
    case False
    then have "unat (ucast (raw_value n) - ucast (raw_value isn) :: u64) = ?n - ?i"
      by (subst unat_sub) (simp_all add: word_le_nat_alt up)
    with False show ?thesis
      by (simp add: unwrap_base_def seq_offset_def word_less_nat_alt up unat_sub word_le_nat_alt)
  qed
qed

lemma wrap_unwrap_base: "wrap (unwrap_base n isn) isn = n"
proof -
  have "ucast (ucast x :: u64) = x" for x :: u32
    by (rule ucast_up_ucast_id) (simp add: is_up)
  then show ?thesis
    by (cases n) (simp add: wrap_ucast unwrap_base_def WrappingInt32_plus_def ucast_diff_u32 ucast_add_u32)
qed

lemma unwrap_alt:
  "unwrap n isn c =
     (let a = unwrap_base n isn; l = (c - a) mod 2 ^ 32; r = (a - c) mod 2 ^ 32
      in if c \<le> a then a else if r < l then c + r else c - l)"
  by (simp only: unwrap_def unwrap_base_def Let_def)

lemma neg_mod_2_32:
  assumes "d \<le> (2 :: nat) ^ 64"
  shows "(2 ^ 64 - d) mod 2 ^ 32 = (if d mod 2 ^ 32 = 0 then 0 else 2 ^ 32 - d mod 2 ^ 32)"
proof -
  have "(2 :: nat) ^ 64 = 2 ^ 32 * 2 ^ 32" by simp
  then show ?thesis
    using mult_diff_mod [of d "2 ^ 32" "2 ^ 32"] assms by (simp only:) simp
qed

lemma unat_unwrap:
  fixes n isn :: WrappingInt32 and c :: u64
  assumes "unat c + 2 ^ 31 \<le> 2 ^ 64"
  defines "a \<equiv> seq_offset n isn" and "l \<equiv> (unat c - seq_offset n isn) mod 2 ^ 32"
  shows "unat (unwrap n isn c) =
     (if unat c \<le> a then a else if 2 ^ 31 < l then unat c + (2 ^ 32 - l) else unat c - l)"
proof (cases "unat c \<le> a")
  case True
  then show ?thesis
    by (simp add: unwrap_alt word_le_nat_alt unat_unwrap_base a_def)
next
  case False
  let ?b = "unwrap_base n isn"
  have C: "unat c < 2 ^ 64" using unsigned_less [of c] by simp
  have ab: "unat ?b = a" by (simp add: unat_unwrap_base a_def)
  have L: "unat ((c - ?b) mod 2 ^ 32) = l"
    using False by (simp add: unat_mod unat_sub word_le_nat_alt ab l_def a_def)
  have "unat (?b - c) = 2 ^ 64 - (unat c - a)"
    using False C by (simp add: unat_sub_if' ab)
  then have "unat ((?b - c) mod 2 ^ 32) = (2 ^ 64 - (unat c - a)) mod 2 ^ 32"
    by (simp add: unat_mod)
  also have "\<dots> = (if l = 0 then 0 else 2 ^ 32 - l)"
    using C unfolding l_def a_def [symmetric] by (subst neg_mod_2_32) simp_all
  finally have R: "unat ((?b - c) mod 2 ^ 32) = (if l = 0 then 0 else 2 ^ 32 - l)" .
  have l: "l < 2 ^ 32" "l \<le> unat c"
    by (simp_all add: l_def order_trans [OF mod_less_eq_dividend])
  have lt: "(?b - c) mod 2 ^ 32 < (c - ?b) mod 2 ^ 32 \<longleftrightarrow> 2 ^ 31 < l"
    unfolding word_less_nat_alt R L using l by auto
  have plus: "unat (c + (?b - c) mod 2 ^ 32) = unat c + (2 ^ 32 - l)" if "2 ^ 31 < l"
    using that assms(1) R l by (simp add: unat_word_ariths)
  have minus: "unat (c - (c - ?b) mod 2 ^ 32) = unat c - l"
    using l L by (simp add: unat_sub word_le_nat_alt)
  from False have "\<not> c \<le> ?b" by (simp add: word_le_nat_alt ab)
  then have "unwrap n isn c =
      (if (?b - c) mod 2 ^ 32 < (c - ?b) mod 2 ^ 32 then c + (?b - c) mod 2 ^ 32
       else c - (c - ?b) mod 2 ^ 32)"
    by (simp only: unwrap_alt Let_def if_False)
  then show ?thesis
    using False lt plus minus by presburger
qed

lemma seq_offset_wrap: "seq_offset (wrap x isn) isn = unat x mod 2 ^ 32"
  by (simp add: seq_offset_def wrap_ucast WrappingInt32_plus_def unat_ucast_mod)

lemma wrap_unwrap: "wrap (unwrap n isn c) isn = n"
proof -
  let ?b = "unwrap_base n isn"
  have m: "wrap (c + (?b - c) mod 2 ^ 32) isn = wrap ?b isn"
    by (simp only: wrap_ucast ucast_add_u32 ucast_diff_u32 ucast_mod_2_32) simp
  have l: "wrap (c - (c - ?b) mod 2 ^ 32) isn = wrap ?b isn"
    by (simp only: wrap_ucast ucast_add_u32 ucast_diff_u32 ucast_mod_2_32) simp
  show ?thesis
    unfolding unwrap_alt Let_def by (simp only: m l wrap_unwrap_base split: if_split) blast
qed

text \<open>The value found is the offset itself, at or above the checkpoint, or within half a cycle of it.\<close>

lemma unwrap_near:
  assumes "unat c + 2 ^ 31 \<le> 2 ^ 64"
  shows "(unat c \<le> unat (unwrap n isn c) \<and> unat (unwrap n isn c) = seq_offset n isn)
       \<or> \<bar>int (unat (unwrap n isn c)) - int (unat c)\<bar> \<le> 2 ^ 31"
proof -
  define l where "l = (unat c - seq_offset n isn) mod 2 ^ 32"
  have "l < 2 ^ 32" "l \<le> unat c"
    by (simp_all add: l_def order_trans [OF mod_less_eq_dividend])
  then show ?thesis
    unfolding unat_unwrap [OF assms] l_def [symmetric] by (auto simp: abs_le_iff)
qed

lemma unwrap_wrap_near:
  assumes "unat c + 2 ^ 31 \<le> 2 ^ 64" and "unat c \<le> unat x + 2 ^ 31" and "unat x < unat c + 2 ^ 31"
  shows "unwrap (wrap x isn) isn c = x"
proof -
  let ?u = "unat (unwrap (wrap x isn) isn c)"
  have cong: "?u mod 2 ^ 32 = unat x mod 2 ^ 32"
    using wrap_unwrap [of "wrap x isn" isn c] by (simp only: wrap_eq_iff)
  define l where "l = (unat c - unat x mod 2 ^ 32) mod 2 ^ 32"
  obtain q where q: "unat x = unat x mod 2 ^ 32 + 2 ^ 32 * q"
    by (metis mod_mult_div_eq)
  have "?u = unat x"
  proof (cases "unat c \<le> unat x mod 2 ^ 32")
    case True
    then have "q = 0" using q assms(3) by (cases q) auto
    with True q show ?thesis
      by (simp add: unat_unwrap [OF assms(1)] seq_offset_wrap)
  next
    case False
    have u: "?u = (if 2 ^ 31 < l then unat c + (2 ^ 32 - l) else unat c - l)"
      using False unfolding unat_unwrap [OF assms(1)] seq_offset_wrap l_def by simp
    show ?thesis
    proof (cases "unat x \<le> unat c")
      case True
      then have "unat c - unat x mod 2 ^ 32 = (unat c - unat x) + 2 ^ 32 * q"
        using q by linarith
      then have "l = (unat c - unat x) mod 2 ^ 32" by (simp add: l_def)
      also have "\<dots> = unat c - unat x" using assms(2) by simp
      finally show ?thesis using u True assms(2) by simp
    next
      case xc: False
      with q False obtain p where "q = Suc p" by (cases q) auto
      with q False xc have "unat c - unat x mod 2 ^ 32 = (2 ^ 32 - (unat x - unat c)) + 2 ^ 32 * p"
        using assms(3) by simp
      then have "l = (2 ^ 32 - (unat x - unat c)) mod 2 ^ 32" by (simp add: l_def)
      also have "\<dots> = 2 ^ 32 - (unat x - unat c)" using xc by simp
      finally show ?thesis using u xc assms(3) by simp
    qed
  qed
  then show ?thesis by (simp add: word_unat_eq_iff)
qed

lemma unwrap_near_nat:
  assumes "unat c + 2 ^ 31 \<le> 2 ^ 64" "unat c \<le> x + 2 ^ 31" "x < unat c + 2 ^ 31"
  shows "unwrap (wrap (of_nat x) isn) isn c = of_nat x"
proof -
  have "unat (of_nat x :: u64) = x"
    using assms by (simp add: unat_of_nat take_bit_nat_eq_self)
  then show ?thesis using assms by (intro unwrap_wrap_near) simp_all
qed

section \<open>Properties\<close>

text \<open>
  C5. \<open>unwrap\<close> returns an absolute sequence number that wraps to its argument, and no other
  such number is closer to the checkpoint (for checkpoints at least half a cycle below
  \<open>2 ^ 64\<close>, so that the neighbours of the checkpoint exist).
\<close>

theorem unwrap_closest:
  assumes "unat c + 2 ^ 31 \<le> 2 ^ 64"
  shows "wrap (unwrap n isn c) isn = n
       \<and> (\<forall>y. wrap y isn = n \<longrightarrow>
            \<bar>int (unat (unwrap n isn c)) - int (unat c)\<bar> \<le> \<bar>int (unat y) - int (unat c)\<bar>)"
proof (intro conjI allI impI)
  show "wrap (unwrap n isn c) isn = n" by (rule wrap_unwrap)
next
  fix y
  assume y: "wrap y isn = n"
  let ?u = "unat (unwrap n isn c)"
  have "?u mod 2 ^ 32 = unat y mod 2 ^ 32"
    using wrap_unwrap [of n isn c] y by (metis wrap_eq_iff)
  then obtain k where k: "int (unat y) = int ?u + 2 ^ 32 * k"
    by (metis of_nat_mod of_nat_numeral of_nat_power mod_eqE)
  from unwrap_near [OF assms, of n isn]
  show "\<bar>int ?u - int (unat c)\<bar> \<le> \<bar>int (unat y) - int (unat c)\<bar>"
  proof
    assume a: "unat c \<le> ?u \<and> ?u = seq_offset n isn"
    then have "?u = unat y mod 2 ^ 32" using y seq_offset_wrap [of y isn] by simp
    then have "?u \<le> unat y" by (simp only: mod_less_eq_dividend)
    with a show ?thesis by linarith
  next
    assume b: "\<bar>int ?u - int (unat c)\<bar> \<le> 2 ^ 31"
    consider "k = 0" | "1 \<le> k" | "k \<le> -1" by linarith
    then show ?thesis using b k by cases auto
  qed
qed

theorem unwrap_closest_witness:
  "wrap (unwrap (WrappingInt32 3) (WrappingInt32 10) (2 ^ 33)) (WrappingInt32 10) = WrappingInt32 3"
  using unwrap_closest [of "2 ^ 33" "WrappingInt32 3" "WrappingInt32 10"] by simp

text \<open>
  C6. Round trip: an absolute sequence number within half a cycle of the checkpoint is
  recovered from its 32-bit form, for every initial sequence number.
\<close>

theorem unwrap_wrap_roundtrip:
  assumes "unat c + 2 ^ 31 \<le> 2 ^ 64"
    and "- (2 ^ 31) \<le> int (unat x) - int (unat c)" and "int (unat x) - int (unat c) < 2 ^ 31"
  shows "unwrap (wrap x isn) isn c = x"
proof (rule unwrap_wrap_near [OF assms(1)])
  have "int (unat c) \<le> int (unat x + 2 ^ 31)" "int (unat x) < int (unat c + 2 ^ 31)"
    using assms(2,3) by (simp_all only: of_nat_add of_nat_power of_nat_numeral)
  then show "unat c \<le> unat x + 2 ^ 31" "unat x < unat c + 2 ^ 31"
    by (simp_all only: of_nat_le_iff of_nat_less_iff)
qed

theorem unwrap_wrap_roundtrip_witness:
  "unwrap (wrap 6000000000 (WrappingInt32 4000000000)) (WrappingInt32 4000000000) 6000000500 = 6000000000"
  using unwrap_wrap_roundtrip [of 6000000500 6000000000 "WrappingInt32 4000000000"] by simp

end
