(* ===== verification/TCP_Segment.thy ===== *)
theory TCP_Segment
  imports Internet_Checksum Wrapping_Integers
begin

text \<open>
  TCP headers and segments: \<open>libsponge/tcp_helpers/tcp_header.hh\<close>, \<open>tcp_header.cc\<close>,
  \<open>tcp_segment.hh\<close> and \<open>tcp_segment.cc\<close>. Parsing is total and never throws, a serialized
  segment verifies its checksum and is parsed back, and the lemmas say which malformed
  segments \<open>TCPSegment::parse\<close> accepts.
\<close>

section \<open>Headers\<close>

record TCPHeader =
  th_sport :: u16
  th_dport :: u16
  th_seqno :: WrappingInt32
  th_ackno :: WrappingInt32
  th_doff :: u8
  th_urg :: bool
  th_ack :: bool
  th_psh :: bool
  th_rst :: bool
  th_syn :: bool
  th_fin :: bool
  th_win :: u16
  th_cksum :: u16
  th_uptr :: u16

definition TCPHeader_LENGTH :: size_t where
  "TCPHeader_LENGTH = 20"

definition TCPHeader_new :: TCPHeader where
  "TCPHeader_new =
     \<lparr>th_sport = 0, th_dport = 0, th_seqno = WrappingInt32 0, th_ackno = WrappingInt32 0,
      th_doff = ucast (TCPHeader_LENGTH div 4), th_urg = False, th_ack = False, th_psh = False,
      th_rst = False, th_syn = False, th_fin = False, th_win = 0, th_cksum = 0, th_uptr = 0\<rparr>"

definition TCPHeader_parse :: "(ParseResult \<times> TCPHeader) parser" where
  "TCPHeader_parse =
     parser_bind NetParser_u16 (\<lambda>sport.
     parser_bind NetParser_u16 (\<lambda>dport.
     parser_bind NetParser_u32 (\<lambda>seqno.
     parser_bind NetParser_u32 (\<lambda>ackno.
     parser_bind NetParser_u8 (\<lambda>off_b.
     parser_bind NetParser_u8 (\<lambda>fl_b.
     parser_bind NetParser_u16 (\<lambda>win.
     parser_bind NetParser_u16 (\<lambda>cksum.
     parser_bind NetParser_u16 (\<lambda>uptr.
       let doff = drop_bit 4 off_b;
           h = \<lparr>th_sport = sport, th_dport = dport,
                th_seqno = WrappingInt32 seqno, th_ackno = WrappingInt32 ackno, th_doff = doff,
                th_urg = (fl_b AND 0x20 \<noteq> 0), th_ack = (fl_b AND 0x10 \<noteq> 0),
                th_psh = (fl_b AND 0x08 \<noteq> 0), th_rst = (fl_b AND 0x04 \<noteq> 0),
                th_syn = (fl_b AND 0x02 \<noteq> 0), th_fin = (fl_b AND 0x01 \<noteq> 0),
                th_win = win, th_cksum = cksum, th_uptr = uptr\<rparr>
       in if doff < 5 then parser_return (HeaderTooShort, h)
          else
            parser_bind (NetParser_remove_prefix (ucast doff * 4 - TCPHeader_LENGTH)) (\<lambda>_.
            parser_bind NetParser_get_error (\<lambda>e. parser_return (e, h))))))))))))"

definition TCPHeader_serialize :: "TCPHeader \<Rightarrow> bytes result" where
  "TCPHeader_serialize h =
     (if th_doff h < 5 then Inl (Runtime_error ''TCP header too short'')
      else
        let ret = NetUnparser_u16 [] (th_sport h);
            ret = NetUnparser_u16 ret (th_dport h);
            ret = NetUnparser_u32 ret (raw_value (th_seqno h));
            ret = NetUnparser_u32 ret (raw_value (th_ackno h));
            ret = NetUnparser_u8 ret (push_bit 4 (th_doff h));
            fl_b = (if th_urg h then 0x20 else 0) OR (if th_ack h then 0x10 else 0)
                   OR (if th_psh h then 0x08 else 0) OR (if th_rst h then 0x04 else 0)
                   OR (if th_syn h then 0x02 else 0) OR (if th_fin h then 0x01 else 0);
            ret = NetUnparser_u8 ret fl_b;
            ret = NetUnparser_u16 ret (th_win h);
            ret = NetUnparser_u16 ret (th_cksum h);
            ret = NetUnparser_u16 ret (th_uptr h)
        in Inr (string_resize (4 * unat (th_doff h)) ret))"

definition TCPHeader_eq :: "TCPHeader \<Rightarrow> TCPHeader \<Rightarrow> bool" where
  "TCPHeader_eq h other \<longleftrightarrow>
     WrappingInt32_eq (th_seqno h) (th_seqno other) \<and> WrappingInt32_eq (th_ackno h) (th_ackno other)
     \<and> th_doff h = th_doff other \<and> th_urg h = th_urg other \<and> th_ack h = th_ack other
     \<and> th_psh h = th_psh other \<and> th_rst h = th_rst other \<and> th_syn h = th_syn other
     \<and> th_fin h = th_fin other \<and> th_win h = th_win other \<and> th_uptr h = th_uptr other"

section \<open>Segments\<close>

record TCPSegment =
  seg_header :: TCPHeader
  seg_payload :: Buffer

definition TCPSegment_new :: TCPSegment where
  "TCPSegment_new = \<lparr>seg_header = TCPHeader_new, seg_payload = Buffer_new\<rparr>"

text \<open>The result of \<open>_header.parse(p)\<close> is discarded; only the parser's own error is returned.\<close>

definition TCPSegment_parse ::
  "TCPSegment \<Rightarrow> Buffer \<Rightarrow> u32 \<Rightarrow> (ParseResult \<times> TCPSegment) result" where
  "TCPSegment_parse seg buffer datagram_layer_checksum =
     (let check = InternetChecksum_add (InternetChecksum_new datagram_layer_checksum) (Buffer_str buffer)
      in if InternetChecksum_value check \<noteq> 0 then Inr (BadChecksum, seg)
         else
           result_map (\<lambda>((_, header), p).
               (np_error p, \<lparr>seg_header = header, seg_payload = np_buffer p\<rparr>))
             (TCPHeader_parse (NetParser_new buffer)))"

definition TCPSegment_length_in_sequence_space :: "TCPSegment \<Rightarrow> size_t" where
  "TCPSegment_length_in_sequence_space seg =
     list_size (Buffer_str (seg_payload seg)) + (if th_syn (seg_header seg) then 1 else 0)
     + (if th_fin (seg_header seg) then 1 else 0)"

definition TCPSegment_serialize :: "TCPSegment \<Rightarrow> u32 \<Rightarrow> BufferList result" where
  "TCPSegment_serialize seg datagram_layer_checksum =
     (let header_out = (seg_header seg)\<lparr>th_cksum := 0\<rparr>
      in result_bind (TCPHeader_serialize header_out) (\<lambda>hs.
         let check = InternetChecksum_add (InternetChecksum_new datagram_layer_checksum) hs;
             check = InternetChecksum_add check (Buffer_str (seg_payload seg));
             header_out = header_out\<lparr>th_cksum := InternetChecksum_value check\<rparr>
         in result_map (\<lambda>hs'. BufferList_append (BufferList_append [] (BufferList_of hs')) [seg_payload seg])
              (TCPHeader_serialize header_out)))"

section \<open>Length in sequence space\<close>

definition seq_length :: "TCPSegment \<Rightarrow> nat" where
  "seq_length seg = length (Buffer_str (seg_payload seg)) + of_bool (th_syn (seg_header seg))
     + of_bool (th_fin (seg_header seg))"

lemma seq_length_unat:
  assumes "length (Buffer_str (seg_payload seg)) + 2 < 2 ^ 64"
  shows "TCPSegment_length_in_sequence_space seg = of_nat (seq_length seg)"
    and "TCPSegment_length_in_sequence_space seg = 0 \<longleftrightarrow> seq_length seg = 0"
proof -
  show eq: "TCPSegment_length_in_sequence_space seg = of_nat (seq_length seg)"
    by (simp add: TCPSegment_length_in_sequence_space_def seq_length_def list_size_def)
  have "seq_length seg < 2 ^ 64" using assms by (simp add: seq_length_def)
  then have "unat (of_nat (seq_length seg) :: size_t) = seq_length seg"
    by (simp add: unat_of_nat take_bit_nat_eq_self)
  then show "TCPSegment_length_in_sequence_space seg = 0 \<longleftrightarrow> seq_length seg = 0"
    unfolding eq by (metis unat_eq_zero)
qed

section \<open>Header round trip\<close>

definition TCPHeader_valid :: "TCPHeader \<Rightarrow> bool" where
  "TCPHeader_valid h \<longleftrightarrow> 5 \<le> th_doff h \<and> th_doff h < 16"

lemma parser_total_TCPHeader: "parser_total TCPHeader_parse"
  unfolding TCPHeader_parse_def Let_def by (auto intro!: parser_intros)

text \<open>The twenty fixed bytes of a serialized header.\<close>

definition TCPHeader_flags :: "TCPHeader \<Rightarrow> u8" where
  "TCPHeader_flags h =
     (if th_urg h then 0x20 else 0) OR (if th_ack h then 0x10 else 0)
     OR (if th_psh h then 0x08 else 0) OR (if th_rst h then 0x04 else 0)
     OR (if th_syn h then 0x02 else 0) OR (if th_fin h then 0x01 else 0)"

definition TCPHeader_front :: "TCPHeader \<Rightarrow> bytes" where
  "TCPHeader_front h =
     be_bytes (th_sport h) @ be_bytes (th_dport h) @ be_bytes (raw_value (th_seqno h))
     @ be_bytes (raw_value (th_ackno h)) @ [push_bit 4 (th_doff h), TCPHeader_flags h] @ be_bytes (th_win h)"

definition TCPHeader_back :: "TCPHeader \<Rightarrow> bytes" where
  "TCPHeader_back h = be_bytes (th_uptr h) @ replicate (4 * unat (th_doff h) - 20) 0"

lemma TCPHeader_flags_bits:
  "(TCPHeader_flags h AND 0x20 \<noteq> 0) = th_urg h" "(TCPHeader_flags h AND 0x10 \<noteq> 0) = th_ack h"
  "(TCPHeader_flags h AND 0x08 \<noteq> 0) = th_psh h" "(TCPHeader_flags h AND 0x04 \<noteq> 0) = th_rst h"
  "(TCPHeader_flags h AND 0x02 \<noteq> 0) = th_syn h" "(TCPHeader_flags h AND 0x01 \<noteq> 0) = th_fin h"
  unfolding TCPHeader_flags_def
  by (cases "th_urg h"; cases "th_ack h"; cases "th_psh h"; cases "th_rst h"; cases "th_syn h";
      cases "th_fin h"; simp)+

lemma TCPHeader_eta:
  "\<lparr>th_sport = th_sport h, th_dport = th_dport h, th_seqno = th_seqno h, th_ackno = th_ackno h,
    th_doff = th_doff h, th_urg = th_urg h, th_ack = th_ack h, th_psh = th_psh h, th_rst = th_rst h,
    th_syn = th_syn h, th_fin = th_fin h, th_win = th_win h, th_cksum = th_cksum h, th_uptr = th_uptr h\<rparr> = h"
  by simp

lemma length_TCPHeader_front: "length (TCPHeader_front h) = 16"
  by (simp add: TCPHeader_front_def)

lemma TCPHeader_serialize_eq:
  assumes "5 \<le> th_doff h"
  shows "TCPHeader_serialize h = Inr (TCPHeader_front h @ be_bytes (th_cksum h) @ TCPHeader_back h)"
proof -
  have "20 \<le> 4 * unat (th_doff h)" using assms by (simp add: word_le_nat_alt)
  then show ?thesis
    using assms
    by (simp add: TCPHeader_serialize_def Let_def unparse_simps string_resize_def TCPHeader_front_def
        TCPHeader_back_def TCPHeader_flags_def not_less)
qed

lemma parses_TCPHeader:
  assumes "TCPHeader_valid h"
  shows "parses TCPHeader_parse (TCPHeader_front h @ be_bytes (th_cksum h) @ TCPHeader_back h) (NoError, h)"
proof -
  have doff: "drop_bit 4 (push_bit 4 (th_doff h)) = th_doff h" "\<not> th_doff h < 5"
    using assms by (auto simp: TCPHeader_valid_def drop_push_nibble)
  have "unat (ucast (th_doff h) * 4 - TCPHeader_LENGTH) = 4 * unat (th_doff h) - 20"
    using assms
    by (subst unat_le_diff)
      (simp_all add: TCPHeader_valid_def TCPHeader_LENGTH_def word_le_nat_alt word_less_nat_alt
        unat_word_ariths unat_ucast_up)
  then have opt: "parses (NetParser_remove_prefix (ucast (th_doff h) * 4 - TCPHeader_LENGTH))
      (replicate (4 * unat (th_doff h) - 20) 0) ()"
    by (intro parses_remove_prefix) simp
  have tail: "parses (parser_bind (NetParser_remove_prefix (ucast (th_doff h) * 4 - TCPHeader_LENGTH))
      (\<lambda>_. parser_bind NetParser_get_error (\<lambda>e. parser_return (e, h))))
      (replicate (4 * unat (th_doff h) - 20) 0) (NoError, h)"
    using parses_bind [OF opt parses_bind [OF parses_get_error parses_return]] by simp
  show ?thesis
    unfolding TCPHeader_parse_def TCPHeader_front_def TCPHeader_back_def Let_def append_assoc append_Cons append_Nil
    by (intro parses_chain) (simp add: doff TCPHeader_flags_bits tail TCPHeader_eta)
qed

interpretation tcp_header: codec TCPHeader_valid TCPHeader_serialize TCPHeader_parse "Pair NoError"
proof (unfold_locales, goal_cases)
  case (1 h)
  then show ?case using TCPHeader_serialize_eq [of h] parses_TCPHeader [of h] by (simp add: TCPHeader_valid_def)
qed (simp_all add: parser_total_TCPHeader)

lemma TCPHeader_needs: "parser_needs TCPHeader_parse 20"
proof -
  have "parser_needs TCPHeader_parse (2 + (2 + (4 + (4 + (1 + (1 + (2 + (2 + (2 + 0)))))))))"
    unfolding TCPHeader_parse_def Let_def
    by (intro parser_needs_chain parser_needs_zero) (auto intro!: parser_intros)
  then show ?thesis by simp
qed

section \<open>Segments on the wire\<close>

lemma TCPHeader_cksum_update [simp]:
  "TCPHeader_front (h\<lparr>th_cksum := c\<rparr>) = TCPHeader_front h"
  "TCPHeader_back (h\<lparr>th_cksum := c\<rparr>) = TCPHeader_back h"
  "TCPHeader_valid (h\<lparr>th_cksum := c\<rparr>) = TCPHeader_valid h"
  by (simp_all add: TCPHeader_front_def TCPHeader_back_def TCPHeader_flags_def TCPHeader_valid_def)

lemma TCPSegment_serialize_eq:
  fixes ck :: u32
  assumes "TCPHeader_valid (seg_header seg)"
  defines "h \<equiv> seg_header seg" and "pl \<equiv> Buffer_str (seg_payload seg)"
  defines "c \<equiv> inet_cksum ck (TCPHeader_front h @ [0, 0] @ TCPHeader_back h @ pl)"
  shows "TCPSegment_serialize seg ck =
     Inr [Buffer_of (TCPHeader_front h @ be_bytes c @ TCPHeader_back h), seg_payload seg]"
proof -
  have "5 \<le> th_doff h" using assms by (simp add: TCPHeader_valid_def)
  then show ?thesis
    using TCPHeader_serialize_eq [of "h\<lparr>th_cksum := c\<rparr>"] TCPHeader_serialize_eq [of "h\<lparr>th_cksum := 0\<rparr>"]
    by (simp add: TCPSegment_serialize_def Let_def h_def [symmetric] pl_def [symmetric]
        InternetChecksum_add_append [symmetric] be_bytes_zero_u16 c_def [simplified] BufferList_of_def)
qed

lemma length_TCPHeader_back:
  "TCPHeader_valid h \<Longrightarrow> length (TCPHeader_back h) + 18 = 4 * unat (th_doff h)"
  by (auto simp: TCPHeader_back_def TCPHeader_valid_def word_le_nat_alt)

lemma TCPSegment_parse_buffer:
  assumes "length bs < 2 ^ 64" and "inet_cksum ck bs = 0"
    and "TCPHeader_parse (NetParser_new (Buffer_of bs)) = Inr ((e, h), p)"
  shows "TCPSegment_parse s (Buffer_of bs) ck = Inr (np_error p, \<lparr>seg_header = h, seg_payload = np_buffer p\<rparr>)"
  using assms by (simp add: TCPSegment_parse_def Buffer_str_of)

lemma TCPSegment_wire:
  assumes "5 \<le> th_doff (seg_header seg)" and "th_doff (seg_header seg) < 16"
    and "unat ck + 65280 * (4 * unat (th_doff (seg_header seg)) + length (Buffer_str (seg_payload seg))) < 2 ^ 32"
  shows "\<exists>bl c. TCPSegment_serialize seg ck = Inr bl
     \<and> length (BufferList_concatenate bl) = 4 * unat (th_doff (seg_header seg)) + length (Buffer_str (seg_payload seg))
     \<and> (\<forall>b0 s. Buffer_inv b0 \<and> Buffer_str b0 = BufferList_concatenate bl \<longrightarrow>
          (\<exists>b. TCPSegment_parse s b0 ck = Inr (NoError, \<lparr>seg_header = (seg_header seg)\<lparr>th_cksum := c\<rparr>, seg_payload = b\<rparr>)
             \<and> Buffer_str b = Buffer_str (seg_payload seg) \<and> Buffer_inv b))"
proof -
  define h where "h = seg_header seg"
  define pl where "pl = Buffer_str (seg_payload seg)"
  define c where "c = inet_cksum ck (TCPHeader_front h @ [0, 0] @ TCPHeader_back h @ pl)"
  define hb where "hb = TCPHeader_front h @ be_bytes c @ TCPHeader_back h"
  have v: "TCPHeader_valid h" "TCPHeader_valid (h\<lparr>th_cksum := c\<rparr>)"
    using assms(1,2) by (simp_all add: h_def TCPHeader_valid_def)
  have len: "length hb = 4 * unat (th_doff h)" "length hb + length pl < 2 ^ 32"
    using length_TCPHeader_back [OF v(1)] assms(3) by (simp_all add: hb_def length_TCPHeader_front h_def pl_def)
  have ser: "TCPSegment_serialize seg ck = Inr [Buffer_of hb, seg_payload seg]"
    using TCPSegment_serialize_eq [of seg ck] v by (simp add: h_def pl_def c_def hb_def)
  have cat: "BufferList_concatenate [Buffer_of hb, seg_payload seg] = hb @ pl"
    using len by (simp add: BufferList_concatenate_eq Buffer_str_of pl_def)
  have ck: "inet_cksum ck (hb @ pl) = 0"
    using checksum_fill [of "TCPHeader_front h" ck "TCPHeader_back h @ pl"] assms(3) len length_TCPHeader_back [OF v(1)]
    by (simp add: c_def hb_def length_TCPHeader_front checksum_fits_def h_def pl_def)
  have "\<exists>b. TCPSegment_parse s b0 ck = Inr (NoError, \<lparr>seg_header = h\<lparr>th_cksum := c\<rparr>, seg_payload = b\<rparr>)
             \<and> Buffer_str b = pl \<and> Buffer_inv b" if b0: "Buffer_inv b0" "Buffer_str b0 = hb @ pl" for b0 s
  proof -
    have "parses TCPHeader_parse hb (NoError, h\<lparr>th_cksum := c\<rparr>)"
      using tcp_header.encode_decode [OF v(2)] TCPHeader_serialize_eq [of "h\<lparr>th_cksum := c\<rparr>"] v(2) by (auto simp: hb_def TCPHeader_valid_def)
    from parsesD [OF this, of "NetParser_new b0" pl] b0 obtain p where
      "TCPHeader_parse (NetParser_new b0) = Inr ((NoError, h\<lparr>th_cksum := c\<rparr>), p)" "NetParser_inv p"
      "np_error p = NoError" "NetParser_rest p = pl"
      by (auto simp: NetParser_new_def NetParser_inv_def)
    then show ?thesis using ck b0 by (simp add: TCPSegment_parse_def NetParser_inv_def)
  qed
  with ser cat len(1) show ?thesis unfolding h_def pl_def by (metis length_append)
qed

section \<open>Properties\<close>





text \<open>
  \<open>TCPSegment::parse\<close> discards the result of \<open>TCPHeader::parse\<close>: a segment whose data
  offset is less than the minimum of five words, with a correct checksum, makes the header
  parser answer \<open>HeaderTooShort\<close>, and yet the segment is accepted with no error and all the
  bytes after the first twenty as its payload.
\<close>

lemma TCPSegment_accepts_short_offset:
  assumes "th_doff h < 5"
    and "bs = TCPHeader_front h @ be_bytes (th_cksum h) @ be_bytes (th_uptr h) @ data"
    and "length bs < 2 ^ 64" and "inet_cksum ck bs = 0"
  shows "(\<exists>p. TCPHeader_parse (NetParser_new (Buffer_of bs)) = Inr ((HeaderTooShort, h), p))
     \<and> (\<exists>seg'. TCPSegment_parse seg (Buffer_of bs) ck = Inr (NoError, seg')
          \<and> seg_header seg' = h \<and> Buffer_str (seg_payload seg') = data)"
proof -
  have doff: "drop_bit 4 (push_bit 4 (th_doff h)) = th_doff h"
    using assms(1) by (intro drop_push_nibble) (rule less_trans, assumption, simp)
  have "parses TCPHeader_parse (TCPHeader_front h @ be_bytes (th_cksum h) @ be_bytes (th_uptr h) @ []) (HeaderTooShort, h)"
    unfolding TCPHeader_parse_def TCPHeader_front_def Let_def append_assoc append_Cons append_Nil
    by (intro parses_chain) (simp add: doff assms(1) TCPHeader_flags_bits TCPHeader_eta parses_return)
  from parsesD [OF this, of "NetParser_new (Buffer_of bs)" data] assms(2,3)
  obtain p where "TCPHeader_parse (NetParser_new (Buffer_of bs)) = Inr ((HeaderTooShort, h), p)"
      "np_error p = NoError" "NetParser_rest p = data"
    by (auto simp: NetParser_new_def NetParser_inv_def Buffer_inv_of Buffer_str_of)
  with TCPSegment_parse_buffer [OF assms(3,4), of _ h p seg] show ?thesis by simp
qed

end
