(* ===== verification/Byte_Stream.thy ===== *)
theory Byte_Stream
  imports Prelude
begin

text \<open>
  The in-memory flow-controlled byte stream of \<open>libsponge/byte_stream.hh\<close> and
  \<open>byte_stream.cc\<close>: its state, one definition per member function, the locale
  \<open>byte_channel\<close> that states what its clients (the reassembler, the sender, the socket
  loop) rely on, and the interpretation that discharges it for the code.
\<close>

section \<open>State and operations\<close>

record ByteStream =
  bs_buffer :: bytes
  bs_capacity :: size_t
  bs_input_ended :: bool
  bs_error :: bool
  bs_num_written :: size_t
  bs_num_read :: size_t

definition ByteStream_new :: "size_t \<Rightarrow> ByteStream" where
  "ByteStream_new capacity =
     \<lparr>bs_buffer = [], bs_capacity = capacity, bs_input_ended = False, bs_error = False,
      bs_num_written = 0, bs_num_read = 0\<rparr>"

definition ByteStream_buffer_size :: "ByteStream \<Rightarrow> size_t" where
  "ByteStream_buffer_size bs = list_size (bs_buffer bs)"

definition ByteStream_remaining_capacity :: "ByteStream \<Rightarrow> size_t" where
  "ByteStream_remaining_capacity bs = bs_capacity bs - list_size (bs_buffer bs)"

text \<open>The body of the loop of \<open>write\<close>, for one byte.\<close>

definition ByteStream_push_back :: "byte \<Rightarrow> ByteStream \<Rightarrow> ByteStream" where
  "ByteStream_push_back c bs =
     bs\<lparr>bs_buffer := bs_buffer bs @ [c], bs_num_written := bs_num_written bs + 1\<rparr>"

text \<open>
  \<open>num_writable\<close> is an \<open>int\<close>: the minimum of two \<open>size_t\<close> values is narrowed, and
  the returned \<open>size_t\<close> is converted back from that \<open>int\<close>.
\<close>

definition ByteStream_write :: "ByteStream \<Rightarrow> bytes \<Rightarrow> ByteStream \<times> size_t" where
  "ByteStream_write bs data =
     (if bs_input_ended bs then (bs, 0)
      else
        let num_writable = int_of_size (min (list_size data) (ByteStream_remaining_capacity bs))
        in (fold ByteStream_push_back (take (nat num_writable) data) bs, of_int num_writable))"

definition ByteStream_peek_output :: "ByteStream \<Rightarrow> size_t \<Rightarrow> bytes" where
  "ByteStream_peek_output bs len =
     (let peek_len = int_of_size (min len (list_size (bs_buffer bs)))
      in take (nat peek_len) (bs_buffer bs))"

text \<open>The body of the loop of \<open>pop_output\<close>.\<close>

definition ByteStream_pop_front :: "ByteStream \<Rightarrow> ByteStream" where
  "ByteStream_pop_front bs =
     bs\<lparr>bs_buffer := tl (bs_buffer bs), bs_num_read := bs_num_read bs + 1\<rparr>"

definition ByteStream_pop_output :: "ByteStream \<Rightarrow> size_t \<Rightarrow> ByteStream" where
  "ByteStream_pop_output bs len =
     (let peek_len = int_of_size (min len (list_size (bs_buffer bs)))
      in (ByteStream_pop_front ^^ nat peek_len) bs)"

definition ByteStream_read :: "ByteStream \<Rightarrow> size_t \<Rightarrow> ByteStream \<times> bytes" where
  "ByteStream_read bs len =
     (let peeked = ByteStream_peek_output bs len
      in (ByteStream_pop_output bs len, peeked))"

definition ByteStream_end_input :: "ByteStream \<Rightarrow> ByteStream" where
  "ByteStream_end_input bs = bs\<lparr>bs_input_ended := True\<rparr>"

definition ByteStream_set_error :: "ByteStream \<Rightarrow> ByteStream" where
  "ByteStream_set_error bs = bs\<lparr>bs_error := True\<rparr>"

definition ByteStream_buffer_empty :: "ByteStream \<Rightarrow> bool" where
  "ByteStream_buffer_empty bs \<longleftrightarrow> list_size (bs_buffer bs) = 0"

definition ByteStream_eof :: "ByteStream \<Rightarrow> bool" where
  "ByteStream_eof bs \<longleftrightarrow> bs_input_ended bs \<and> ByteStream_buffer_empty bs"

text \<open>\<open>input_ended()\<close>, \<open>error()\<close>, \<open>bytes_written()\<close> and \<open>bytes_read()\<close> return a member.\<close>

abbreviation ByteStream_bytes_written :: "ByteStream \<Rightarrow> size_t" where
  "ByteStream_bytes_written \<equiv> bs_num_written"

abbreviation ByteStream_bytes_read :: "ByteStream \<Rightarrow> size_t" where
  "ByteStream_bytes_read \<equiv> bs_num_read"

section \<open>Well-formed streams\<close>

text \<open>
  Every stream of the library is built with a capacity far below \<open>2 ^ 31\<close> (64000 by
  default, 1048576 in the copy loop); below that bound no conversion of the operations
  loses a value.
\<close>

definition ByteStream_inv :: "ByteStream \<Rightarrow> bool" where
  "ByteStream_inv bs \<longleftrightarrow>
     unat (bs_capacity bs) < 2 ^ 31 \<and> length (bs_buffer bs) \<le> unat (bs_capacity bs)"

section \<open>The interface a client sees\<close>

text \<open>
  A run of a byte channel: bytes offered, bytes requested, and control operations of a
  type of the provider. It returns the final state, everything the channel accepted and
  everything it delivered, in order.
\<close>

datatype 'c channel_op = Put bytes | Get size_t | Control 'c

fun channel_run ::
  "('s \<Rightarrow> bytes \<Rightarrow> 's \<times> size_t) \<Rightarrow> ('s \<Rightarrow> size_t \<Rightarrow> 's \<times> bytes) \<Rightarrow> ('c \<Rightarrow> 's \<Rightarrow> 's) \<Rightarrow>
   's \<Rightarrow> 'c channel_op list \<Rightarrow> 's \<times> bytes \<times> bytes" where
  "channel_run put get ctl s [] = (s, [], [])"
| "channel_run put get ctl s (Put d # ops) =
     (let (s', n) = put s d; (s'', ins, outs) = channel_run put get ctl s' ops
      in (s'', take (unat n) d @ ins, outs))"
| "channel_run put get ctl s (Get k # ops) =
     (let (s', d) = get s k; (s'', ins, outs) = channel_run put get ctl s' ops
      in (s'', ins, d @ outs))"
| "channel_run put get ctl s (Control c # ops) = channel_run put get ctl (ctl c s) ops"

locale byte_channel =
  fixes put :: "'s \<Rightarrow> bytes \<Rightarrow> 's \<times> size_t"
    and get :: "'s \<Rightarrow> size_t \<Rightarrow> 's \<times> bytes"
    and ctl :: "'c \<Rightarrow> 's \<Rightarrow> 's"
    and contents :: "'s \<Rightarrow> bytes"
    and bound :: "'s \<Rightarrow> nat"
    and invar :: "'s \<Rightarrow> bool"
  assumes put_contents:
      "invar s \<Longrightarrow> put s d = (s', n) \<Longrightarrow> contents s' = contents s @ take (unat n) d"
    and get_contents: "invar s \<Longrightarrow> get s k = (s', d) \<Longrightarrow> contents s = d @ contents s'"
    and ctl_contents: "invar s \<Longrightarrow> contents (ctl c s) = contents s"
    and contents_bound: "invar s \<Longrightarrow> length (contents s) \<le> bound s"
    and put_invar: "invar s \<Longrightarrow> put s d = (s', n) \<Longrightarrow> invar s' \<and> bound s' = bound s"
    and get_invar: "invar s \<Longrightarrow> get s k = (s', d) \<Longrightarrow> invar s' \<and> bound s' = bound s"
    and ctl_invar: "invar s \<Longrightarrow> invar (ctl c s) \<and> bound (ctl c s) = bound s"
begin

lemma run_invar:
  "invar s \<Longrightarrow> channel_run put get ctl s ops = (s', ins, outs) \<Longrightarrow>
   invar s' \<and> bound s' = bound s"
proof (induction ops arbitrary: s s' ins outs)
  case Nil
  then show ?case by simp
next
  case (Cons x ops)
  show ?case
  proof (cases x)
    case (Put d)
    with Cons show ?thesis
      by (force split: prod.splits simp: Let_def dest: put_invar)
  next
    case (Get k)
    with Cons show ?thesis
      by (force split: prod.splits simp: Let_def dest: get_invar)
  next
    case (Control c)
    with Cons.prems have "invar (ctl c s)"
      and "channel_run put get ctl (ctl c s) ops = (s', ins, outs)"
      by (simp_all add: ctl_invar)
    then have "invar s' \<and> bound s' = bound (ctl c s)" by (rule Cons.IH)
    with Cons.prems show ?thesis by (simp add: ctl_invar)
  qed
qed

lemma run_fifo:
  "invar s \<Longrightarrow> channel_run put get ctl s ops = (s', ins, outs) \<Longrightarrow>
   contents s @ ins = outs @ contents s'"
proof (induction ops arbitrary: s s' ins outs)
  case Nil
  then show ?case by simp
next
  case (Cons x ops)
  show ?case
  proof (cases x)
    case (Put d)
    obtain s1 n where p: "put s d = (s1, n)" by fastforce
    obtain s2 ins' outs' where r: "channel_run put get ctl s1 ops = (s2, ins', outs')"
      by (cases "channel_run put get ctl s1 ops") auto
    from Put p r Cons.prems(2) have eq: "s' = s2" "ins = take (unat n) d @ ins'" "outs = outs'"
      by simp_all
    from p Cons.prems(1) have "invar s1" by (simp add: put_invar)
    then have "contents s1 @ ins' = outs' @ contents s2" using r by (rule Cons.IH)
    then show ?thesis
      by (simp add: eq put_contents [OF Cons.prems(1) p])
  next
    case (Get k)
    obtain s1 d where g: "get s k = (s1, d)" by fastforce
    obtain s2 ins' outs' where r: "channel_run put get ctl s1 ops = (s2, ins', outs')"
      by (cases "channel_run put get ctl s1 ops") auto
    from Get g r Cons.prems(2) have eq: "s' = s2" "ins = ins'" "outs = d @ outs'"
      by simp_all
    from g Cons.prems(1) have "invar s1" by (simp add: get_invar)
    then have "contents s1 @ ins' = outs' @ contents s2" using r by (rule Cons.IH)
    then show ?thesis
      by (simp add: eq get_contents [OF Cons.prems(1) g])
  next
    case (Control c)
    with Cons.prems have "invar (ctl c s)"
      and "channel_run put get ctl (ctl c s) ops = (s', ins, outs)"
      by (simp_all add: ctl_invar)
    then have "contents (ctl c s) @ ins = outs @ contents s'" by (rule Cons.IH)
    with Cons.prems show ?thesis by (simp add: ctl_contents)
  qed
qed

lemma run_in_flight_bound:
  assumes "invar s" and "contents s = []"
    and "channel_run put get ctl s ops = (s', ins, outs)"
  shows "length ins - length outs \<le> bound s \<and> take (length outs) ins = outs"
proof -
  from run_fifo [OF assms(1,3)] assms(2) have eq: "ins = outs @ contents s'" by simp
  from run_invar [OF assms(1,3)] have "length (contents s') \<le> bound s"
    using contents_bound [of s'] by simp
  with eq show ?thesis by simp
qed

end

section \<open>Effect of the loops\<close>

lemma fold_push_back:
  "fold ByteStream_push_back xs bs =
     bs\<lparr>bs_buffer := bs_buffer bs @ xs, bs_num_written := bs_num_written bs + of_nat (length xs)\<rparr>"
  by (induction xs arbitrary: bs) (simp_all add: ByteStream_push_back_def)

lemma funpow_pop_front:
  "(ByteStream_pop_front ^^ n) bs =
     bs\<lparr>bs_buffer := drop n (bs_buffer bs), bs_num_read := bs_num_read bs + of_nat n\<rparr>"
  by (induction n) (simp_all add: ByteStream_pop_front_def tl_drop drop_Suc)

lemma remaining_capacity_unat [size_simps]:
  assumes "ByteStream_inv bs"
  shows "unat (ByteStream_remaining_capacity bs) = unat (bs_capacity bs) - length (bs_buffer bs)"
proof -
  have len: "unat (list_size (bs_buffer bs)) = length (bs_buffer bs)"
    using assms by (intro unat_list_size) (simp add: ByteStream_inv_def)
  then have "list_size (bs_buffer bs) \<le> bs_capacity bs"
    using assms by (simp add: ByteStream_inv_def word_le_nat_alt)
  then show ?thesis
    by (simp add: ByteStream_remaining_capacity_def unat_le_diff len)
qed

text \<open>The number of bytes \<open>write\<close> accepts on an open well-formed stream.\<close>

definition ByteStream_room :: "ByteStream \<Rightarrow> bytes \<Rightarrow> nat" where
  "ByteStream_room bs data =
     min (unat (list_size data)) (unat (bs_capacity bs) - length (bs_buffer bs))"

lemma ByteStream_write_open:
  assumes "ByteStream_inv bs" and "\<not> bs_input_ended bs"
  shows "ByteStream_write bs data =
     (bs\<lparr>bs_buffer := bs_buffer bs @ take (ByteStream_room bs data) data,
         bs_num_written := bs_num_written bs + of_nat (length (take (ByteStream_room bs data) data))\<rparr>,
      of_nat (ByteStream_room bs data))"
proof -
  let ?m = "min (list_size data) (ByteStream_remaining_capacity bs)"
  have m: "unat ?m = ByteStream_room bs data"
    by (simp add: min_unat ByteStream_room_def remaining_capacity_unat [OF assms(1)])
  have "unat ?m < 2 ^ 31"
    using assms(1) unfolding m ByteStream_room_def ByteStream_inv_def by linarith
  then have "int_of_size ?m = int (ByteStream_room bs data)"
    unfolding m [symmetric] by (rule int_of_size_small)
  then show ?thesis
    using assms(2) by (simp add: ByteStream_write_def fold_push_back Let_def)
qed

lemma ByteStream_room_unat:
  assumes "ByteStream_inv bs"
  shows "unat (of_nat (ByteStream_room bs data) :: size_t) = ByteStream_room bs data"
proof -
  have "ByteStream_room bs data < 2 ^ 31"
    using assms unfolding ByteStream_room_def ByteStream_inv_def by linarith
  then show ?thesis by (simp add: unat_of_nat take_bit_nat_eq_self)
qed

lemma ByteStream_write_ended: "bs_input_ended bs \<Longrightarrow> ByteStream_write bs data = (bs, 0)"
  by (simp add: ByteStream_write_def)

definition ByteStream_avail :: "ByteStream \<Rightarrow> size_t \<Rightarrow> nat" where
  "ByteStream_avail bs len = min (unat len) (length (bs_buffer bs))"

lemma ByteStream_peek_len:
  assumes "ByteStream_inv bs"
  shows "int_of_size (min len (list_size (bs_buffer bs))) = int (ByteStream_avail bs len)"
proof -
  have len: "unat (list_size (bs_buffer bs)) = length (bs_buffer bs)"
    using assms by (intro unat_list_size) (simp add: ByteStream_inv_def)
  then have m: "unat (min len (list_size (bs_buffer bs))) = ByteStream_avail bs len"
    by (simp add: min_unat ByteStream_avail_def)
  have "ByteStream_avail bs len < 2 ^ 31"
    using assms unfolding ByteStream_avail_def ByteStream_inv_def by linarith
  then show ?thesis unfolding m [symmetric] by (rule int_of_size_small)
qed

lemma ByteStream_read_eq:
  assumes "ByteStream_inv bs"
  shows "ByteStream_read bs len =
     (bs\<lparr>bs_buffer := drop (ByteStream_avail bs len) (bs_buffer bs),
         bs_num_read := bs_num_read bs + of_nat (ByteStream_avail bs len)\<rparr>,
      take (ByteStream_avail bs len) (bs_buffer bs))"
  by (simp add: ByteStream_read_def ByteStream_peek_output_def ByteStream_pop_output_def
      ByteStream_peek_len [OF assms] funpow_pop_front Let_def)

lemmas ByteStream_defs =
  ByteStream_inv_def ByteStream_new_def ByteStream_end_input_def ByteStream_set_error_def

lemma ByteStream_end_input_simps [simp]:
  "bs_buffer (ByteStream_end_input bs) = bs_buffer bs"
  "bs_capacity (ByteStream_end_input bs) = bs_capacity bs"
  "bs_input_ended (ByteStream_end_input bs)"
  "ByteStream_inv (ByteStream_end_input bs) = ByteStream_inv bs"
  by (simp_all add: ByteStream_defs)

lemma ByteStream_inv_new: "unat c < 2 ^ 31 \<Longrightarrow> ByteStream_inv (ByteStream_new c)"
  by (simp add: ByteStream_defs)

lemma ByteStream_write_inv:
  assumes "ByteStream_inv bs"
  shows "ByteStream_inv (fst (ByteStream_write bs data))
     \<and> bs_capacity (fst (ByteStream_write bs data)) = bs_capacity bs"
proof (cases "bs_input_ended bs")
  case True
  with assms show ?thesis by (simp add: ByteStream_write_ended)
next
  case False
  show ?thesis
    using assms unfolding ByteStream_write_open [OF assms False]
    by (auto simp: ByteStream_inv_def ByteStream_room_def min_def)
qed

lemma ByteStream_read_inv:
  assumes "ByteStream_inv bs"
  shows "ByteStream_inv (fst (ByteStream_read bs len))
     \<and> bs_capacity (fst (ByteStream_read bs len)) = bs_capacity bs"
  using assms by (auto simp: ByteStream_read_eq ByteStream_inv_def)

section \<open>The code provides the interface\<close>

datatype bs_control = End_input | Set_error

fun ByteStream_control :: "bs_control \<Rightarrow> ByteStream \<Rightarrow> ByteStream" where
  "ByteStream_control End_input bs = ByteStream_end_input bs"
| "ByteStream_control Set_error bs = ByteStream_set_error bs"

lemma ByteStream_control_simps [simp]:
  "bs_buffer (ByteStream_control c bs) = bs_buffer bs"
  "bs_capacity (ByteStream_control c bs) = bs_capacity bs"
  "bs_num_written (ByteStream_control c bs) = bs_num_written bs"
  "bs_num_read (ByteStream_control c bs) = bs_num_read bs"
  "ByteStream_inv (ByteStream_control c bs) = ByteStream_inv bs"
  by (cases c; simp add: ByteStream_defs)+

interpretation bs_chan: byte_channel ByteStream_write ByteStream_read ByteStream_control
  bs_buffer "\<lambda>bs. unat (bs_capacity bs)" ByteStream_inv
proof (unfold_locales, goal_cases)
  case (1 s d s' n)
  then show ?case
    by (cases "bs_input_ended s")
      (auto simp: ByteStream_write_ended ByteStream_write_open ByteStream_room_unat)
next
  case (2 s k s' d)
  then show ?case by (auto simp: ByteStream_read_eq)
next
  case (3 s c)
  then show ?case by simp
next
  case (4 s)
  then show ?case by (simp add: ByteStream_inv_def)
next
  case (5 s d s' n)
  then show ?case using ByteStream_write_inv [of s d] by simp
next
  case (6 s k s' d)
  then show ?case using ByteStream_read_inv [of s k] by simp
next
  case (7 s c)
  then show ?case by simp
qed

abbreviation ByteStream_run ::
  "ByteStream \<Rightarrow> bs_control channel_op list \<Rightarrow> ByteStream \<times> bytes \<times> bytes" where
  "ByteStream_run \<equiv> channel_run ByteStream_write ByteStream_read ByteStream_control"

lemma ByteStream_run_counts:
  assumes "ByteStream_inv s" and "ByteStream_run s ops = (s', ins, outs)"
  shows "bs_num_written s' = bs_num_written s + of_nat (length ins)
       \<and> bs_num_read s' = bs_num_read s + of_nat (length outs)"
  using assms
proof (induction ops arbitrary: s s' ins outs)
  case Nil
  then show ?case by simp
next
  case (Cons x ops)
  show ?case
  proof (cases x)
    case (Put d)
    obtain s1 n where p: "ByteStream_write s d = (s1, n)" by fastforce
    have "bs_num_written s1 = bs_num_written s + of_nat (length (take (unat n) d))
       \<and> bs_num_read s1 = bs_num_read s"
      using p Cons.prems(1)
      by (cases "bs_input_ended s")
        (auto simp: ByteStream_write_ended ByteStream_write_open ByteStream_room_unat)
    moreover have "ByteStream_inv s1"
      using p ByteStream_write_inv [OF Cons.prems(1), of d] by simp
    ultimately show ?thesis
      using Cons.IH [of s1] Cons.prems(2) p Put
      by (auto split: prod.splits simp: Let_def)
  next
    case (Get k)
    obtain s1 d where g: "ByteStream_read s k = (s1, d)" by fastforce
    have "bs_num_written s1 = bs_num_written s
       \<and> bs_num_read s1 = bs_num_read s + of_nat (length d)"
      using g Cons.prems(1) by (auto simp: ByteStream_read_eq ByteStream_avail_def)
    moreover have "ByteStream_inv s1"
      using g ByteStream_read_inv [OF Cons.prems(1), of k] by simp
    ultimately show ?thesis
      using Cons.IH [of s1] Cons.prems(2) g Get
      by (auto split: prod.splits simp: Let_def)
  next
    case (Control c)
    then show ?thesis
      using Cons.IH [of "ByteStream_control c s" s' ins outs] Cons.prems by simp
  qed
qed

section \<open>Properties\<close>

text \<open>
  C1. First in, first out: on every sequence of writes, reads, \<open>end_input\<close> and
  \<open>set_error\<close> calls from a fresh stream, the bytes delivered followed by the bytes still
  buffered are exactly the bytes accepted, in order, and the buffer never holds more than
  the capacity.
\<close>

theorem ByteStream_fifo:
  assumes "unat c < 2 ^ 31"
    and "ByteStream_run (ByteStream_new c) ops = (s, accepted, delivered)"
  shows "accepted = delivered @ bs_buffer s \<and> length (bs_buffer s) \<le> unat c"
proof -
  have new: "ByteStream_inv (ByteStream_new c)"
    using assms(1) by (rule ByteStream_inv_new)
  from bs_chan.run_fifo [OF new assms(2)] bs_chan.run_invar [OF new assms(2)]
  show ?thesis
    using bs_chan.contents_bound [of s] by (simp add: ByteStream_new_def)
qed

theorem ByteStream_fifo_witness:
  "fst (snd (ByteStream_run (ByteStream_new 3) [Put [1, 2, 3, 4], Get 2, Control End_input])) = [1, 2] @ [3]"
proof -
  have run: "ByteStream_run (ByteStream_new 3) [Put [1, 2, 3, 4], Get 2, Control End_input] =
      (\<lparr>bs_buffer = [3], bs_capacity = 3, bs_input_ended = True, bs_error = False,
        bs_num_written = 3, bs_num_read = 2\<rparr>, [1, 2, 3], [1, 2])"
    by code_simp
  show ?thesis
    unfolding run using ByteStream_fifo [OF _ run] by simp
qed

text \<open>
  C2. The counters count: after any run from a fresh stream \<open>bytes_written()\<close> and
  \<open>bytes_read()\<close> are the numbers of accepted and delivered bytes (modulo the width of
  \<open>size_t\<close>), and the reader sees \<open>eof()\<close> exactly when the input has ended and every
  accepted byte has been delivered.
\<close>

theorem ByteStream_accounting:
  assumes "unat c < 2 ^ 31"
    and "ByteStream_run (ByteStream_new c) ops = (s, accepted, delivered)"
  shows "ByteStream_bytes_written s = of_nat (length accepted)
       \<and> ByteStream_bytes_read s = of_nat (length delivered)
       \<and> (ByteStream_eof s \<longleftrightarrow> bs_input_ended s \<and> delivered = accepted)"
proof -
  have new: "ByteStream_inv (ByteStream_new c)"
    using assms(1) by (rule ByteStream_inv_new)
  have fifo: "accepted = delivered @ bs_buffer s"
    using bs_chan.run_fifo [OF new assms(2)] by (simp add: ByteStream_new_def)
  have "length (bs_buffer s) < 2 ^ 31"
    using bs_chan.run_invar [OF new assms(2)] bs_chan.contents_bound [of s]
    by (auto simp: ByteStream_inv_def)
  then have "list_size (bs_buffer s) = 0 \<longleftrightarrow> bs_buffer s = []"
    using unat_list_size [of "bs_buffer s"] by (auto simp: unat_eq_zero)
  then show ?thesis
    using ByteStream_run_counts [OF new assms(2)] fifo
    by (auto simp: ByteStream_new_def ByteStream_eof_def ByteStream_buffer_empty_def)
qed

theorem ByteStream_accounting_witness:
  "ByteStream_eof (fst (ByteStream_run (ByteStream_new 3) [Put [7, 8], Control End_input, Get 9]))"
proof -
  have run: "ByteStream_run (ByteStream_new 3) [Put [7, 8], Control End_input, Get 9] =
      (\<lparr>bs_buffer = [], bs_capacity = 3, bs_input_ended = True, bs_error = False,
        bs_num_written = 2, bs_num_read = 2\<rparr>, [7, 8], [7, 8])"
    by code_simp
  show ?thesis
    unfolding run using ByteStream_accounting [OF _ run] by simp
qed

text \<open>
  \<open>write\<close> on an open well-formed stream stores the longest prefix of the data that
  fits, leaves every other member alone, and returns its length.
\<close>

lemma ByteStream_write_accepts_prefix:
  assumes "ByteStream_inv bs" and "\<not> bs_input_ended bs" and "length data < 2 ^ 64"
    and "k = min (length data) (unat (ByteStream_remaining_capacity bs))"
  shows "ByteStream_write bs data =
     (bs\<lparr>bs_buffer := bs_buffer bs @ take k data, bs_num_written := bs_num_written bs + of_nat k\<rparr>,
      of_nat k)"
proof -
  have "k = ByteStream_room bs data"
    by (simp add: assms(4) ByteStream_room_def unat_list_size [OF assms(3)]
        remaining_capacity_unat [OF assms(1)])
  then show ?thesis
    using ByteStream_write_open [OF assms(1,2), of data] assms(4) by simp
qed

text \<open>
  C4. The narrowing of \<open>num_writable\<close> to \<open>int\<close> is visible on streams of at least
  \<open>2 ^ 31\<close> bytes: a write of exactly \<open>2 ^ 31\<close> bytes into an empty stream with room for
  them stores nothing and returns \<open>2 ^ 64 - 2 ^ 31\<close>.
\<close>

theorem ByteStream_write_narrowing:
  assumes "length data = 2 ^ 31" and "2 ^ 31 \<le> unat c"
  shows "ByteStream_write (ByteStream_new c) data = (ByteStream_new c, - (2 ^ 31))"
proof -
  have sz: "list_size data = 2 ^ 31"
    by (simp add: list_size_def assms(1))
  have "unat (2 ^ 31 :: size_t) \<le> unat c"
    using assms(2) by simp
  then have "(2 ^ 31 :: size_t) \<le> c"
    by (simp only: word_le_nat_alt)
  then have "min (list_size data) (ByteStream_remaining_capacity (ByteStream_new c)) = 2 ^ 31"
    unfolding sz by (simp add: ByteStream_remaining_capacity_def ByteStream_new_def min_def)
  then show ?thesis
    by (simp add: ByteStream_write_def int_of_size_def ByteStream_new_def Let_def)
qed

theorem ByteStream_write_narrowing_witness:
  "fst (ByteStream_write (ByteStream_new (2 ^ 32)) (replicate (2 ^ 31) 0)) = ByteStream_new (2 ^ 32)"
  using ByteStream_write_narrowing [of "replicate (2 ^ 31) 0" "2 ^ 32"] by (simp del: replicate.simps)

end
