(* ===== verification/TCP_Sender.thy ===== *)
theory TCP_Sender
  imports TCP_Segment Byte_Stream "HOL-Library.Sublist"
begin

text \<open>
  The sending half of a TCP endpoint: \<open>libsponge/tcp_sender.hh\<close> and \<open>tcp_sender.cc\<close>, with
  the constants of \<open>tcp_helpers/tcp_config.hh\<close>. The loop of \<open>fill_window\<close> is a recursive
  function with a termination proof; \<open>tick\<close> returns \<open>Undefined_behaviour\<close> where the code
  would take the front of an empty queue, and the invariant shows that it never does.
\<close>

section \<open>Configuration\<close>

definition DEFAULT_CAPACITY :: size_t where
  "DEFAULT_CAPACITY = 64000"

definition MAX_PAYLOAD_SIZE :: size_t where
  "MAX_PAYLOAD_SIZE = 1000"

definition TIMEOUT_DFLT :: u16 where
  "TIMEOUT_DFLT = 1000"

definition MAX_RETX_ATTEMPTS :: u32 where
  "MAX_RETX_ATTEMPTS = 8"

record TCPConfig =
  cfg_rt_timeout :: u16
  cfg_recv_capacity :: size_t
  cfg_send_capacity :: size_t
  cfg_fixed_isn :: "WrappingInt32 option"

definition TCPConfig_new :: TCPConfig where
  "TCPConfig_new =
     \<lparr>cfg_rt_timeout = TIMEOUT_DFLT, cfg_recv_capacity = DEFAULT_CAPACITY,
      cfg_send_capacity = DEFAULT_CAPACITY, cfg_fixed_isn = None\<rparr>"

section \<open>Timer\<close>

record Timer =
  tm_elapsed_time :: u32
  tm_if_run :: bool

definition Timer_new :: Timer where
  "Timer_new = \<lparr>tm_elapsed_time = 0, tm_if_run = False\<rparr>"

definition Timer_stop :: "Timer \<Rightarrow> Timer" where
  "Timer_stop t = t\<lparr>tm_if_run := False, tm_elapsed_time := 0\<rparr>"

definition Timer_start :: "Timer \<Rightarrow> Timer" where
  "Timer_start t = t\<lparr>tm_if_run := True, tm_elapsed_time := 0\<rparr>"

text \<open>The \<open>size_t\<close> increment is added to an \<open>unsigned int\<close> and truncated to it.\<close>

definition Timer_increment :: "size_t \<Rightarrow> Timer \<Rightarrow> Timer" where
  "Timer_increment ms_since_last_tick t =
     (if \<not> tm_if_run t then t
      else t\<lparr>tm_elapsed_time := ucast (ucast (tm_elapsed_time t) + ms_since_last_tick)\<rparr>)"

section \<open>Sender\<close>

record TCPSender =
  sn_isn :: WrappingInt32
  sn_segments_out :: "TCPSegment list"
  sn_initial_retransmission_timeout :: u32
  sn_stream :: ByteStream
  sn_next_seqno :: u64
  sn_outstanding_segments :: "TCPSegment list"
  sn_bytes_in_flight :: u64
  sn_is_syn_set :: bool
  sn_is_fin_set :: bool
  sn_consecutive_retransmissions :: u32
  sn_recent_abs_ackno :: u64
  sn_window_size :: u16
  sn_is_window_size_0 :: bool
  sn_RTO :: u32
  sn_timer :: Timer

text \<open>\<open>rand\<close> is the number that \<open>random_device\<close> delivers.\<close>

definition TCPSender_new :: "u32 \<Rightarrow> size_t \<Rightarrow> u16 \<Rightarrow> WrappingInt32 option \<Rightarrow> TCPSender" where
  "TCPSender_new rand capacity retx_timeout fixed_isn =
     \<lparr>sn_isn = (case fixed_isn of Some isn \<Rightarrow> isn | None \<Rightarrow> WrappingInt32 rand),
      sn_segments_out = [], sn_initial_retransmission_timeout = ucast retx_timeout,
      sn_stream = ByteStream_new capacity, sn_next_seqno = 0, sn_outstanding_segments = [],
      sn_bytes_in_flight = 0, sn_is_syn_set = False, sn_is_fin_set = False,
      sn_consecutive_retransmissions = 0, sn_recent_abs_ackno = 0, sn_window_size = 1,
      sn_is_window_size_0 = False, sn_RTO = ucast retx_timeout, sn_timer = Timer_new\<rparr>"

text \<open>The first half of the loop body of \<open>fill_window\<close>: the segment to send next.\<close>

definition TCPSender_make_segment :: "TCPSender \<Rightarrow> TCPSender \<times> TCPSegment" where
  "TCPSender_make_segment s =
     (let remaining_capacity = sn_recent_abs_ackno s + ucast (sn_window_size s) - sn_next_seqno s;
          read_size = min remaining_capacity MAX_PAYLOAD_SIZE;
          (stream, data) = ByteStream_read (sn_stream s) read_size;
          syn = (sn_next_seqno s = 0);
          segment = \<lparr>seg_header = TCPHeader_new\<lparr>th_seqno := wrap (sn_next_seqno s) (sn_isn s), th_syn := syn\<rparr>,
                     seg_payload = Buffer_of data\<rparr>;
          s = s\<lparr>sn_stream := stream, sn_is_syn_set := (syn \<or> sn_is_syn_set s)\<rparr>
      in if ByteStream_eof stream \<and> \<not> sn_is_fin_set s
            \<and> TCPSegment_length_in_sequence_space segment < remaining_capacity
         then (s\<lparr>sn_is_fin_set := True\<rparr>, segment\<lparr>seg_header := (seg_header segment)\<lparr>th_fin := True\<rparr>\<rparr>)
         else (s, segment))"

text \<open>The second half: the segment is queued, recorded as outstanding and the timer runs.\<close>

definition TCPSender_push_segment :: "TCPSegment \<Rightarrow> TCPSender \<Rightarrow> TCPSender" where
  "TCPSender_push_segment segment s =
     s\<lparr>sn_segments_out := sn_segments_out s @ [segment],
       sn_outstanding_segments := sn_outstanding_segments s @ [segment],
       sn_bytes_in_flight := sn_bytes_in_flight s + TCPSegment_length_in_sequence_space segment,
       sn_next_seqno := sn_next_seqno s + TCPSegment_length_in_sequence_space segment,
       sn_timer := (if \<not> tm_if_run (sn_timer s) then Timer_start (sn_timer s) else sn_timer s)\<rparr>"

lemma read_shrinks:
  assumes "ByteStream_read bs n = (bs', data)"
  shows "length (bs_buffer bs') + length data = length (bs_buffer bs)"
  using assms
  by (auto simp: ByteStream_read_def ByteStream_peek_output_def ByteStream_pop_output_def
      funpow_pop_front Let_def)

abbreviation sn_remaining :: "TCPSender \<Rightarrow> size_t" where
  "sn_remaining s \<equiv> sn_recent_abs_ackno s + ucast (sn_window_size s) - sn_next_seqno s"

text \<open>The segment that carries \<open>data\<close>, and whether it also carries the FIN.\<close>

definition sn_segment :: "TCPSender \<Rightarrow> bytes \<Rightarrow> bool \<Rightarrow> TCPSegment" where
  "sn_segment s data fin =
     \<lparr>seg_header = TCPHeader_new\<lparr>th_seqno := wrap (sn_next_seqno s) (sn_isn s),
        th_syn := (sn_next_seqno s = 0), th_fin := fin\<rparr>, seg_payload = Buffer_of data\<rparr>"

definition sn_sends_fin :: "TCPSender \<Rightarrow> ByteStream \<Rightarrow> bytes \<Rightarrow> bool" where
  "sn_sends_fin s bs data \<longleftrightarrow> ByteStream_eof bs \<and> \<not> sn_is_fin_set s
     \<and> TCPSegment_length_in_sequence_space (sn_segment s data False) < sn_remaining s"

lemma make_segment_eq:
  assumes "ByteStream_read (sn_stream s) (min (sn_remaining s) MAX_PAYLOAD_SIZE) = (bs, data)"
  shows "TCPSender_make_segment s =
     (s\<lparr>sn_stream := bs, sn_is_syn_set := (sn_next_seqno s = 0 \<or> sn_is_syn_set s),
        sn_is_fin_set := (sn_sends_fin s bs data \<or> sn_is_fin_set s)\<rparr>,
      sn_segment s data (sn_sends_fin s bs data))"
proof -
  have h: "TCPHeader_new\<lparr>th_seqno := n, th_syn := y, th_fin := False\<rparr> = TCPHeader_new\<lparr>th_seqno := n, th_syn := y\<rparr>" for n y
    by (simp add: TCPHeader_new_def)
  show ?thesis
    using assms by (auto simp: TCPSender_make_segment_def Let_def sn_sends_fin_def sn_segment_def h)
qed

lemma sn_segment_length:
  "TCPSegment_length_in_sequence_space (sn_segment s data fin) =
     list_size (Buffer_str (Buffer_of data)) + (if sn_next_seqno s = 0 then 1 else 0) + (if fin then 1 else 0)"
  by (simp add: TCPSegment_length_in_sequence_space_def sn_segment_def)

lemma make_segment_progress:
  assumes "TCPSender_make_segment s = (s', segment)" and "TCPSegment_length_in_sequence_space segment \<noteq> 0"
  defines "s'' \<equiv> TCPSender_push_segment segment s'"
  shows "length (bs_buffer (sn_stream s'')) < length (bs_buffer (sn_stream s))
    \<or> length (bs_buffer (sn_stream s'')) = length (bs_buffer (sn_stream s))
      \<and> (\<not> sn_is_fin_set s \<and> sn_is_fin_set s''
         \<or> sn_is_fin_set s'' = sn_is_fin_set s \<and> sn_next_seqno s = 0 \<and> sn_next_seqno s'' \<noteq> 0)"
proof -
  obtain bs data where rd: "ByteStream_read (sn_stream s) (min (sn_remaining s) MAX_PAYLOAD_SIZE) = (bs, data)"
    by fastforce
  let ?fin = "sn_sends_fin s bs data"
  have seg: "segment = sn_segment s data ?fin" and s': "sn_stream s' = bs" "sn_next_seqno s' = sn_next_seqno s"
      "sn_is_fin_set s' = (?fin \<or> sn_is_fin_set s)"
    using assms(1) unfolding make_segment_eq [OF rd] by auto
  have s'': "sn_stream s'' = bs" "sn_is_fin_set s'' = (?fin \<or> sn_is_fin_set s)"
      "sn_next_seqno s'' = sn_next_seqno s + TCPSegment_length_in_sequence_space segment"
    using s' by (simp_all add: s''_def TCPSender_push_segment_def)
  have fin: "?fin \<Longrightarrow> \<not> sn_is_fin_set s" by (simp add: sn_sends_fin_def)
  show ?thesis
  proof (cases "data = []")
    case True
    have "Buffer_str (Buffer_of ([] :: bytes)) = []" by (simp add: Buffer_str_of)
    with True assms(2) fin s'' read_shrinks [OF rd] show ?thesis
      by (cases ?fin; cases "sn_next_seqno s = 0") (simp_all add: seg sn_segment_length)
  next
    case False
    with read_shrinks [OF rd] s'' show ?thesis by (cases data) auto
  qed
qed

function TCPSender_fill_window :: "TCPSender \<Rightarrow> TCPSender" where
  "TCPSender_fill_window s =
     (if \<not> sn_is_syn_set s \<or> sn_next_seqno s < sn_recent_abs_ackno s + ucast (sn_window_size s)
      then
        let (s', segment) = TCPSender_make_segment s
        in if TCPSegment_length_in_sequence_space segment = 0 then s'
           else TCPSender_fill_window (TCPSender_push_segment segment s')
      else s)"
  by auto
termination
proof (relation "measures [\<lambda>s. length (bs_buffer (sn_stream s)), \<lambda>s. of_bool (\<not> sn_is_fin_set s),
    \<lambda>s. of_bool (sn_next_seqno s = 0)]", goal_cases)
  case (2 s p s' segment)
  then have "TCPSender_make_segment s = (s', segment)" by simp
  from make_segment_progress [OF this 2(4)] show ?case by auto
qed simp

declare TCPSender_fill_window.simps [simp del]

text \<open>One round of the loop of \<open>ack_received\<close> on the front of the queue: pop it if it is fully acknowledged.\<close>

fun TCPSender_pop_acked :: "u64 \<Rightarrow> TCPSegment list \<Rightarrow> TCPSender \<Rightarrow> TCPSender" where
  "TCPSender_pop_acked abs_ackno [] s = s\<lparr>sn_outstanding_segments := []\<rparr>"
| "TCPSender_pop_acked abs_ackno (segment # rest) s =
     (let abs_seqno = unwrap (th_seqno (seg_header segment)) (sn_isn s) (sn_recent_abs_ackno s)
      in if abs_ackno < abs_seqno + TCPSegment_length_in_sequence_space segment
            \<or> sn_next_seqno s < abs_ackno
         then s\<lparr>sn_outstanding_segments := segment # rest\<rparr>
         else TCPSender_pop_acked abs_ackno rest
                (s\<lparr>sn_bytes_in_flight := sn_bytes_in_flight s - TCPSegment_length_in_sequence_space segment,
                   sn_RTO := sn_initial_retransmission_timeout s,
                   sn_consecutive_retransmissions := 0,
                   sn_timer := Timer_start (sn_timer s)\<rparr>))"

definition TCPSender_ack_received :: "TCPSender \<Rightarrow> WrappingInt32 \<Rightarrow> u16 \<Rightarrow> TCPSender" where
  "TCPSender_ack_received s ackno window_size =
     (let s = (if window_size = 0 then s\<lparr>sn_window_size := 1, sn_is_window_size_0 := True\<rparr>
               else s\<lparr>sn_window_size := window_size\<rparr>);
          abs_ackno = unwrap ackno (sn_isn s) (sn_recent_abs_ackno s);
          s = TCPSender_pop_acked abs_ackno (sn_outstanding_segments s) s;
          s = s\<lparr>sn_recent_abs_ackno := abs_ackno\<rparr>
      in if sn_outstanding_segments s = [] then s\<lparr>sn_timer := Timer_stop (sn_timer s)\<rparr> else s)"

definition TCPSender_tick :: "TCPSender \<Rightarrow> size_t \<Rightarrow> TCPSender result" where
  "TCPSender_tick s ms_since_last_tick =
     (if \<not> tm_if_run (sn_timer s) then Inr s
      else
        let s = s\<lparr>sn_timer := Timer_increment ms_since_last_tick (sn_timer s)\<rparr>
        in if sn_RTO s \<le> tm_elapsed_time (sn_timer s) then
             (case sn_outstanding_segments s of
                [] \<Rightarrow> Inl Undefined_behaviour
              | earliest_segment # _ \<Rightarrow>
                  let s = s\<lparr>sn_segments_out := sn_segments_out s @ [earliest_segment]\<rparr>;
                      s = (if \<not> sn_is_window_size_0 s
                           then s\<lparr>sn_consecutive_retransmissions := sn_consecutive_retransmissions s + 1,
                                  sn_RTO := sn_RTO s * 2\<rparr>
                           else s)
                  in Inr (s\<lparr>sn_timer := Timer_start (sn_timer s)\<rparr>))
           else Inr s)"

definition TCPSender_send_empty_segment :: "TCPSender \<Rightarrow> TCPSender" where
  "TCPSender_send_empty_segment s =
     s\<lparr>sn_segments_out := sn_segments_out s @
         [\<lparr>seg_header = TCPHeader_new\<lparr>th_seqno := wrap (sn_next_seqno s) (sn_isn s)\<rparr>,
           seg_payload = Buffer_new\<rparr>]\<rparr>"

definition TCPSender_next_seqno :: "TCPSender \<Rightarrow> WrappingInt32" where
  "TCPSender_next_seqno s = wrap (sn_next_seqno s) (sn_isn s)"

definition TCPSender_is_fin_acked :: "TCPSender \<Rightarrow> bool" where
  "TCPSender_is_fin_acked s \<longleftrightarrow> sn_is_fin_set s \<and> sn_next_seqno s = sn_recent_abs_ackno s"

text \<open>
  \<open>bytes_in_flight()\<close>, \<open>consecutive_retransmissions()\<close>, \<open>next_seqno_absolute()\<close>,
  \<open>is_syn_sent()\<close>, \<open>is_fin_sent()\<close>, \<open>stream_in()\<close> and \<open>segments_out()\<close> return members.
\<close>

section \<open>What a sender of the stream \<open>W\<close> has in flight\<close>

text \<open>
  \<open>carries W fs isn a seg\<close>: the segment starts at the absolute sequence number \<open>a\<close> and
  carries the bytes of \<open>W\<close> that belong there, the SYN if \<open>a\<close> is 0 and possibly the FIN;
  \<open>fs\<close> is whether the FIN has been sent.
\<close>

definition carries :: "bytes \<Rightarrow> bool \<Rightarrow> WrappingInt32 \<Rightarrow> nat \<Rightarrow> TCPSegment \<Rightarrow> bool" where
  "carries W fs isn a seg \<longleftrightarrow>
     th_seqno (seg_header seg) = wrap (of_nat a) isn
     \<and> (th_syn (seg_header seg) \<longleftrightarrow> a = 0)
     \<and> excerpt_at W (a - 1) (Buffer_str (seg_payload seg))
     \<and> length (Buffer_str (seg_payload seg)) \<le> 1000
     \<and> 0 < seq_length seg
     \<and> (th_fin (seg_header seg) \<longrightarrow> fs \<and> a - 1 + length (Buffer_str (seg_payload seg)) = length W)"

fun in_flight :: "bytes \<Rightarrow> bool \<Rightarrow> WrappingInt32 \<Rightarrow> nat \<Rightarrow> TCPSegment list \<Rightarrow> nat \<Rightarrow> bool" where
  "in_flight W fs isn a [] b \<longleftrightarrow> a = b"
| "in_flight W fs isn a (seg # segs) b \<longleftrightarrow>
     carries W fs isn a seg \<and> in_flight W fs isn (a + seq_length seg) segs b"

text \<open>A segment that may be queued for sending: one that carries data, or an empty one.\<close>

definition emitted :: "bytes \<Rightarrow> bool \<Rightarrow> WrappingInt32 \<Rightarrow> TCPSegment \<Rightarrow> bool" where
  "emitted W fs isn seg \<longleftrightarrow> seq_length seg = 0 \<or> (\<exists>a\<le>length W + 1. carries W fs isn a seg)"

abbreviation sn_base :: "TCPSender \<Rightarrow> nat" where
  "sn_base s \<equiv> unat (sn_next_seqno s) - unat (sn_bytes_in_flight s)"

definition TCPSender_inv :: "bytes \<Rightarrow> TCPSender \<Rightarrow> bool" where
  "TCPSender_inv W s \<longleftrightarrow>
     ByteStream_inv (sn_stream s) \<and> length W + 2 ^ 32 \<le> 2 ^ 64
     \<and> (\<exists>k\<le>length W. bs_buffer (sn_stream s) = drop k W
          \<and> unat (sn_next_seqno s) = (if sn_is_syn_set s then k + 1 + of_bool (sn_is_fin_set s) else 0)
          \<and> (\<not> sn_is_syn_set s \<longrightarrow> k = 0 \<and> \<not> sn_is_fin_set s)
          \<and> (sn_is_fin_set s \<longrightarrow> k = length W \<and> bs_input_ended (sn_stream s)))
     \<and> unat (sn_bytes_in_flight s) \<le> unat (sn_next_seqno s)
     \<and> in_flight W (sn_is_fin_set s) (sn_isn s) (sn_base s) (sn_outstanding_segments s) (unat (sn_next_seqno s))
     \<and> (tm_if_run (sn_timer s) \<longleftrightarrow> sn_outstanding_segments s \<noteq> [])
     \<and> list_all (emitted W (sn_is_fin_set s) (sn_isn s)) (sn_segments_out s)"

lemma TCPSender_invI:
  assumes "ByteStream_inv (sn_stream s)" "length W + 2 ^ 32 \<le> 2 ^ 64" "k \<le> length W"
    "bs_buffer (sn_stream s) = drop k W"
    "unat (sn_next_seqno s) = (if sn_is_syn_set s then k + 1 + of_bool (sn_is_fin_set s) else 0)"
    "\<not> sn_is_syn_set s \<longrightarrow> k = 0 \<and> \<not> sn_is_fin_set s"
    "sn_is_fin_set s \<longrightarrow> k = length W \<and> bs_input_ended (sn_stream s)"
    "unat (sn_bytes_in_flight s) \<le> unat (sn_next_seqno s)"
    "in_flight W (sn_is_fin_set s) (sn_isn s) (sn_base s) (sn_outstanding_segments s) (unat (sn_next_seqno s))"
    "tm_if_run (sn_timer s) \<longleftrightarrow> sn_outstanding_segments s \<noteq> []"
    "list_all (emitted W (sn_is_fin_set s) (sn_isn s)) (sn_segments_out s)"
  shows "TCPSender_inv W s"
  unfolding TCPSender_inv_def using assms by blast

text \<open>The fields the invariant depends on; the others may change freely.\<close>

lemma TCPSender_inv_frame:
  assumes "TCPSender_inv W s"
    and "sn_stream s' = sn_stream s" "sn_next_seqno s' = sn_next_seqno s" "sn_is_syn_set s' = sn_is_syn_set s"
      "sn_is_fin_set s' = sn_is_fin_set s" "sn_isn s' = sn_isn s"
    and "unat (sn_bytes_in_flight s') \<le> unat (sn_next_seqno s)"
      "in_flight W (sn_is_fin_set s) (sn_isn s) (unat (sn_next_seqno s) - unat (sn_bytes_in_flight s'))
         (sn_outstanding_segments s') (unat (sn_next_seqno s))"
      "tm_if_run (sn_timer s') \<longleftrightarrow> sn_outstanding_segments s' \<noteq> []"
      "list_all (emitted W (sn_is_fin_set s) (sn_isn s)) (sn_segments_out s')"
  shows "TCPSender_inv W s'"
  using assms(1) unfolding TCPSender_inv_def assms(2-6) using assms(7-10) by (simp only: simp_thms)

lemma TCPSender_invD:
  assumes "TCPSender_inv W s"
  shows "ByteStream_inv (sn_stream s)" "length W + 2 ^ 32 \<le> 2 ^ 64"
    "unat (sn_bytes_in_flight s) \<le> unat (sn_next_seqno s)"
    "in_flight W (sn_is_fin_set s) (sn_isn s) (sn_base s) (sn_outstanding_segments s) (unat (sn_next_seqno s))"
    "tm_if_run (sn_timer s) \<longleftrightarrow> sn_outstanding_segments s \<noteq> []"
    "list_all (emitted W (sn_is_fin_set s) (sn_isn s)) (sn_segments_out s)"
  using assms by (simp_all add: TCPSender_inv_def)

lemma TCPSender_next_le:
  assumes "TCPSender_inv W s"
  shows "unat (sn_next_seqno s) \<le> length W + 2"
proof -
  obtain k where "k \<le> length W"
      "unat (sn_next_seqno s) = (if sn_is_syn_set s then k + 1 + of_bool (sn_is_fin_set s) else 0)"
    using assms unfolding TCPSender_inv_def by blast
  then show ?thesis by (auto simp: of_bool_def)
qed

lemma in_flight_append:
  "in_flight W fs isn a (xs @ ys) b \<longleftrightarrow> (\<exists>c. in_flight W fs isn a xs c \<and> in_flight W fs isn c ys b)"
  by (induction xs arbitrary: a) auto

lemma in_flight_sum: "in_flight W fs isn a segs b \<Longrightarrow> b = a + sum_list (map seq_length segs)"
  by (induction segs arbitrary: a) fastforce+

lemma carries_grow:
  assumes "carries W fs isn a seg" and "fs \<longrightarrow> W' = W" and "prefix W W'" and "fs \<longrightarrow> fs'"
  shows "carries W' fs' isn a seg"
proof -
  obtain zs where "W' = W @ zs" using assms(3) by (auto simp: prefix_def)
  then have "excerpt_at W k d \<Longrightarrow> excerpt_at W' k d" for k d
    by (auto simp: excerpt_at_def)
  then show ?thesis using assms by (auto simp: carries_def)
qed

lemma in_flight_grow:
  "in_flight W fs isn a segs b \<Longrightarrow> fs \<longrightarrow> W' = W \<Longrightarrow> prefix W W' \<Longrightarrow> fs \<longrightarrow> fs' \<Longrightarrow>
   in_flight W' fs' isn a segs b"
  by (induction segs arbitrary: a) (auto intro: carries_grow)

lemma emitted_grow:
  "emitted W fs isn seg \<Longrightarrow> fs \<longrightarrow> W' = W \<Longrightarrow> prefix W W' \<Longrightarrow> fs \<longrightarrow> fs' \<Longrightarrow> emitted W' fs' isn seg"
  using carries_grow [of W fs isn _ seg W' fs'] prefix_length_le [of W W']
  by (auto simp: emitted_def intro: le_trans)

lemma list_all_emitted_grow:
  "list_all (emitted W fs isn) segs \<Longrightarrow> fs \<longrightarrow> W' = W \<Longrightarrow> prefix W W' \<Longrightarrow> fs \<longrightarrow> fs' \<Longrightarrow>
   list_all (emitted W' fs' isn) segs"
  by (auto simp: list_all_iff intro: emitted_grow)

section \<open>Filling the window keeps the invariant\<close>

lemma MAX_PAYLOAD_unat: "unat (min n MAX_PAYLOAD_SIZE) \<le> 1000"
  by (simp add: min_unat MAX_PAYLOAD_SIZE_def)

lemma sn_segment_seq_length:
  assumes "length data \<le> 1000"
  shows "seq_length (sn_segment s data fin) = length data + of_bool (sn_next_seqno s = 0) + of_bool fin"
    and "TCPSegment_length_in_sequence_space (sn_segment s data fin) = of_nat (seq_length (sn_segment s data fin))"
    and "unat (TCPSegment_length_in_sequence_space (sn_segment s data fin)) = seq_length (sn_segment s data fin)"
proof -
  have d: "Buffer_str (Buffer_of data) = data" using assms by (simp add: Buffer_str_of)
  show sl: "seq_length (sn_segment s data fin) = length data + of_bool (sn_next_seqno s = 0) + of_bool fin"
    by (simp add: seq_length_def sn_segment_def d)
  show eq: "TCPSegment_length_in_sequence_space (sn_segment s data fin) = of_nat (seq_length (sn_segment s data fin))"
    using assms d by (intro seq_length_unat) (simp add: sn_segment_def)
  have "seq_length (sn_segment s data fin) < 2 ^ 64" using assms by (simp add: sl)
  then show "unat (TCPSegment_length_in_sequence_space (sn_segment s data fin)) = seq_length (sn_segment s data fin)"
    unfolding eq by (simp add: unat_of_nat take_bit_nat_eq_self)
qed

text \<open>One round of the loop: what is read, whether the FIN goes with it, and the next state.\<close>

lemma make_segment_read:
  assumes inv: "TCPSender_inv W s"
    and rd: "ByteStream_read (sn_stream s) (min (sn_remaining s) MAX_PAYLOAD_SIZE) = (bs, data)"
  obtains k where "k \<le> length W" "bs_buffer (sn_stream s) = drop k W" "data = take (length data) (drop k W)"
    "k + length data \<le> length W" "bs_buffer bs = drop (k + length data) W" "length data \<le> 1000"
    "length data \<le> unat (sn_remaining s)" "bs_input_ended bs = bs_input_ended (sn_stream s)" "ByteStream_inv bs"
    "length data = min (unat (min (sn_remaining s) MAX_PAYLOAD_SIZE)) (length W - k)"
    "unat (sn_next_seqno s) = (if sn_is_syn_set s then k + 1 + of_bool (sn_is_fin_set s) else 0)"
    "\<not> sn_is_syn_set s \<longrightarrow> k = 0 \<and> \<not> sn_is_fin_set s"
    "sn_is_fin_set s \<longrightarrow> k = length W \<and> bs_input_ended (sn_stream s)"
proof -
  let ?n = "min (sn_remaining s) MAX_PAYLOAD_SIZE"
  have bsi: "ByteStream_inv (sn_stream s)" using inv by (simp add: TCPSender_inv_def)
  obtain k where k: "k \<le> length W" "bs_buffer (sn_stream s) = drop k W"
      "unat (sn_next_seqno s) = (if sn_is_syn_set s then k + 1 + of_bool (sn_is_fin_set s) else 0)"
      "\<not> sn_is_syn_set s \<longrightarrow> k = 0 \<and> \<not> sn_is_fin_set s"
      "sn_is_fin_set s \<longrightarrow> k = length W \<and> bs_input_ended (sn_stream s)"
    using inv by (auto simp: TCPSender_inv_def)
  let ?m = "ByteStream_avail (sn_stream s) ?n"
  have eq: "bs = (sn_stream s)\<lparr>bs_buffer := drop ?m (bs_buffer (sn_stream s)),
         bs_num_read := bs_num_read (sn_stream s) + of_nat ?m\<rparr>" "data = take ?m (bs_buffer (sn_stream s))"
    using rd unfolding ByteStream_read_eq [OF bsi] by simp_all
  have m: "length data = ?m" "?m = min (unat ?n) (length W - k)"
    using k(2) by (simp_all add: eq(2) ByteStream_avail_def)
  have le: "length data \<le> 1000" "length data \<le> unat (sn_remaining s)" "k + length data \<le> length W"
    using m k(1) MAX_PAYLOAD_unat [of "sn_remaining s"] min_unat [of "sn_remaining s" MAX_PAYLOAD_SIZE]
    by linarith+
  have bs: "bs_buffer bs = drop (k + length data) W" "bs_input_ended bs = bs_input_ended (sn_stream s)"
    unfolding m(1) eq(1) by (simp_all add: k(2) add.commute)
  have d: "data = take (length data) (drop k W)"
    unfolding m(1) by (simp add: eq(2) k(2))
  have "ByteStream_inv bs" using ByteStream_read_inv [OF bsi, of ?n] rd by simp
  then show ?thesis
    using that [OF k(1,2) d le(3) bs(1) le(1,2) bs(2) _ _ k(3-5)] m by simp
qed

lemma read_nothing:
  assumes "ByteStream_inv bs" and "ByteStream_read bs n = (bs', [])"
  shows "bs' = bs"
  using assms unfolding ByteStream_read_eq [OF assms(1)] by (auto simp: ByteStream_avail_def)

lemma sn_segment_carries:
  assumes "unat (sn_next_seqno s) = (if sn_next_seqno s = 0 then 0 else k + 1)" "sn_next_seqno s = 0 \<longrightarrow> k = 0"
    and "k + length data \<le> length W" "data = take (length data) (drop k W)" "length data \<le> 1000"
    and "fin \<longrightarrow> k + length data = length W" "seq_length (sn_segment s data fin) \<noteq> 0"
  shows "carries W fin (sn_isn s) (unat (sn_next_seqno s)) (sn_segment s data fin)"
proof -
  have p: "Buffer_str (seg_payload (sn_segment s data fin)) = data"
    using assms(5) by (simp add: sn_segment_def Buffer_str_of)
  have h: "th_seqno (seg_header (sn_segment s data fin)) = wrap (sn_next_seqno s) (sn_isn s)"
      "th_syn (seg_header (sn_segment s data fin)) = (sn_next_seqno s = 0)"
      "th_fin (seg_header (sn_segment s data fin)) = fin"
    by (simp_all add: sn_segment_def)
  have k: "unat (sn_next_seqno s) - 1 = k" using assms(1,2) by auto
  have "excerpt_at W k data" using assms(3,4) by (simp add: excerpt_at_def)
  then show ?thesis
    unfolding carries_def p h k using assms(5,6,7) by (auto simp: unat_eq_zero)
qed

lemma make_segment_inv:
  assumes inv: "TCPSender_inv W s" and mk: "TCPSender_make_segment s = (s', segment)"
  shows "TCPSegment_length_in_sequence_space segment = 0 \<Longrightarrow> s' = s"
    and "TCPSegment_length_in_sequence_space segment \<noteq> 0 \<Longrightarrow> TCPSender_inv W (TCPSender_push_segment segment s')"
proof -
  obtain bs data where rd: "ByteStream_read (sn_stream s) (min (sn_remaining s) MAX_PAYLOAD_SIZE) = (bs, data)"
    by fastforce
  obtain k where k: "k \<le> length W" "bs_buffer (sn_stream s) = drop k W" "data = take (length data) (drop k W)"
    "k + length data \<le> length W" "bs_buffer bs = drop (k + length data) W" "length data \<le> 1000"
    "bs_input_ended bs = bs_input_ended (sn_stream s)" "ByteStream_inv bs"
    "unat (sn_next_seqno s) = (if sn_is_syn_set s then k + 1 + of_bool (sn_is_fin_set s) else 0)"
    "\<not> sn_is_syn_set s \<longrightarrow> k = 0 \<and> \<not> sn_is_fin_set s"
    "sn_is_fin_set s \<longrightarrow> k = length W \<and> bs_input_ended (sn_stream s)"
    by (rule make_segment_read [OF inv rd]) blast
  let ?fin = "sn_sends_fin s bs data"
  have eq: "segment = sn_segment s data ?fin"
    "s' = s\<lparr>sn_stream := bs, sn_is_syn_set := (sn_next_seqno s = 0 \<or> sn_is_syn_set s),
        sn_is_fin_set := (?fin \<or> sn_is_fin_set s)\<rparr>"
    using mk unfolding make_segment_eq [OF rd] by auto
  note len = sn_segment_seq_length [OF k(6), of s ?fin]
  have next0: "sn_next_seqno s = 0 \<longleftrightarrow> \<not> sn_is_syn_set s"
    using k(9) by (auto simp: unat_eq_zero [symmetric])
  have bsi: "ByteStream_inv (sn_stream s)" and W: "length W + 2 ^ 32 \<le> 2 ^ 64"
    using inv by (simp_all add: TCPSender_inv_def)
  show "s' = s" if "TCPSegment_length_in_sequence_space segment = 0"
  proof -
    from that have "seq_length (sn_segment s data ?fin) = 0" using len(3) eq(1) by simp
    then have "data = []" "sn_next_seqno s \<noteq> 0" "\<not> ?fin" unfolding len(1) by (auto split: if_splits)
    with read_nothing [OF bsi] rd next0 show ?thesis by (simp add: eq(2))
  qed
  show "TCPSender_inv W (TCPSender_push_segment segment s')" if "TCPSegment_length_in_sequence_space segment \<noteq> 0"
  proof -
    let ?l = "seq_length segment" and ?a = "unat (sn_next_seqno s)"
    have l: "?l \<noteq> 0"
    proof
      assume "?l = 0"
      then have "TCPSegment_length_in_sequence_space segment = of_nat 0" using len(2) eq(1) by simp
      with that show False by simp
    qed
    have lb: "?l \<le> 1002" unfolding eq(1) len(1) using k(6) by (auto simp: of_bool_def)
    have nf: "\<not> sn_is_fin_set s"
      using l k(4,10,11) next0 unfolding eq(1) len(1) by (auto simp: sn_sends_fin_def)
    then have a: "?a = (if sn_next_seqno s = 0 then 0 else k + 1)" using k(9) next0 by simp
    have fin: "?fin \<longrightarrow> k + length data = length W"
    proof
      assume ?fin
      then have "ByteStream_eof bs" by (simp add: sn_sends_fin_def)
      then have "bs_buffer bs = []"
        using k(8) by (auto simp: ByteStream_eof_def ByteStream_buffer_empty_def ByteStream_inv_def
            unat_list_size unat_eq_zero [symmetric])
      with k(4,5) show "k + length data = length W" by simp
    qed
    have car: "carries W ?fin (sn_isn s) ?a segment"
      unfolding eq(1) using k a fin l next0 eq(1) by (intro sn_segment_carries) auto
    have fl: "in_flight W False (sn_isn s) (sn_base s) (sn_outstanding_segments s) ?a"
      "unat (sn_bytes_in_flight s) \<le> ?a" "list_all (emitted W False (sn_isn s)) (sn_segments_out s)"
      using inv nf by (simp_all add: TCPSender_inv_def)
    have "?a + ?l < 2 ^ 64" using a k(1) lb W by (simp split: if_splits)
    then have un: "unat (sn_next_seqno s + of_nat ?l) = ?a + ?l"
        "unat (sn_bytes_in_flight s + of_nat ?l) = unat (sn_bytes_in_flight s) + ?l"
      using fl(2) by (simp_all add: unat_word_ariths unat_of_nat take_bit_nat_eq_self)
    have 1: "in_flight W ?fin (sn_isn s) (sn_base s) (sn_outstanding_segments s @ [segment]) (?a + ?l)"
      using in_flight_grow [OF fl(1), of W ?fin] car by (auto simp: in_flight_append)
    have 2: "list_all (emitted W ?fin (sn_isn s)) (sn_segments_out s @ [segment])"
      using list_all_emitted_grow [OF fl(3), of W ?fin] car a k(1) by (auto simp: emitted_def)
    have 3: "?a + ?l = k + length data + 1 + of_bool ?fin"
      using a k(10) next0 unfolding eq(1) len(1) by auto
    have 4: "?fin \<longrightarrow> bs_input_ended bs" by (simp add: sn_sends_fin_def ByteStream_eof_def)
    let ?s = "TCPSender_push_segment segment s'"
    have s: "sn_stream ?s = bs" "sn_is_syn_set ?s" "sn_is_fin_set ?s = ?fin" "sn_isn ?s = sn_isn s"
        "unat (sn_next_seqno ?s) = ?a + ?l" "unat (sn_bytes_in_flight ?s) = unat (sn_bytes_in_flight s) + ?l"
        "sn_outstanding_segments ?s = sn_outstanding_segments s @ [segment]"
        "sn_segments_out ?s = sn_segments_out s @ [segment]" "tm_if_run (sn_timer ?s)"
      using nf next0 un by (auto simp: TCPSender_push_segment_def eq(2) len(2) [folded eq(1)] Timer_start_def)
    have base: "?a + ?l - (unat (sn_bytes_in_flight s) + ?l) = sn_base s" by simp
    show ?thesis
      unfolding TCPSender_inv_def s base using s(2,9) 1 2 3 4 k(4,5,8) W fin fl(2) by auto
  qed
qed

text \<open>The induction rule of the loop: what holds at the start and is kept by every round.\<close>

abbreviation sn_window_open :: "TCPSender \<Rightarrow> bool" where
  "sn_window_open s \<equiv> \<not> sn_is_syn_set s \<or> sn_next_seqno s < sn_recent_abs_ackno s + ucast (sn_window_size s)"

lemma fill_window_rule:
  assumes "P s"
    and "\<And>s s' segment. P s \<Longrightarrow> sn_window_open s \<Longrightarrow> TCPSender_make_segment s = (s', segment) \<Longrightarrow>
       TCPSegment_length_in_sequence_space segment \<noteq> 0 \<Longrightarrow> P (TCPSender_push_segment segment s')"
    and "\<And>s s' segment. P s \<Longrightarrow> sn_window_open s \<Longrightarrow> TCPSender_make_segment s = (s', segment) \<Longrightarrow>
       TCPSegment_length_in_sequence_space segment = 0 \<Longrightarrow> P s'"
  shows "P (TCPSender_fill_window s)"
  using assms(1)
proof (induction s rule: TCPSender_fill_window.induct)
  case (1 s)
  obtain s' segment where mk: "TCPSender_make_segment s = (s', segment)" by fastforce
  show ?case
    using 1 mk assms(2,3) [OF 1(2) _ mk]
    by (subst TCPSender_fill_window.simps) (auto simp: Let_def)
qed

lemma fill_window_inv: "TCPSender_inv W s \<Longrightarrow> TCPSender_inv W (TCPSender_fill_window s)"
  by (rule fill_window_rule) (auto dest: make_segment_inv)

section \<open>Acknowledgments, time and the application keep the invariant\<close>

lemma carries_length:
  assumes "carries W fs isn a seg" and "length W + 2 ^ 32 \<le> 2 ^ 64"
  shows "TCPSegment_length_in_sequence_space seg = of_nat (seq_length seg)"
    and "unat (TCPSegment_length_in_sequence_space seg) = seq_length seg"
    and "0 < seq_length seg" and "seq_length seg \<le> 1002"
proof -
  have le: "length (Buffer_str (seg_payload seg)) \<le> 1000" using assms(1) by (simp add: carries_def)
  then show eq: "TCPSegment_length_in_sequence_space seg = of_nat (seq_length seg)"
    by (intro seq_length_unat) simp
  show "seq_length seg \<le> 1002" using le by (simp add: seq_length_def of_bool_def)
  then have "seq_length seg < 2 ^ 64" by simp
  then show "unat (TCPSegment_length_in_sequence_space seg) = seq_length seg"
    unfolding eq by (simp add: unat_of_nat take_bit_nat_eq_self)
  show "0 < seq_length seg" using assms(1) by (simp add: carries_def)
qed

text \<open>The loop of \<open>ack_received\<close> removes a prefix of the queue, whatever the numbers are.\<close>

lemma pop_acked_frame [simp]:
  "sn_next_seqno (TCPSender_pop_acked ack segs s) = sn_next_seqno s"
  "sn_isn (TCPSender_pop_acked ack segs s) = sn_isn s"
  "sn_stream (TCPSender_pop_acked ack segs s) = sn_stream s"
  "sn_is_syn_set (TCPSender_pop_acked ack segs s) = sn_is_syn_set s"
  "sn_is_fin_set (TCPSender_pop_acked ack segs s) = sn_is_fin_set s"
  "sn_segments_out (TCPSender_pop_acked ack segs s) = sn_segments_out s"
  "sn_window_size (TCPSender_pop_acked ack segs s) = sn_window_size s"
  "sn_is_window_size_0 (TCPSender_pop_acked ack segs s) = sn_is_window_size_0 s"
  "sn_recent_abs_ackno (TCPSender_pop_acked ack segs s) = sn_recent_abs_ackno s"
  "sn_initial_retransmission_timeout (TCPSender_pop_acked ack segs s) = sn_initial_retransmission_timeout s"
  by (induction ack segs s rule: TCPSender_pop_acked.induct) (simp_all add: Let_def)

lemma pop_acked_inv:
  fixes ack :: u64
  assumes "in_flight W fs isn (sn_base s) segs (unat (sn_next_seqno s))"
    and "unat (sn_bytes_in_flight s) \<le> unat (sn_next_seqno s)" and "length W + 2 ^ 32 \<le> 2 ^ 64"
  defines "s' \<equiv> TCPSender_pop_acked ack segs s"
  shows "\<exists>n\<le>length segs. sn_outstanding_segments s' = drop n segs
      \<and> unat (sn_bytes_in_flight s') \<le> unat (sn_next_seqno s)
      \<and> in_flight W fs isn (sn_base s') (drop n segs) (unat (sn_next_seqno s))
      \<and> (tm_if_run (sn_timer s') \<longleftrightarrow> n \<noteq> 0 \<or> tm_if_run (sn_timer s))"
  using assms(1,2) unfolding s'_def
proof (induction segs arbitrary: s)
  case Nil
  then show ?case by (simp add: exI [of _ 0])
next
  case (Cons seg segs)
  let ?l = "seq_length seg" and ?nx = "unat (sn_next_seqno s)" and ?b = "unat (sn_bytes_in_flight s)"
  have car: "carries W fs isn (?nx - ?b) seg" and rest: "in_flight W fs isn (?nx - ?b + ?l) segs ?nx"
    using Cons.prems(1) by simp_all
  note len = carries_length [OF car assms(3)]
  have lb: "?l \<le> ?b" using in_flight_sum [OF rest] Cons.prems(2) by linarith
  define s1 where "s1 = s\<lparr>sn_bytes_in_flight := sn_bytes_in_flight s - TCPSegment_length_in_sequence_space seg,
      sn_RTO := sn_initial_retransmission_timeout s, sn_consecutive_retransmissions := 0,
      sn_timer := Timer_start (sn_timer s)\<rparr>"
  have s1: "unat (sn_bytes_in_flight s1) = ?b - ?l" "sn_next_seqno s1 = sn_next_seqno s" "tm_if_run (sn_timer s1)"
    using lb len(2) by (simp_all add: s1_def unat_le_diff word_le_nat_alt Timer_start_def)
  show ?case
  proof (cases "ack < unwrap (th_seqno (seg_header seg)) (sn_isn s) (sn_recent_abs_ackno s)
      + TCPSegment_length_in_sequence_space seg \<or> sn_next_seqno s < ack")
    case True
    then have "TCPSender_pop_acked ack (seg # segs) s = s\<lparr>sn_outstanding_segments := seg # segs\<rparr>"
      by (simp add: Let_def)
    with Cons.prems show ?thesis by (intro exI [of _ 0]) simp
  next
    case False
    then have eq: "TCPSender_pop_acked ack (seg # segs) s = TCPSender_pop_acked ack segs s1"
      by (simp add: Let_def s1_def)
    have "?nx - ?b + ?l = sn_base s1" using s1 lb Cons.prems(2) by simp
    then have 1: "in_flight W fs isn (sn_base s1) segs (unat (sn_next_seqno s1))" using rest s1(2) by simp
    have 2: "unat (sn_bytes_in_flight s1) \<le> unat (sn_next_seqno s1)" using s1 Cons.prems(2) by simp
    from Cons.IH [OF 1 2]
    obtain n where "n \<le> length segs" "sn_outstanding_segments (TCPSender_pop_acked ack segs s1) = drop n segs"
        "unat (sn_bytes_in_flight (TCPSender_pop_acked ack segs s1)) \<le> ?nx"
        "in_flight W fs isn (sn_base (TCPSender_pop_acked ack segs s1)) (drop n segs) ?nx"
        "tm_if_run (sn_timer (TCPSender_pop_acked ack segs s1))"
      unfolding s1(2) using s1(3) by blast
    then show ?thesis unfolding eq by (intro exI [of _ "Suc n"]) simp
  qed
qed

lemma ack_received_inv:
  assumes inv: "TCPSender_inv W s"
  shows "TCPSender_inv W (TCPSender_ack_received s ackno win)"
proof -
  define s1 where "s1 = (if win = 0 then s\<lparr>sn_window_size := 1, sn_is_window_size_0 := True\<rparr>
               else s\<lparr>sn_window_size := win\<rparr>)"
  define ack where "ack = unwrap ackno (sn_isn s1) (sn_recent_abs_ackno s1)"
  define s2 where "s2 = TCPSender_pop_acked ack (sn_outstanding_segments s1) s1"
  have inv1: "TCPSender_inv W s1"
    by (rule TCPSender_inv_frame [OF inv]) (use TCPSender_invD [OF inv] in \<open>simp_all add: s1_def\<close>)
  then obtain n where n: "n \<le> length (sn_outstanding_segments s1)"
      "sn_outstanding_segments s2 = drop n (sn_outstanding_segments s1)"
      "unat (sn_bytes_in_flight s2) \<le> unat (sn_next_seqno s1)"
      "in_flight W (sn_is_fin_set s1) (sn_isn s1) (sn_base s2) (drop n (sn_outstanding_segments s1)) (unat (sn_next_seqno s1))"
      "tm_if_run (sn_timer s2) \<longleftrightarrow> n \<noteq> 0 \<or> tm_if_run (sn_timer s1)"
    using pop_acked_inv [OF TCPSender_invD(4,3,2) [OF inv1], of ack] unfolding s2_def by blast
  have frame: "sn_next_seqno s2 = sn_next_seqno s1" "sn_isn s2 = sn_isn s1" "sn_stream s2 = sn_stream s1"
      "sn_is_syn_set s2 = sn_is_syn_set s1" "sn_is_fin_set s2 = sn_is_fin_set s1"
      "sn_segments_out s2 = sn_segments_out s1"
    by (simp_all add: s2_def)
  have run: "drop n (sn_outstanding_segments s1) \<noteq> [] \<longrightarrow> tm_if_run (sn_timer s2)"
    using TCPSender_invD(5) [OF inv1] n(5) by auto
  have eq: "TCPSender_ack_received s ackno win =
      s2\<lparr>sn_recent_abs_ackno := ack,
         sn_timer := if sn_outstanding_segments s2 = [] then Timer_stop (sn_timer s2) else sn_timer s2\<rparr>"
    by (simp add: TCPSender_ack_received_def Let_def s1_def [symmetric] ack_def [symmetric] s2_def [symmetric])
  show ?thesis
    unfolding eq by (rule TCPSender_inv_frame [OF inv1])
      (use n run TCPSender_invD(6) [OF inv1] frame in \<open>simp_all add: Timer_stop_def\<close>)
qed

lemma tick_inv:
  assumes inv: "TCPSender_inv W s"
  shows "\<exists>s'. TCPSender_tick s ms = Inr s' \<and> TCPSender_inv W s'"
proof -
  have run: "tm_if_run (sn_timer s) \<longleftrightarrow> sn_outstanding_segments s \<noteq> []" using inv by (simp add: TCPSender_inv_def)
  show ?thesis
  proof (cases "sn_outstanding_segments s")
    case Nil
    with run inv show ?thesis by (simp add: TCPSender_tick_def)
  next
    case (Cons seg segs)
    have "carries W (sn_is_fin_set s) (sn_isn s) (sn_base s) seg"
      "in_flight W (sn_is_fin_set s) (sn_isn s) (sn_base s + seq_length seg) segs (unat (sn_next_seqno s))"
      using TCPSender_invD(4) [OF inv] Cons by simp_all
    moreover from this(2) have "sn_base s + seq_length seg \<le> unat (sn_next_seqno s)"
      using in_flight_sum by fastforce
    moreover have "unat (sn_next_seqno s) \<le> length W + 2" by (rule TCPSender_next_le [OF inv])
    moreover have "0 < seq_length seg" using calculation(1) by (simp add: carries_def)
    ultimately have "emitted W (sn_is_fin_set s) (sn_isn s) seg"
      unfolding emitted_def by (intro disjI2 exI [of _ "sn_base s"]) linarith
    moreover have "\<exists>s'. TCPSender_tick s ms = Inr s' \<and> sn_stream s' = sn_stream s \<and> sn_next_seqno s' = sn_next_seqno s
        \<and> sn_is_syn_set s' = sn_is_syn_set s \<and> sn_is_fin_set s' = sn_is_fin_set s \<and> sn_isn s' = sn_isn s
        \<and> sn_bytes_in_flight s' = sn_bytes_in_flight s \<and> sn_outstanding_segments s' = seg # segs
        \<and> tm_if_run (sn_timer s') \<and> sn_segments_out s' \<in> {sn_segments_out s, sn_segments_out s @ [seg]}"
      using Cons run by (simp add: TCPSender_tick_def Let_def Timer_increment_def Timer_start_def)
    ultimately show ?thesis
      using TCPSender_inv_frame [OF inv] TCPSender_invD [OF inv] Cons by fastforce
  qed
qed

lemma send_empty_inv:
  assumes inv: "TCPSender_inv W s"
  shows "TCPSender_inv W (TCPSender_send_empty_segment s)"
  by (rule TCPSender_inv_frame [OF inv]) (use TCPSender_invD [OF inv] in
      \<open>simp_all add: TCPSender_send_empty_segment_def emitted_def seq_length_def TCPHeader_new_def\<close>)

lemma write_inv:
  assumes inv: "TCPSender_inv W s" and wr: "ByteStream_write (sn_stream s) data = (bs, n)"
    and len: "length W + length data + 2 ^ 32 \<le> 2 ^ 64"
  shows "TCPSender_inv (W @ take (unat n) data) (s\<lparr>sn_stream := bs\<rparr>)"
    and "sn_is_fin_set s \<Longrightarrow> take (unat n) data = []"
proof -
  note d = TCPSender_invD [OF inv]
  obtain k where k: "k \<le> length W" "bs_buffer (sn_stream s) = drop k W"
          "unat (sn_next_seqno s) = (if sn_is_syn_set s then k + 1 + of_bool (sn_is_fin_set s) else 0)"
          "\<not> sn_is_syn_set s \<longrightarrow> k = 0 \<and> \<not> sn_is_fin_set s"
          "sn_is_fin_set s \<longrightarrow> k = length W \<and> bs_input_ended (sn_stream s)"
    using inv unfolding TCPSender_inv_def by blast
  have bsi: "ByteStream_inv bs" using ByteStream_write_inv [OF d(1), of data] wr by simp
  have b: "bs_buffer bs = bs_buffer (sn_stream s) @ take (unat n) data"
      "bs_input_ended bs = bs_input_ended (sn_stream s)" "bs_input_ended (sn_stream s) \<Longrightarrow> n = 0"
    using wr ByteStream_write_open [OF d(1), of data] ByteStream_room_unat [OF d(1), of data]
    by (cases "bs_input_ended (sn_stream s)"; auto simp: ByteStream_write_ended)+
  let ?W = "W @ take (unat n) data"
  have same: "sn_is_fin_set s \<longrightarrow> ?W = W" and pre: "prefix W ?W" using k(5) b(3) by auto
  then show "sn_is_fin_set s \<Longrightarrow> take (unat n) data = []" by simp
  have bd: "length ?W + 2 ^ 32 \<le> 2 ^ 64" using len by simp
  have "bs_buffer bs = drop k ?W" using b(1) k(1,2) by simp
  moreover have "k \<le> length ?W" using k(1) by simp
  moreover have "sn_is_fin_set s \<longrightarrow> k = length ?W" using k(5) same by (metis)
  moreover have "in_flight ?W (sn_is_fin_set s) (sn_isn s) (sn_base s) (sn_outstanding_segments s) (unat (sn_next_seqno s))"
    by (rule in_flight_grow [OF d(4) same pre]) simp
  moreover have "list_all (emitted ?W (sn_is_fin_set s) (sn_isn s)) (sn_segments_out s)"
    by (rule list_all_emitted_grow [OF d(6) same pre]) simp
  moreover have "sn_is_fin_set s \<longrightarrow> bs_input_ended bs" using k(5) b(2) by simp
  ultimately show "TCPSender_inv ?W (s\<lparr>sn_stream := bs\<rparr>)"
    using bsi bd d(3,5) k(3,4) by (intro TCPSender_invI [where k = k]) simp_all
qed

lemma end_input_inv:
  assumes inv: "TCPSender_inv W s"
  shows "TCPSender_inv W (s\<lparr>sn_stream := ByteStream_end_input (sn_stream s)\<rparr>)"
    and "TCPSender_inv W (s\<lparr>sn_stream := ByteStream_set_error (sn_stream s)\<rparr>)"
  using inv unfolding TCPSender_inv_def by (auto simp: ByteStream_defs)

lemma new_sender_inv: "unat capacity < 2 ^ 31 \<Longrightarrow> TCPSender_inv [] (TCPSender_new rand capacity rto isn)"
  by (simp add: TCPSender_inv_def TCPSender_new_def ByteStream_inv_new Timer_new_def) (simp add: ByteStream_new_def)

section \<open>Runs\<close>

text \<open>
  The calls an owner makes on a sender. \<open>Take\<close> empties \<open>segments_out()\<close>, as a connection
  does. A run collects the bytes that were accepted and the segments that were taken.
\<close>

datatype sn_op =
    Write bytes
  | End_input
  | Set_error
  | Fill
  | Ack WrappingInt32 u16
  | Tick size_t
  | Send_empty
  | Take

fun TCPSender_run :: "TCPSender \<Rightarrow> sn_op list \<Rightarrow> (TCPSender \<times> bytes \<times> TCPSegment list) result" where
  "TCPSender_run s [] = Inr (s, [], [])"
| "TCPSender_run s (Write data # ops) =
     (let (bs, n) = ByteStream_write (sn_stream s) data
      in result_map (\<lambda>(s', W, out). (s', take (unat n) data @ W, out)) (TCPSender_run (s\<lparr>sn_stream := bs\<rparr>) ops))"
| "TCPSender_run s (End_input # ops) = TCPSender_run (s\<lparr>sn_stream := ByteStream_end_input (sn_stream s)\<rparr>) ops"
| "TCPSender_run s (Set_error # ops) = TCPSender_run (s\<lparr>sn_stream := ByteStream_set_error (sn_stream s)\<rparr>) ops"
| "TCPSender_run s (Fill # ops) = TCPSender_run (TCPSender_fill_window s) ops"
| "TCPSender_run s (Ack ackno win # ops) = TCPSender_run (TCPSender_ack_received s ackno win) ops"
| "TCPSender_run s (Tick ms # ops) = result_bind (TCPSender_tick s ms) (\<lambda>s'. TCPSender_run s' ops)"
| "TCPSender_run s (Send_empty # ops) = TCPSender_run (TCPSender_send_empty_segment s) ops"
| "TCPSender_run s (Take # ops) =
     result_map (\<lambda>(s', W, out). (s', W, sn_segments_out s @ out)) (TCPSender_run (s\<lparr>sn_segments_out := []\<rparr>) ops)"

fun op_bytes :: "sn_op \<Rightarrow> nat" where
  "op_bytes (Write data) = length data"
| "op_bytes _ = 0"

lemma make_segment_frame:
  assumes "TCPSender_make_segment s = (s', segment)"
  shows "sn_isn s' = sn_isn s" "sn_is_fin_set s \<longrightarrow> sn_is_fin_set s'" "sn_next_seqno s' = sn_next_seqno s"
    "sn_recent_abs_ackno s' = sn_recent_abs_ackno s" "sn_window_size s' = sn_window_size s"
    "sn_bytes_in_flight s' = sn_bytes_in_flight s"
  using assms by (auto simp: TCPSender_make_segment_def Let_def split: prod.splits if_splits)

lemma fill_window_frame:
  "sn_isn (TCPSender_fill_window s) = sn_isn s \<and> (sn_is_fin_set s \<longrightarrow> sn_is_fin_set (TCPSender_fill_window s))
   \<and> sn_recent_abs_ackno (TCPSender_fill_window s) = sn_recent_abs_ackno s
   \<and> sn_window_size (TCPSender_fill_window s) = sn_window_size s"
  by (rule fill_window_rule) (auto simp: make_segment_frame TCPSender_push_segment_def)

lemma ack_received_frame [simp]:
  "sn_isn (TCPSender_ack_received s ackno win) = sn_isn s"
  "sn_is_fin_set (TCPSender_ack_received s ackno win) = sn_is_fin_set s"
  "sn_next_seqno (TCPSender_ack_received s ackno win) = sn_next_seqno s"
  "sn_stream (TCPSender_ack_received s ackno win) = sn_stream s"
  "sn_is_syn_set (TCPSender_ack_received s ackno win) = sn_is_syn_set s"
  "sn_segments_out (TCPSender_ack_received s ackno win) = sn_segments_out s"
  by (simp_all add: TCPSender_ack_received_def Let_def)

lemma tick_frame:
  assumes "TCPSender_tick s ms = Inr s'"
  shows "sn_isn s' = sn_isn s" "sn_is_fin_set s' = sn_is_fin_set s" "sn_next_seqno s' = sn_next_seqno s"
    "sn_recent_abs_ackno s' = sn_recent_abs_ackno s" "sn_window_size s' = sn_window_size s"
    "sn_bytes_in_flight s' = sn_bytes_in_flight s" "sn_outstanding_segments s' = sn_outstanding_segments s"
    "sn_is_syn_set s' = sn_is_syn_set s" "sn_stream s' = sn_stream s"
  using assms by (auto simp: TCPSender_tick_def Let_def split: if_splits list.splits)

text \<open>What a run from a well-formed sender returns.\<close>

definition run_result :: "bytes \<Rightarrow> TCPSender \<Rightarrow> (TCPSender \<times> bytes \<times> TCPSegment list) result \<Rightarrow> bool" where
  "run_result W s res \<longleftrightarrow>
     (\<exists>s' W' out. res = Inr (s', W', out) \<and> TCPSender_inv (W @ W') s' \<and> sn_isn s' = sn_isn s
        \<and> (sn_is_fin_set s \<longrightarrow> W' = [] \<and> sn_is_fin_set s')
        \<and> list_all (emitted (W @ W') (sn_is_fin_set s') (sn_isn s)) out)"

lemma run_result_step:
  assumes "run_result W s1 res" and "sn_isn s1 = sn_isn s" and "sn_is_fin_set s \<longrightarrow> sn_is_fin_set s1"
  shows "run_result W s res"
  using assms by (auto simp: run_result_def)

lemma run_inv:
  assumes "TCPSender_inv W s" and "length W + sum_list (map op_bytes ops) + 2 ^ 32 \<le> 2 ^ 64"
  shows "run_result W s (TCPSender_run s ops)"
  using assms
proof (induction ops arbitrary: W s)
  case Nil
  then show ?case by (simp add: run_result_def)
next
  case (Cons x ops)
  note inv = Cons.prems(1) and bd = Cons.prems(2)
  have rest: "length W + sum_list (map op_bytes ops) + 2 ^ 32 \<le> 2 ^ 64" using bd by simp
  note IH = Cons.IH [OF _ rest]
  show ?case
  proof (cases x)
    case (Write data)
    obtain bs n where wr: "ByteStream_write (sn_stream s) data = (bs, n)" by fastforce
    have "length W + length data + 2 ^ 32 \<le> 2 ^ 64" using bd Write by simp
    note w = write_inv [OF inv wr this]
    have "length (W @ take (unat n) data) + sum_list (map op_bytes ops) + 2 ^ 32 \<le> 2 ^ 64"
      using bd Write by simp
    from Cons.IH [OF w(1) this] w(2) show ?thesis
      by (auto simp: run_result_def Write wr)
  next
    case (Tick ms)
    obtain s1 where t: "TCPSender_tick s ms = Inr s1" "TCPSender_inv W s1" using tick_inv [OF inv] by blast
    show ?thesis
      using run_result_step [OF IH [OF t(2)]] tick_frame [OF t(1)] by (simp add: Tick t(1))
  next
    case Take
    let ?s1 = "s\<lparr>sn_segments_out := []\<rparr>"
    have i1: "TCPSender_inv W ?s1"
      by (rule TCPSender_inv_frame [OF inv]) (use TCPSender_invD [OF inv] in simp_all)
    from IH [OF this] obtain s' W' out where r: "TCPSender_run ?s1 ops = Inr (s', W', out)"
        "TCPSender_inv (W @ W') s'" "sn_isn s' = sn_isn s" "sn_is_fin_set s \<longrightarrow> W' = [] \<and> sn_is_fin_set s'"
        "list_all (emitted (W @ W') (sn_is_fin_set s') (sn_isn s)) out"
      by (auto simp: run_result_def)
    have "list_all (emitted (W @ W') (sn_is_fin_set s') (sn_isn s)) (sn_segments_out s)"
      using list_all_emitted_grow [OF TCPSender_invD(6) [OF inv]] r(4) by auto
    with r show ?thesis by (simp add: run_result_def Take)
  qed (use run_result_step [OF IH] end_input_inv [OF inv] fill_window_inv [OF inv] fill_window_frame
      ack_received_inv [OF inv] send_empty_inv [OF inv] in \<open>simp_all add: TCPSender_send_empty_segment_def\<close>)
qed

section \<open>Properties\<close>

text \<open>
  C19. The sender keeps its books: after any sequence of calls (writes, end of input, errors,
  acknowledgments with arbitrary numbers and windows, clock ticks, fills), with no call
  undefined, the retransmission timer runs exactly when a segment is outstanding,
  \<open>bytes_in_flight()\<close> is the total length of the outstanding segments in sequence space,
  and those segments are a contiguous range of sequence numbers that ends at the next one.
\<close>

theorem TCPSender_bookkeeping:
  assumes "unat capacity < 2 ^ 31" and "sum_list (map op_bytes ops) + 2 ^ 32 \<le> 2 ^ 64"
  shows "\<exists>s W out. TCPSender_run (TCPSender_new rand capacity rto isn) ops = Inr (s, W, out)
     \<and> (tm_if_run (sn_timer s) \<longleftrightarrow> sn_outstanding_segments s \<noteq> [])
     \<and> unat (sn_bytes_in_flight s) = sum_list (map seq_length (sn_outstanding_segments s))
     \<and> in_flight W (sn_is_fin_set s) (sn_isn s) (unat (sn_next_seqno s) - unat (sn_bytes_in_flight s))
         (sn_outstanding_segments s) (unat (sn_next_seqno s))
     \<and> unat (sn_next_seqno s) + length (bs_buffer (sn_stream s)) =
         (if sn_is_syn_set s then length W + 1 + of_bool (sn_is_fin_set s) else length W)"
proof -
  from run_inv [OF new_sender_inv [OF assms(1)], of ops rand rto isn] assms(2)
  obtain s W out where r: "TCPSender_run (TCPSender_new rand capacity rto isn) ops = Inr (s, W, out)"
      and inv: "TCPSender_inv W s" by (auto simp: run_result_def)
  note d = TCPSender_invD [OF inv]
  have "unat (sn_bytes_in_flight s) = sum_list (map seq_length (sn_outstanding_segments s))"
    using in_flight_sum [OF d(4)] d(3) by simp
  moreover have "unat (sn_next_seqno s) + length (bs_buffer (sn_stream s)) =
         (if sn_is_syn_set s then length W + 1 + of_bool (sn_is_fin_set s) else length W)"
    using inv by (auto simp: TCPSender_inv_def)
  ultimately show ?thesis using r d(4,5) by blast
qed

theorem TCPSender_bookkeeping_witness:
  "\<exists>s W out. TCPSender_run (TCPSender_new 7 100 1000 None)
       [Fill, Take, Ack (WrappingInt32 8) 3, Write [1, 2, 3, 4, 5], Fill, Take, Tick 1000] = Inr (s, W, out)
     \<and> tm_if_run (sn_timer s) \<and> sn_bytes_in_flight s = 3"
proof -
  let ?ops = "[Fill, Take, Ack (WrappingInt32 8) 3, Write [1, 2, 3, 4, 5], Fill, Take, Tick 1000]"
  let ?run = "TCPSender_run (TCPSender_new 7 100 1000 None) ?ops"
  have "sn_outstanding_segments (fst (projr ?run)) \<noteq> []" "sn_bytes_in_flight (fst (projr ?run)) = 3" by code_simp+
  then show ?thesis
    using TCPSender_bookkeeping [of 100 ?ops 7 1000 None] by fastforce
qed

text \<open>
  C20. Every segment the sender emits carries its stream: let \<open>W\<close> be the bytes that were
  accepted during a run. Every segment handed out or still queued is either empty or
  starts at an absolute sequence number \<open>a\<close> whose 32-bit form it shows, has the SYN exactly
  when \<open>a\<close> is 0, carries at most 1000 bytes, exactly those of \<open>W\<close> that belong at \<open>a\<close>, and
  has the FIN only if they are the last bytes of \<open>W\<close>. Retransmissions are included.
\<close>

theorem TCPSender_sends_stream:
  assumes "unat capacity < 2 ^ 31" and "sum_list (map op_bytes ops) + 2 ^ 32 \<le> 2 ^ 64"
  shows "\<exists>s W out. TCPSender_run (TCPSender_new rand capacity rto isn) ops = Inr (s, W, out)
     \<and> (\<forall>seg\<in>set (out @ sn_segments_out s). seq_length seg = 0 \<or>
          (\<exists>a\<le>length W + 1. th_seqno (seg_header seg) = wrap (of_nat a) (sn_isn s)
             \<and> (th_syn (seg_header seg) \<longleftrightarrow> a = 0)
             \<and> length (Buffer_str (seg_payload seg)) \<le> 1000
             \<and> Buffer_str (seg_payload seg) = take (length (Buffer_str (seg_payload seg))) (drop (a - 1) W)
             \<and> (th_fin (seg_header seg) \<longrightarrow> a - 1 + length (Buffer_str (seg_payload seg)) = length W)))"
proof -
  from run_inv [OF new_sender_inv [OF assms(1)], of ops rand rto isn] assms(2)
  obtain s W out where r: "TCPSender_run (TCPSender_new rand capacity rto isn) ops = Inr (s, W, out)"
      and inv: "TCPSender_inv W s" and out: "list_all (emitted W (sn_is_fin_set s) (sn_isn s)) out"
    by (auto simp: run_result_def)
  from out TCPSender_invD(6) [OF inv]
  have "\<forall>seg\<in>set (out @ sn_segments_out s). emitted W (sn_is_fin_set s) (sn_isn s) seg"
    by (auto simp: list_all_iff)
  with r show ?thesis
    unfolding emitted_def carries_def excerpt_at_def by (intro exI conjI) (assumption, fastforce)
qed

theorem TCPSender_sends_stream_witness:
  "\<exists>s out. TCPSender_run (TCPSender_new 7 100 1000 None)
       [Fill, Ack (WrappingInt32 8) 3, Write [1, 2, 3, 4, 5], End_input, Fill, Take, Tick 1000] = Inr (s, [1, 2, 3, 4, 5], out)
     \<and> map (\<lambda>seg. (raw_value (th_seqno (seg_header seg)), Buffer_str (seg_payload seg))) (out @ sn_segments_out s)
        = [(7, []), (8, [1, 2, 3]), (8, [1, 2, 3])]"
proof -
  let ?ops = "[Fill, Ack (WrappingInt32 8) 3, Write [1, 2, 3, 4, 5], End_input, Fill, Take, Tick 1000]"
  let ?run = "TCPSender_run (TCPSender_new 7 100 1000 None) ?ops"
  have "fst (snd (projr ?run)) = [1, 2, 3, 4, 5]"
    "map (\<lambda>seg. (raw_value (th_seqno (seg_header seg)), Buffer_str (seg_payload seg)))
       (snd (snd (projr ?run)) @ sn_segments_out (fst (projr ?run))) = [(7, []), (8, [1, 2, 3]), (8, [1, 2, 3])]"
    by code_simp+
  then show ?thesis
    using TCPSender_sends_stream [of 100 ?ops 7 1000 None] by fastforce
qed

end
