(* ===== verification/Sender_Window.thy ===== *)
theory Sender_Window
  imports TCP_Sender
begin

text \<open>
  How \<open>TCPSender\<close> uses the window its peer advertises: the states it reaches when the
  acknowledgments come from a peer that follows the protocol, what \<open>fill_window\<close>,
  \<open>ack_received\<close> and \<open>tick\<close> do there, and what the code does with other acknowledgments.
\<close>

section \<open>A well-behaved peer\<close>

text \<open>
  The states a sender reaches when every acknowledgment it gets is one its peer can send:
  not older than the last one and not beyond what was sent. \<open>W\<close> are the bytes accepted so far.
\<close>

inductive TCPSender_reachable :: "TCPSender \<Rightarrow> bytes \<Rightarrow> bool" where
  start: "unat capacity < 2 ^ 31 \<Longrightarrow> TCPSender_reachable (TCPSender_new rand capacity rto isn) []"
| accept: "TCPSender_reachable s W \<Longrightarrow> ByteStream_write (sn_stream s) data = (bs, n) \<Longrightarrow>
    length W + length data + 2 ^ 32 \<le> 2 ^ 64 \<Longrightarrow>
    TCPSender_reachable (s\<lparr>sn_stream := bs\<rparr>) (W @ take (unat n) data)"
| end_input: "TCPSender_reachable s W \<Longrightarrow>
    TCPSender_reachable (s\<lparr>sn_stream := ByteStream_end_input (sn_stream s)\<rparr>) W"
| fill: "TCPSender_reachable s W \<Longrightarrow> TCPSender_reachable (TCPSender_fill_window s) W"
| ack: "TCPSender_reachable s W \<Longrightarrow> unat (sn_recent_abs_ackno s) \<le> a \<Longrightarrow> a \<le> unat (sn_next_seqno s) \<Longrightarrow>
    TCPSender_reachable (TCPSender_ack_received s (wrap (of_nat a) (sn_isn s)) win) W"
| tick: "TCPSender_reachable s W \<Longrightarrow> TCPSender_tick s ms = Inr s' \<Longrightarrow> TCPSender_reachable s' W"
| send_empty: "TCPSender_reachable s W \<Longrightarrow> TCPSender_reachable (TCPSender_send_empty_segment s) W"
| take_out: "TCPSender_reachable s W \<Longrightarrow> TCPSender_reachable (s\<lparr>sn_segments_out := []\<rparr>) W"

text \<open>How the acknowledged number, the outstanding range and the next number lie.\<close>

definition TCPSender_window_inv :: "TCPSender \<Rightarrow> bool" where
  "TCPSender_window_inv s \<longleftrightarrow>
     sn_base s \<le> unat (sn_recent_abs_ackno s) \<and> unat (sn_recent_abs_ackno s) \<le> sn_base s + 1002
     \<and> unat (sn_recent_abs_ackno s) \<le> unat (sn_next_seqno s)
     \<and> unat (sn_next_seqno s) \<le> unat (sn_recent_abs_ackno s) + 65536
     \<and> sn_window_size s \<noteq> 0"

lemma window_edge:
  assumes inv: "TCPSender_inv W s" and w: "TCPSender_window_inv s"
  shows "unat (sn_recent_abs_ackno s + ucast (sn_window_size s)) =
      unat (sn_recent_abs_ackno s) + unat (sn_window_size s)"
    and "sn_window_open s \<Longrightarrow> unat (sn_remaining s) =
      unat (sn_recent_abs_ackno s) + unat (sn_window_size s) - unat (sn_next_seqno s)"
    and "sn_window_open s \<Longrightarrow> unat (sn_next_seqno s) < unat (sn_recent_abs_ackno s) + unat (sn_window_size s)"
proof -
  have ws: "unat (sn_window_size s) < 65536" "0 < unat (sn_window_size s)"
    using unsigned_less [of "sn_window_size s", where ?'a = nat] w
    by (simp_all add: TCPSender_window_inv_def unat_gt_0)
  have rb: "unat (sn_recent_abs_ackno s) + 65536 < 2 ^ 64"
    using TCPSender_next_le [OF inv] TCPSender_invD(2) [OF inv] w by (simp add: TCPSender_window_inv_def)
  show e: "unat (sn_recent_abs_ackno s + ucast (sn_window_size s)) =
      unat (sn_recent_abs_ackno s) + unat (sn_window_size s)"
    using ws rb by (simp add: unat_word_ariths unat_ucast_up)
  show lt: "sn_window_open s \<Longrightarrow> unat (sn_next_seqno s) < unat (sn_recent_abs_ackno s) + unat (sn_window_size s)"
  proof (cases "sn_is_syn_set s")
    case False
    then have "unat (sn_next_seqno s) = 0" using inv by (auto simp: TCPSender_inv_def)
    then show ?thesis using ws by simp
  qed (simp add: word_less_nat_alt e)
  show "sn_window_open s \<Longrightarrow> unat (sn_remaining s) =
      unat (sn_recent_abs_ackno s) + unat (sn_window_size s) - unat (sn_next_seqno s)"
    using lt e by (subst unat_le_diff) (simp_all add: word_le_nat_alt)
qed

lemma make_segment_window:
  assumes inv: "TCPSender_inv W s" and w: "TCPSender_window_inv s" and op: "sn_window_open s"
    and mk: "TCPSender_make_segment s = (s', segment)" and nz: "TCPSegment_length_in_sequence_space segment \<noteq> 0"
  shows "unat (sn_next_seqno (TCPSender_push_segment segment s'))
    \<le> unat (sn_recent_abs_ackno s) + unat (sn_window_size s) + of_bool (sn_next_seqno s = 0)"
    and "sn_base (TCPSender_push_segment segment s') = sn_base s"
    and "unat (sn_next_seqno s) \<le> unat (sn_next_seqno (TCPSender_push_segment segment s'))"
proof -
  obtain bs data where rd: "ByteStream_read (sn_stream s) (min (sn_remaining s) MAX_PAYLOAD_SIZE) = (bs, data)"
    by fastforce
  obtain k where k: "length data \<le> 1000" "length data \<le> unat (sn_remaining s)"
    by (rule make_segment_read [OF inv rd]) blast
  let ?fin = "sn_sends_fin s bs data"
  have seg: "segment = sn_segment s data ?fin" using mk unfolding make_segment_eq [OF rd] by auto
  note len = sn_segment_seq_length [OF k(1), of s ?fin]
  have nb: "unat (sn_next_seqno s) + 1002 < 2 ^ 64" "unat (sn_bytes_in_flight s) \<le> unat (sn_next_seqno s)"
    using TCPSender_next_le [OF inv] TCPSender_invD(2,3) [OF inv] by simp_all
  have l: "seq_length segment \<le> 1002" unfolding seg len(1) using k(1) by (auto simp: of_bool_def)
  have next': "sn_next_seqno (TCPSender_push_segment segment s') = sn_next_seqno s + of_nat (seq_length segment)"
    "sn_bytes_in_flight (TCPSender_push_segment segment s') = sn_bytes_in_flight s + of_nat (seq_length segment)"
    using make_segment_frame(3,6) [OF mk] len(2) seg by (simp_all add: TCPSender_push_segment_def)
  have un: "unat (sn_next_seqno s + of_nat (seq_length segment)) = unat (sn_next_seqno s) + seq_length segment"
    "unat (sn_bytes_in_flight s + of_nat (seq_length segment)) = unat (sn_bytes_in_flight s) + seq_length segment"
    using nb l by (simp_all add: unat_word_ariths unat_of_nat take_bit_nat_eq_self)
  show "sn_base (TCPSender_push_segment segment s') = sn_base s" unfolding next' un by simp
  show "unat (sn_next_seqno s) \<le> unat (sn_next_seqno (TCPSender_push_segment segment s'))"
    unfolding next' un by simp
  have "?fin \<Longrightarrow> seq_length (sn_segment s data False) < unat (sn_remaining s)"
    using sn_segment_seq_length(3) [OF k(1), of s False] by (simp add: sn_sends_fin_def word_less_nat_alt)
  then have "seq_length segment \<le> unat (sn_remaining s) + of_bool (sn_next_seqno s = 0)"
    unfolding seg len(1) using k(2) sn_segment_seq_length(1) [OF k(1), of s False] by (cases ?fin) simp_all
  then show "unat (sn_next_seqno (TCPSender_push_segment segment s'))
    \<le> unat (sn_recent_abs_ackno s) + unat (sn_window_size s) + of_bool (sn_next_seqno s = 0)"
    unfolding next' un using window_edge(2,3) [OF inv w op] by simp
qed

lemma make_segment_window_inv:
  assumes inv: "TCPSender_inv W s" and w: "TCPSender_window_inv s" and op: "sn_window_open s"
    and mk: "TCPSender_make_segment s = (s', segment)" and nz: "TCPSegment_length_in_sequence_space segment \<noteq> 0"
  defines "s'' \<equiv> TCPSender_push_segment segment s'"
  shows "TCPSender_window_inv s''" "sn_window_size s'' = sn_window_size s"
    "sn_recent_abs_ackno s'' = sn_recent_abs_ackno s"
proof -
  note m = make_segment_window [OF inv w op mk nz, folded s''_def]
  show fr: "sn_window_size s'' = sn_window_size s" "sn_recent_abs_ackno s'' = sn_recent_abs_ackno s"
    using make_segment_frame [OF mk] by (simp_all add: s''_def TCPSender_push_segment_def)
  have "unat (sn_window_size s) \<le> 65535"
    using unsigned_less [of "sn_window_size s", where ?'a = nat] by simp
  then show "TCPSender_window_inv s''"
    using m w unfolding TCPSender_window_inv_def fr m(2) by (auto simp: of_bool_def split: if_splits)
qed

lemma fill_window_window:
  assumes inv: "TCPSender_inv W s" and w: "TCPSender_window_inv s"
  defines "s' \<equiv> TCPSender_fill_window s"
  shows "TCPSender_window_inv s'"
    and "unat (sn_next_seqno s') \<le> max (unat (sn_next_seqno s))
      (unat (sn_recent_abs_ackno s) + unat (sn_window_size s) + of_bool (sn_next_seqno s = 0))"
proof -
  let ?e = "unat (sn_recent_abs_ackno s) + unat (sn_window_size s) + of_bool (sn_next_seqno s = 0)"
  have "TCPSender_inv W s' \<and> TCPSender_window_inv s' \<and> sn_window_size s' = sn_window_size s
      \<and> sn_recent_abs_ackno s' = sn_recent_abs_ackno s
      \<and> unat (sn_next_seqno s) \<le> unat (sn_next_seqno s')
      \<and> unat (sn_next_seqno s') \<le> max (unat (sn_next_seqno s)) ?e"
    unfolding s'_def
  proof (rule fill_window_rule, goal_cases)
    case 1
    then show ?case using inv w by simp
  next
    case (2 q q' segment)
    let ?q = "TCPSender_push_segment segment q'"
    have q: "TCPSender_inv W q" "TCPSender_window_inv q" "sn_window_size q = sn_window_size s"
        "sn_recent_abs_ackno q = sn_recent_abs_ackno s" "unat (sn_next_seqno s) \<le> unat (sn_next_seqno q)"
      using 2(1) by auto
    note m = make_segment_window [OF q(1,2) 2(2,3,4)]
    note wi = make_segment_window_inv [OF q(1,2) 2(2,3,4), unfolded q(3,4)]
    have "sn_next_seqno q = 0 \<longrightarrow> sn_next_seqno s = 0" using q(5) by (auto simp: unat_eq_zero [symmetric])
    then have "of_bool (sn_next_seqno q = 0) \<le> (of_bool (sn_next_seqno s = 0) :: nat)" by simp
    with m(1) [unfolded q(3,4)] have le: "unat (sn_next_seqno ?q) \<le> ?e" by linarith
    then show ?case
      using make_segment_inv(2) [OF q(1) 2(3,4)] wi q(5) m(3) by (simp add: max.coboundedI2)
  next
    case (3 q q' segment)
    then have "q' = q" using make_segment_inv(1) by blast
    with 3 show ?case by simp
  qed
  then show "TCPSender_window_inv s'" "unat (sn_next_seqno s') \<le> max (unat (sn_next_seqno s)) ?e" by auto
qed

text \<open>A round that produces no segment has nothing left to send.\<close>

lemma make_segment_empty:
  assumes inv: "TCPSender_inv W s" and w: "TCPSender_window_inv s" and op: "sn_window_open s"
    and mk: "TCPSender_make_segment s = (s', segment)" and z: "TCPSegment_length_in_sequence_space segment = 0"
  shows "sn_is_syn_set s" "bs_buffer (sn_stream s) = []" "bs_input_ended (sn_stream s) \<longrightarrow> sn_is_fin_set s"
proof -
  obtain bs data where rd: "ByteStream_read (sn_stream s) (min (sn_remaining s) MAX_PAYLOAD_SIZE) = (bs, data)"
    by fastforce
  obtain k where k: "k \<le> length W" "bs_buffer (sn_stream s) = drop k W" "length data \<le> 1000"
      "length data = min (unat (min (sn_remaining s) MAX_PAYLOAD_SIZE)) (length W - k)"
      "unat (sn_next_seqno s) = (if sn_is_syn_set s then k + 1 + of_bool (sn_is_fin_set s) else 0)"
    by (rule make_segment_read [OF inv rd]) blast
  let ?fin = "sn_sends_fin s bs data"
  have seg: "segment = sn_segment s data ?fin" using mk unfolding make_segment_eq [OF rd] by auto
  note len = sn_segment_seq_length [OF k(3), of s ?fin]
  have "seq_length (sn_segment s data ?fin) = 0" using z len(3) by (simp add: seg)
  then have n: "data = []" "sn_next_seqno s \<noteq> 0" "\<not> ?fin" unfolding len(1) by (auto split: if_splits)
  have rem: "0 < unat (sn_remaining s)" using window_edge(2,3) [OF inv w op] by simp
  show "sn_is_syn_set s" using n(2) k(5) by (auto simp: unat_eq_zero [symmetric] split: if_splits)
  have "0 < unat (min (sn_remaining s) MAX_PAYLOAD_SIZE)" using rem by (simp add: min_unat MAX_PAYLOAD_SIZE_def)
  then show b: "bs_buffer (sn_stream s) = []" using k(1,2,4) n(1) by simp
  have "bs = sn_stream s" using read_nothing [OF TCPSender_invD(1) [OF inv]] rd n(1) by blast
  moreover have "TCPSegment_length_in_sequence_space (sn_segment s data False) < sn_remaining s"
    using sn_segment_seq_length(1,3) [OF k(3), of s False] n(1,2) rem by (simp add: word_less_nat_alt)
  ultimately show "bs_input_ended (sn_stream s) \<longrightarrow> sn_is_fin_set s"
    using n(3) b by (auto simp: sn_sends_fin_def ByteStream_eof_def ByteStream_buffer_empty_def)
qed

lemma fill_window_complete:
  assumes "TCPSender_inv W s" and "TCPSender_window_inv s"
  defines "s' \<equiv> TCPSender_fill_window s"
  shows "sn_is_syn_set s' \<and> (unat (sn_recent_abs_ackno s) + unat (sn_window_size s) \<le> unat (sn_next_seqno s')
     \<or> bs_buffer (sn_stream s') = [] \<and> (bs_input_ended (sn_stream s') \<longrightarrow> sn_is_fin_set s'))"
  using assms(1,2) unfolding s'_def
proof (induction s rule: TCPSender_fill_window.induct)
  case (1 s)
  note inv = 1(2) and w = 1(3)
  obtain q segment where mk: "TCPSender_make_segment s = (q, segment)" by fastforce
  show ?case
  proof (cases "sn_window_open s")
    case False
    then have "TCPSender_fill_window s = s" by (subst TCPSender_fill_window.simps) simp
    then show ?thesis
      using window_edge(1) [OF inv w] False by (simp add: not_less word_le_nat_alt)
  next
    case op: True
    show ?thesis
    proof (cases "TCPSegment_length_in_sequence_space segment = 0")
      case True
      have q: "q = s" by (rule make_segment_inv(1) [OF inv mk True])
      have eq: "TCPSender_fill_window s = s"
        using op mk True q by (subst TCPSender_fill_window.simps) (simp add: Let_def)
      show ?thesis unfolding eq using make_segment_empty [OF inv w op mk True] by simp
    next
      case False
      let ?q = "TCPSender_push_segment segment q"
      have eq: "TCPSender_fill_window s = TCPSender_fill_window ?q"
        using op mk False by (subst TCPSender_fill_window.simps) (simp add: Let_def)
      note wi = make_segment_window_inv [OF inv w op mk False]
      show ?thesis
        using 1(1) [OF op refl mk [symmetric] False make_segment_inv(2) [OF inv mk False] wi(1)]
        unfolding eq wi .
    qed
  qed
qed

text \<open>An acknowledgment in range pops exactly the segments that lie below it.\<close>

lemma pop_acked_valid:
  assumes "in_flight W fs (sn_isn s) (sn_base s) segs (unat (sn_next_seqno s))"
    and "unat (sn_bytes_in_flight s) \<le> unat (sn_next_seqno s)" and "length W + 2 ^ 32 \<le> 2 ^ 64"
    and "unat (sn_recent_abs_ackno s) + 2 ^ 31 \<le> 2 ^ 64"
      "unat (sn_recent_abs_ackno s) \<le> sn_base s + 2 ^ 31" "unat (sn_next_seqno s) < unat (sn_recent_abs_ackno s) + 2 ^ 31"
    and "sn_base s \<le> unat ack" "unat ack \<le> unat (sn_next_seqno s)"
  shows "sn_base (TCPSender_pop_acked ack segs s) \<le> unat ack
    \<and> (sn_outstanding_segments (TCPSender_pop_acked ack segs s) \<noteq> [] \<longrightarrow>
         unat ack < sn_base (TCPSender_pop_acked ack segs s)
           + seq_length (hd (sn_outstanding_segments (TCPSender_pop_acked ack segs s))))"
  using assms(1,2,4-8)
proof (induction segs arbitrary: s)
  case Nil
  then show ?case by simp
next
  case (Cons seg segs)
  let ?l = "seq_length seg" and ?nx = "unat (sn_next_seqno s)" and ?b = "unat (sn_bytes_in_flight s)"
  have car: "carries W fs (sn_isn s) (?nx - ?b) seg" and rest: "in_flight W fs (sn_isn s) (?nx - ?b + ?l) segs ?nx"
    using Cons.prems(1) by simp_all
  note len = carries_length [OF car assms(3)]
  have lb: "?l \<le> ?b" using in_flight_sum [OF rest] Cons.prems(2) by linarith
  define s1 where "s1 = s\<lparr>sn_bytes_in_flight := sn_bytes_in_flight s - TCPSegment_length_in_sequence_space seg,
      sn_RTO := sn_initial_retransmission_timeout s, sn_consecutive_retransmissions := 0,
      sn_timer := Timer_start (sn_timer s)\<rparr>"
  have s1: "unat (sn_bytes_in_flight s1) = ?b - ?l" "sn_next_seqno s1 = sn_next_seqno s" "sn_isn s1 = sn_isn s"
      "sn_recent_abs_ackno s1 = sn_recent_abs_ackno s"
    using lb len(2) by (simp_all add: s1_def unat_le_diff word_le_nat_alt)
  have "th_seqno (seg_header seg) = wrap (of_nat (sn_base s)) (sn_isn s)" using car by (simp add: carries_def)
  then have "unwrap (th_seqno (seg_header seg)) (sn_isn s) (sn_recent_abs_ackno s) = of_nat (sn_base s)"
    using Cons.prems(3,4,5) by (simp only:) (rule unwrap_near_nat; linarith)
  moreover have "unat (of_nat (sn_base s) + of_nat ?l :: u64) = sn_base s + ?l"
    using lb Cons.prems(2) unat_u64_less [of "sn_next_seqno s"]
    by (simp only: of_nat_add [symmetric] unat_of_nat) (simp add: take_bit_nat_eq_self)
  ultimately have cond: "ack < unwrap (th_seqno (seg_header seg)) (sn_isn s) (sn_recent_abs_ackno s)
      + TCPSegment_length_in_sequence_space seg \<longleftrightarrow> unat ack < sn_base s + ?l"
    by (simp only: len(1) word_less_nat_alt)
  have nlt: "\<not> sn_next_seqno s < ack" using Cons.prems(7) by (simp add: word_less_nat_alt)
  show ?case
  proof (cases "unat ack < sn_base s + ?l")
    case True
    then have "TCPSender_pop_acked ack (seg # segs) s = s\<lparr>sn_outstanding_segments := seg # segs\<rparr>"
      using cond by (simp add: Let_def)
    with True Cons.prems(6) show ?thesis by simp
  next
    case False
    then have eq: "TCPSender_pop_acked ack (seg # segs) s = TCPSender_pop_acked ack segs s1"
      using cond nlt by (simp add: Let_def s1_def)
    have b1: "?nx - ?b + ?l = sn_base s1" using s1 lb Cons.prems(2) by simp
    show ?thesis
      unfolding eq by (rule Cons.IH) (use b1 rest False Cons.prems lb in \<open>simp_all add: s1\<close>)
  qed
qed

lemma ack_received_valid:
  fixes win :: u16
  assumes inv: "TCPSender_inv W s" and w: "TCPSender_window_inv s"
    and a: "unat (sn_recent_abs_ackno s) \<le> a" "a \<le> unat (sn_next_seqno s)"
  defines "s' \<equiv> TCPSender_ack_received s (wrap (of_nat a) (sn_isn s)) win"
  shows "unat (sn_recent_abs_ackno s') = a" "sn_base s' \<le> a"
    "sn_outstanding_segments s' \<noteq> [] \<Longrightarrow> a < sn_base s' + seq_length (hd (sn_outstanding_segments s'))"
    "TCPSender_window_inv s'"
proof -
  define s1 where "s1 = (if win = 0 then s\<lparr>sn_window_size := 1, sn_is_window_size_0 := True\<rparr>
               else s\<lparr>sn_window_size := win\<rparr>)"
  define ack where "ack = (of_nat a :: u64)"
  define s2 where "s2 = TCPSender_pop_acked ack (sn_outstanding_segments s1) s1"
  have s1: "sn_isn s1 = sn_isn s" "sn_recent_abs_ackno s1 = sn_recent_abs_ackno s" "sn_next_seqno s1 = sn_next_seqno s"
      "sn_bytes_in_flight s1 = sn_bytes_in_flight s" "sn_outstanding_segments s1 = sn_outstanding_segments s"
      "sn_is_fin_set s1 = sn_is_fin_set s" "sn_window_size s1 \<noteq> 0"
    by (simp_all add: s1_def)
  note d = TCPSender_invD [OF inv]
  have near: "unat (sn_recent_abs_ackno s) + 2 ^ 31 \<le> 2 ^ 64" "unat (sn_recent_abs_ackno s) \<le> sn_base s + 2 ^ 31"
      "unat (sn_next_seqno s) < unat (sn_recent_abs_ackno s) + 2 ^ 31" "sn_base s \<le> a"
    using w a TCPSender_next_le [OF inv] d(2) by (simp_all add: TCPSender_window_inv_def)
  have ua: "unat ack = a"
    using a(2) unat_u64_less [of "sn_next_seqno s"] by (simp add: ack_def unat_of_nat take_bit_nat_eq_self)
  have uw: "unwrap (wrap (of_nat a) (sn_isn s)) (sn_isn s) (sn_recent_abs_ackno s) = ack"
    unfolding ack_def using a near by (intro unwrap_near_nat) linarith+
  have pop: "sn_base s2 \<le> a \<and> (sn_outstanding_segments s2 \<noteq> [] \<longrightarrow>
      a < sn_base s2 + seq_length (hd (sn_outstanding_segments s2)))"
    unfolding s2_def ua [symmetric]
    by (rule pop_acked_valid [where W = W and fs = "sn_is_fin_set s"]) (use d near a ua in \<open>simp_all add: s1\<close>)
  have fr: "sn_next_seqno s2 = sn_next_seqno s" "sn_window_size s2 = sn_window_size s1" by (simp_all add: s2_def s1)
  have eq: "s' = s2\<lparr>sn_recent_abs_ackno := ack,
         sn_timer := if sn_outstanding_segments s2 = [] then Timer_stop (sn_timer s2) else sn_timer s2\<rparr>"
    by (simp add: s'_def TCPSender_ack_received_def Let_def s1_def [symmetric] s1(1,2) uw s2_def [symmetric])
  have s': "sn_recent_abs_ackno s' = ack" "sn_bytes_in_flight s' = sn_bytes_in_flight s2"
      "sn_next_seqno s' = sn_next_seqno s" "sn_outstanding_segments s' = sn_outstanding_segments s2"
      "sn_window_size s' = sn_window_size s1"
    by (simp_all add: eq fr)
  show "unat (sn_recent_abs_ackno s') = a" "sn_base s' \<le> a"
    "sn_outstanding_segments s' \<noteq> [] \<Longrightarrow> a < sn_base s' + seq_length (hd (sn_outstanding_segments s'))"
    using pop ua unfolding s' fr(1) by simp_all
  have inv': "TCPSender_inv W s'" unfolding s'_def by (rule ack_received_inv [OF inv])
  have "a \<le> sn_base s' + 1002"
  proof (cases "sn_outstanding_segments s'")
    case Nil
    then show ?thesis using TCPSender_invD(4) [OF inv'] a(2) s'(3) by simp
  next
    case (Cons seg segs)
    then have "carries W (sn_is_fin_set s') (sn_isn s') (sn_base s') seg" using TCPSender_invD(4) [OF inv'] by simp
    from carries_length(4) [OF this d(2)] show ?thesis using pop Cons unfolding s' fr(1) by simp
  qed
  then show "TCPSender_window_inv s'"
    using pop a w s1(7) ua unfolding TCPSender_window_inv_def s' fr(1) by simp
qed

lemma ack_received_drop:
  "\<exists>n. sn_outstanding_segments (TCPSender_ack_received s ackno win) = drop n (sn_outstanding_segments s)"
proof -
  have "\<exists>n. sn_outstanding_segments (TCPSender_pop_acked ack segs q) = drop n segs" for ack segs q
  proof (induction ack segs q rule: TCPSender_pop_acked.induct)
    case (2 ack seg rest q)
    then show ?case by (auto simp: Let_def intro: exI [of _ 0]) (metis drop_Suc_Cons)
  qed simp
  then show ?thesis by (auto simp: TCPSender_ack_received_def Let_def)
qed

lemma TCPSender_reachable_inv:
  assumes "TCPSender_reachable s W"
  shows "TCPSender_inv W s \<and> TCPSender_window_inv s"
  using assms
proof (induction rule: TCPSender_reachable.induct)
  case (start capacity rand rto isn)
  then show ?case using new_sender_inv [of capacity rand rto isn] by (simp add: TCPSender_window_inv_def TCPSender_new_def)
next
  case (accept s W data bs n)
  then show ?case using write_inv [of W s data bs n] by (simp add: TCPSender_window_inv_def)
next
  case (end_input s W)
  then show ?case using end_input_inv [of W s] by (simp add: TCPSender_window_inv_def)
next
  case (fill s W)
  then show ?case using fill_window_inv fill_window_window by blast
next
  case (ack s W a win)
  then show ?case using ack_received_inv ack_received_valid(4) by blast
next
  case (tick s W ms s')
  then have "TCPSender_inv W s'" using tick_inv [of W s ms] by auto
  then show ?case using tick tick_frame [OF tick(2)] by (simp add: TCPSender_window_inv_def)
next
  case (send_empty s W)
  then show ?case using send_empty_inv [of W s] by (simp add: TCPSender_window_inv_def TCPSender_send_empty_segment_def)
next
  case (take_out s W)
  have "TCPSender_inv W (s\<lparr>sn_segments_out := []\<rparr>)"
    by (rule TCPSender_inv_frame [of W s]) (use take_out TCPSender_invD [of W s] in simp_all)
  then show ?case using take_out by (simp add: TCPSender_window_inv_def)
qed

section \<open>After a zero window\<close>

lemma pop_acked_backoff:
  "(sn_consecutive_retransmissions (TCPSender_pop_acked ack segs s), sn_RTO (TCPSender_pop_acked ack segs s)) \<in>
       {(sn_consecutive_retransmissions s, sn_RTO s), (0, sn_initial_retransmission_timeout s)}"
proof (induction ack segs s rule: TCPSender_pop_acked.induct)
  case (2 ack seg rest s)
  then show ?case by (auto simp: Let_def)
qed simp

text \<open>The back-off state of a sender is unchanged or reset.\<close>

definition quiet :: "TCPSender \<Rightarrow> TCPSender \<Rightarrow> bool" where
  "quiet s s' \<longleftrightarrow> sn_is_window_size_0 s'
     \<and> sn_initial_retransmission_timeout s' = sn_initial_retransmission_timeout s
     \<and> (sn_consecutive_retransmissions s', sn_RTO s') \<in>
         {(sn_consecutive_retransmissions s, sn_RTO s), (0, sn_initial_retransmission_timeout s)}"

lemma quiet_trans: "quiet s s' \<Longrightarrow> quiet s' s'' \<Longrightarrow> quiet s s''"
  by (auto simp: quiet_def)

lemma fill_window_quiet: "sn_is_window_size_0 s \<Longrightarrow> quiet s (TCPSender_fill_window s)"
proof (rule fill_window_rule [of "quiet s"], goal_cases)
  case 1
  then show ?case by (simp add: quiet_def)
qed (auto simp: quiet_def TCPSender_push_segment_def TCPSender_make_segment_def Let_def
    split: prod.splits if_splits)

lemma ack_received_quiet: "sn_is_window_size_0 s \<Longrightarrow> quiet s (TCPSender_ack_received s ackno win)"
  using pop_acked_backoff
    [of "unwrap ackno (sn_isn s) (sn_recent_abs_ackno s)" "sn_outstanding_segments s"
      "if win = 0 then s\<lparr>sn_window_size := 1, sn_is_window_size_0 := True\<rparr> else s\<lparr>sn_window_size := win\<rparr>"]
  by (auto simp: quiet_def TCPSender_ack_received_def Let_def split: if_splits)

lemma tick_quiet: "sn_is_window_size_0 s \<Longrightarrow> TCPSender_tick s ms = Inr s' \<Longrightarrow> quiet s s'"
  by (auto simp: quiet_def TCPSender_tick_def Let_def split: if_splits list.splits)

lemma run_quiet:
  "sn_is_window_size_0 s \<Longrightarrow> TCPSender_run s ops = Inr (s', W, out) \<Longrightarrow> quiet s s'"
proof (induction ops arbitrary: s s' W out)
  case Nil
  then show ?case by (simp add: quiet_def)
next
  case (Cons x ops)
  have step: "quiet s s'" if "quiet s s1" "TCPSender_run s1 ops = Inr (s', W1, out1)" for s1 W1 out1
    using quiet_trans [OF that(1)] Cons.IH [OF _ that(2)] that(1) by (simp add: quiet_def)
  have same: "quiet s (s\<lparr>sn_stream := bs\<rparr>)" "quiet s (s\<lparr>sn_segments_out := segs\<rparr>)"
      "quiet s (TCPSender_send_empty_segment s)" for bs segs
    using Cons.prems(1) by (simp_all add: quiet_def TCPSender_send_empty_segment_def)
  note q = same fill_window_quiet [OF Cons.prems(1)] ack_received_quiet [OF Cons.prems(1)] tick_quiet [OF Cons.prems(1)]
  show ?case
    using Cons.prems(2) by (cases x)
      (auto simp: result_map_Inr_iff result_bind_Inr_iff split: prod.splits intro: step q)
qed

section \<open>Properties\<close>

text \<open>
  C21. Filling the window: in every state reached with a well-behaved peer, \<open>fill_window\<close>
  never sends beyond the right edge of the window, except that the first segment may
  exceed it by the SYN; and it stops only when the window is full or when everything
  written has been sent, the FIN included if the stream has ended.
\<close>

theorem TCPSender_fill_window_spec:
  assumes "TCPSender_reachable s W"
  shows "let s' = TCPSender_fill_window s;
             edge = unat (sn_recent_abs_ackno s) + unat (sn_window_size s)
         in unat (sn_next_seqno s') \<le> max (unat (sn_next_seqno s)) (edge + of_bool (sn_next_seqno s = 0))
          \<and> sn_is_syn_set s'
          \<and> (edge \<le> unat (sn_next_seqno s')
             \<or> bs_buffer (sn_stream s') = [] \<and> (bs_input_ended (sn_stream s') \<longrightarrow> sn_is_fin_set s'))"
  using TCPSender_reachable_inv [OF assms] fill_window_window(2) fill_window_complete
  unfolding Let_def by blast

text \<open>A reachable state for the witnesses: the SYN is acknowledged with window 3, five bytes are written.\<close>

definition example_sender :: TCPSender where
  "example_sender =
     (let s = TCPSender_fill_window (TCPSender_new 7 100 1000 None);
          s = TCPSender_ack_received s (wrap 1 (sn_isn s)) 3
      in s\<lparr>sn_stream := fst (ByteStream_write (sn_stream s) [1, 2, 3, 4, 5])\<rparr>)"

lemma example_sender_reachable: "TCPSender_reachable example_sender [1, 2, 3, 4, 5]"
proof -
  define s0 where "s0 = TCPSender_fill_window (TCPSender_new 7 100 1000 None)"
  define s1 where "s1 = TCPSender_ack_received s0 (wrap 1 (sn_isn s0)) 3"
  have "TCPSender_reachable s0 []" unfolding s0_def by (intro TCPSender_reachable.intros) simp
  moreover have "sn_recent_abs_ackno s0 = 0" "sn_next_seqno s0 = 1" unfolding s0_def by code_simp+
  ultimately have r1: "TCPSender_reachable s1 []"
    unfolding s1_def using TCPSender_reachable.ack [of s0 "[]" 1 3] by simp
  have n: "snd (ByteStream_write (sn_stream s1) [1, 2, 3, 4, 5]) = 5" unfolding s1_def s0_def by code_simp
  have eq: "example_sender = s1\<lparr>sn_stream := fst (ByteStream_write (sn_stream s1) [1, 2, 3, 4, 5])\<rparr>"
    by (simp add: example_sender_def Let_def s1_def s0_def)
  have "ByteStream_write (sn_stream s1) [1, 2, 3, 4, 5] = (fst (ByteStream_write (sn_stream s1) [1, 2, 3, 4, 5]), 5)"
    using n by (metis prod.collapse)
  from TCPSender_reachable.accept [OF r1 this] show ?thesis unfolding eq by simp
qed

theorem TCPSender_fill_window_spec_witness:
  "unat (sn_next_seqno (TCPSender_fill_window example_sender)) \<le> 4
   \<and> sn_next_seqno (TCPSender_fill_window example_sender) = 4"
proof -
  have "sn_next_seqno example_sender = 1" "sn_recent_abs_ackno example_sender = 1" "sn_window_size example_sender = 3"
      "sn_next_seqno (TCPSender_fill_window example_sender) = 4"
    by code_simp+
  then show ?thesis
    using TCPSender_fill_window_spec [OF example_sender_reachable] by (simp add: Let_def)
qed

text \<open>
  C22. Processing an acknowledgment: in every state reached with a well-behaved peer, an
  acknowledgment of everything before the absolute number \<open>a\<close>, for \<open>a\<close> between the last
  one and the next sequence number, is read back from its 32-bit form as \<open>a\<close>, removes
  exactly the segments that end at or before \<open>a\<close> from the front of the queue, and when it
  acknowledges everything leaves nothing in flight and stops the timer.
\<close>

theorem TCPSender_ack_received_spec:
  assumes "TCPSender_reachable s W"
    and "unat (sn_recent_abs_ackno s) \<le> a" and "a \<le> unat (sn_next_seqno s)"
  shows "let s' = TCPSender_ack_received s (wrap (of_nat a) (sn_isn s)) win;
             base' = unat (sn_next_seqno s) - unat (sn_bytes_in_flight s')
         in unat (sn_recent_abs_ackno s') = a
          \<and> (\<exists>n. sn_outstanding_segments s' = drop n (sn_outstanding_segments s))
          \<and> base' \<le> a
          \<and> (sn_outstanding_segments s' \<noteq> [] \<longrightarrow> a < base' + seq_length (hd (sn_outstanding_segments s')))
          \<and> (a = unat (sn_next_seqno s) \<longrightarrow>
               sn_outstanding_segments s' = [] \<and> sn_bytes_in_flight s' = 0 \<and> \<not> tm_if_run (sn_timer s'))"
proof -
  define q where "q = TCPSender_ack_received s (wrap (of_nat a) (sn_isn s)) win"
  have inv: "TCPSender_inv W s" "TCPSender_window_inv s" using TCPSender_reachable_inv [OF assms(1)] by auto
  note v = ack_received_valid [OF inv assms(2,3), of win, folded q_def]
  have inv': "TCPSender_inv W q" unfolding q_def by (rule ack_received_inv [OF inv(1)])
  note d = TCPSender_invD [OF inv']
  have nx: "sn_next_seqno q = sn_next_seqno s" by (simp add: q_def)
  have sub: "\<exists>n. sn_outstanding_segments q = drop n (sn_outstanding_segments s)"
    unfolding q_def by (rule ack_received_drop)
  have all: "sn_outstanding_segments q = []" if "a = unat (sn_next_seqno s)"
  proof (cases "sn_outstanding_segments q")
    case (Cons seg segs)
    have "sn_base q + seq_length seg \<le> unat (sn_next_seqno q)"
      using in_flight_sum [OF d(4)] by (simp add: Cons)
    with v(3) that Cons nx show ?thesis by simp
  qed
  moreover have "sn_outstanding_segments q = [] \<Longrightarrow> sn_bytes_in_flight q = 0"
    using in_flight_sum [OF d(4)] d(3) by (simp add: unat_eq_zero [symmetric])
  ultimately show ?thesis
    using v(1-3) sub d(5) unfolding q_def [symmetric] Let_def nx by blast
qed

theorem TCPSender_ack_received_spec_witness:
  "sn_outstanding_segments (TCPSender_ack_received (TCPSender_fill_window example_sender) (wrap 4 (WrappingInt32 7)) 3) = []"
proof -
  let ?s = "TCPSender_fill_window example_sender"
  have r: "TCPSender_reachable ?s [1, 2, 3, 4, 5]" by (rule TCPSender_reachable.fill [OF example_sender_reachable])
  have "sn_recent_abs_ackno ?s = 1" "sn_next_seqno ?s = 4" "sn_isn ?s = WrappingInt32 7" by code_simp+
  then show ?thesis
    using TCPSender_ack_received_spec [OF r, of 4 3] by (simp add: Let_def)
qed



text \<open>
  C24. One zero window disables back-off for the rest of the connection: the flag that an
  acknowledgment with window 0 sets is never cleared, so after it, whatever is written,
  acknowledged or timed out, the count of consecutive retransmissions never grows and the
  timeout is never doubled again, however large the later windows are.
\<close>

theorem TCPSender_zero_window_is_forever:
  assumes "TCPSender_run (TCPSender_ack_received s ackno 0) ops = Inr (s', W, out)"
  shows "sn_is_window_size_0 s'
     \<and> sn_consecutive_retransmissions s' \<le> sn_consecutive_retransmissions (TCPSender_ack_received s ackno 0)
     \<and> sn_RTO s' \<in> {sn_RTO (TCPSender_ack_received s ackno 0), sn_initial_retransmission_timeout s}"
proof -
  have "sn_is_window_size_0 (TCPSender_ack_received s ackno 0)"
      "sn_initial_retransmission_timeout (TCPSender_ack_received s ackno 0) = sn_initial_retransmission_timeout s"
    by (simp_all add: TCPSender_ack_received_def Let_def)
  with run_quiet [OF _ assms] show ?thesis by (auto simp: quiet_def)
qed

theorem TCPSender_zero_window_is_forever_witness:
  "let s = TCPSender_ack_received (TCPSender_fill_window example_sender) (WrappingInt32 8) 0;
       s' = fst (projr (TCPSender_run s [Ack (WrappingInt32 8) 1000, Fill, Tick 1000, Tick 1000, Tick 1000]))
   in sn_consecutive_retransmissions s' = 0 \<and> sn_RTO s' = 1000"
proof -
  let ?s = "TCPSender_ack_received (TCPSender_fill_window example_sender) (WrappingInt32 8) 0"
  let ?run = "TCPSender_run ?s [Ack (WrappingInt32 8) 1000, Fill, Tick 1000, Tick 1000, Tick 1000]"
  have "isl ?run = False" by code_simp
  then have run: "?run = Inr (fst (projr ?run), fst (snd (projr ?run)), snd (snd (projr ?run)))"
    by (cases ?run) simp_all
  have "sn_consecutive_retransmissions ?s = 0" "sn_RTO ?s = 1000"
      "sn_initial_retransmission_timeout (TCPSender_fill_window example_sender) = 1000"
    by code_simp+
  with TCPSender_zero_window_is_forever [OF run] show ?thesis by (simp add: Let_def)
qed

text \<open>
  An acknowledgment that cannot be right is believed: whatever the number, the sender
  takes it as the new left edge of the window. A number beyond the next sequence number
  leaves every outstanding segment outstanding but moves the window past them, and an old
  number moves the window back; in the witness a bogus number makes \<open>fill_window\<close> send more
  bytes than the peer's window of 3 allows.
\<close>

theorem TCPSender_believes_every_ackno:
  "let A = unwrap ackno (sn_isn s) (sn_recent_abs_ackno s);
       s' = TCPSender_ack_received s ackno win
   in sn_recent_abs_ackno s' = A
    \<and> (sn_next_seqno s < A \<longrightarrow>
         sn_outstanding_segments s' = sn_outstanding_segments s \<and> sn_bytes_in_flight s' = sn_bytes_in_flight s)"
proof -
  have "TCPSender_pop_acked A segs q = q\<lparr>sn_outstanding_segments := segs\<rparr>" if "sn_next_seqno q < A" for A segs q
    using that by (cases segs) simp_all
  then show ?thesis by (simp add: TCPSender_ack_received_def Let_def)
qed

theorem TCPSender_believes_every_ackno_witness:
  "let s = TCPSender_ack_received (TCPSender_fill_window example_sender) (WrappingInt32 1007) 3;
       s' = TCPSender_fill_window s
   in sn_recent_abs_ackno s = 1000 \<and> sn_bytes_in_flight s = 3 \<and> sn_bytes_in_flight s' = 5"
proof -
  let ?s = "TCPSender_fill_window example_sender"
  have "unwrap (WrappingInt32 1007) (sn_isn ?s) (sn_recent_abs_ackno ?s) = 1000" "sn_next_seqno ?s < 1000"
      "sn_bytes_in_flight ?s = 3"
      "sn_bytes_in_flight (TCPSender_fill_window (TCPSender_ack_received ?s (WrappingInt32 1007) 3)) = 5"
    by code_simp+
  with TCPSender_believes_every_ackno [of "WrappingInt32 1007" ?s 3] show ?thesis by (simp add: Let_def)
qed

end
