(* ===== verification/Std_Map.thy ===== *)
theory Std_Map
  imports Prelude
begin

text \<open>
  \<open>std::map\<close> as the sources use it: the reassembler keeps unassembled bytes in one, the
  network interface its address cache. The model is the sequence of entries in iteration
  order, that is, strictly increasing in the key; assignment through \<open>operator[]\<close> puts an
  entry at its place, and a loop with \<open>erase\<close> walks the sequence.
\<close>

section \<open>Operations\<close>

type_synonym ('k, 'v) std_map = "('k \<times> 'v) list"

fun std_map_put :: "'k::linorder \<Rightarrow> 'v \<Rightarrow> ('k, 'v) std_map \<Rightarrow> ('k, 'v) std_map" where
  "std_map_put k v [] = [(k, v)]"
| "std_map_put k v (e # m) =
     (if k < fst e then (k, v) # e # m
      else if k = fst e then (k, v) # m
      else e # std_map_put k v m)"

definition std_map_find :: "('k, 'v) std_map \<Rightarrow> 'k \<Rightarrow> 'v option" where
  "std_map_find m k = map_of m k"

definition std_map_inv :: "('k::linorder, 'v) std_map \<Rightarrow> bool" where
  "std_map_inv m \<longleftrightarrow> sorted_wrt (<) (map fst m)"

section \<open>What a client of an ordered map relies on\<close>

locale map_interface =
  fixes put :: "'k \<Rightarrow> 'v \<Rightarrow> 'm \<Rightarrow> 'm"
    and find :: "'m \<Rightarrow> 'k \<Rightarrow> 'v option"
    and items :: "'m \<Rightarrow> ('k \<times> 'v) list"
    and invar :: "'m \<Rightarrow> bool"
  assumes find_put: "invar m \<Longrightarrow> find (put k v m) = (find m)(k \<mapsto> v)"
    and invar_put: "invar m \<Longrightarrow> invar (put k v m)"
    and items_find: "invar m \<Longrightarrow> (k, v) \<in> set (items m) \<longleftrightarrow> find m k = Some v"
    and items_distinct: "invar m \<Longrightarrow> distinct (map fst (items m))"
begin

lemma dom_put: "invar m \<Longrightarrow> dom (find (put k v m)) = insert k (dom (find m))"
  by (simp add: find_put)

lemma dom_items: "invar m \<Longrightarrow> dom (find m) = fst ` set (items m)"
  by (force simp: items_find [symmetric])

lemma finite_dom: "invar m \<Longrightarrow> finite (dom (find m))"
  by (simp add: dom_items)

lemma length_items: "invar m \<Longrightarrow> length (items m) = card (dom (find m))"
  using items_distinct [of m] distinct_card [of "map fst (items m)"] by (simp add: dom_items)

lemma length_put:
  assumes "invar m"
  shows "length (items (put k v m)) = (if find m k = None then Suc (length (items m)) else length (items m))"
proof -
  have "length (items (put k v m)) = card (insert k (dom (find m)))"
    using assms by (simp add: length_items [OF invar_put] dom_put)
  then show ?thesis
    using assms finite_dom [OF assms] by (auto simp: length_items card_insert_if domIff)
qed

end

section \<open>The sequence model provides it\<close>

lemma std_map_put_fst: "fst ` set (std_map_put k v m) = insert k (fst ` set m)"
  by (induction m) auto

lemma std_map_inv_Nil [simp]: "std_map_inv []"
  by (simp add: std_map_inv_def)

lemma std_map_inv_Cons:
  "std_map_inv (e # m) \<longleftrightarrow> (\<forall>x\<in>fst ` set m. fst e < x) \<and> std_map_inv m"
  by (auto simp: std_map_inv_def)

lemma std_map_inv_put: "std_map_inv m \<Longrightarrow> std_map_inv (std_map_put k v m)"
proof (induction m)
  case Nil
  then show ?case by (simp add: std_map_inv_Cons)
next
  case (Cons e m)
  then show ?case by (auto simp: std_map_inv_Cons std_map_put_fst)
qed

lemma std_map_find_put: "std_map_inv m \<Longrightarrow> std_map_find (std_map_put k v m) = (std_map_find m)(k \<mapsto> v)"
proof (induction m)
  case Nil
  then show ?case by (simp add: std_map_find_def fun_eq_iff)
next
  case (Cons e m)
  then show ?case by (cases e) (auto simp: std_map_find_def std_map_inv_Cons fun_eq_iff)
qed

lemma std_map_inv_distinct: "std_map_inv m \<Longrightarrow> distinct (map fst m)"
  by (simp add: std_map_inv_def strict_sorted_iff)

interpretation smap: map_interface std_map_put std_map_find "\<lambda>m. m" std_map_inv
proof (unfold_locales, goal_cases)
  case (1 m k v)
  then show ?case by (rule std_map_find_put)
next
  case (2 m k v)
  then show ?case by (rule std_map_inv_put)
next
  case (3 m k v)
  then show ?case
    by (simp add: std_map_find_def std_map_inv_distinct)
next
  case (4 m)
  then show ?case by (rule std_map_inv_distinct)
qed

lemma std_map_inv_filter: "std_map_inv m \<Longrightarrow> std_map_inv (filter P m)"
  by (simp add: std_map_inv_def sorted_wrt_map sorted_wrt_filter)

lemma std_map_inv_drop: "std_map_inv m \<Longrightarrow> std_map_inv (drop n m)"
  by (simp add: std_map_inv_def drop_map [symmetric] sorted_wrt_drop)

lemma std_map_inv_filter_keys:
  assumes "std_map_inv m"
  shows "std_map_inv (map (\<lambda>(k, v). (k, f k v)) (filter P m))"
proof -
  have "sorted_wrt (\<lambda>x y. fst x < fst y) (filter P m)"
    using assms by (intro sorted_wrt_filter) (simp add: std_map_inv_def sorted_wrt_map)
  then show ?thesis
    by (simp add: std_map_inv_def sorted_wrt_map case_prod_beta)
qed

end
