(* ===== verification/Stream_Reassembler.thy ===== *)
theory Stream_Reassembler
  imports Byte_Stream Std_Map
begin

text \<open>
  The reassembler of \<open>libsponge/stream_reassembler.hh\<close> and \<open>stream_reassembler.cc\<close>: it
  accepts excerpts of one logical stream in any order, keeps the bytes that cannot be
  written yet in an ordered map from stream index to byte, and writes every contiguous
  run to its output stream. The definitions follow \<open>push_substring\<close> loop by loop.
\<close>

section \<open>State and operations\<close>

type_synonym unassembled = "(size_t, byte) std_map"

record StreamReassembler =
  sr_output :: ByteStream
  sr_capacity :: size_t
  sr_unassembled :: unassembled
  sr_unassembled_bytes :: size_t
  sr_if_eof :: bool
  sr_next_index :: size_t

definition StreamReassembler_new :: "size_t \<Rightarrow> StreamReassembler" where
  "StreamReassembler_new capacity =
     \<lparr>sr_output = ByteStream_new capacity, sr_capacity = capacity, sr_unassembled = [],
      sr_unassembled_bytes = 0, sr_if_eof = False, sr_next_index = 0\<rparr>"

text \<open>
  The part of the data that is kept: the front that was already assembled is cut off,
  data that starts at or after the right end of the window is dropped, and what is left
  is cut to the size of the window.
\<close>

definition StreamReassembler_slice ::
  "StreamReassembler \<Rightarrow> bytes \<Rightarrow> size_t \<Rightarrow> size_t \<times> bytes" where
  "StreamReassembler_slice r data index =
     (let remaining_capacity = sr_capacity r - ByteStream_buffer_size (sr_output r);
          right_end_window = sr_next_index r + remaining_capacity;
          start_index = (if index < sr_next_index r then sr_next_index r else index);
          subdata =
            (if index < sr_next_index r then
               (if start_index - index < list_size data then drop (unat (start_index - index)) data
                else [])
             else if right_end_window \<le> start_index then [] else data)
      in (start_index,
          if remaining_capacity < list_size subdata then take (unat remaining_capacity) subdata
          else subdata))"

text \<open>The loop that stores the kept bytes, one map entry per byte.\<close>

fun StreamReassembler_insert ::
  "size_t \<Rightarrow> size_t \<Rightarrow> bytes \<Rightarrow> unassembled \<times> size_t \<Rightarrow> unassembled \<times> size_t" where
  "StreamReassembler_insert cap k [] st = st"
| "StreamReassembler_insert cap k (c # cs) (m, ub) =
     (if list_size m \<le> cap
      then StreamReassembler_insert cap (k + 1) cs
             (std_map_put k c m, if std_map_find m k = None then ub + 1 else ub)
      else StreamReassembler_insert cap (k + 1) cs (m, ub))"

text \<open>
  The loop over the map that moves contiguous bytes to \<open>assembled\<close>. Its state is the next
  index, the number of unassembled bytes, the number of assembled bytes and the string
  built so far; it returns the entries that were not erased.
\<close>

fun StreamReassembler_assemble ::
  "size_t \<Rightarrow> unassembled \<Rightarrow> size_t \<times> size_t \<times> size_t \<times> bytes \<Rightarrow>
   unassembled \<times> size_t \<times> size_t \<times> size_t \<times> bytes" where
  "StreamReassembler_assemble cap [] (next, ub, ab, out) = ([], next, ub, ab, out)"
| "StreamReassembler_assemble cap (e # m) (next, ub, ab, out) =
     (if fst e = next \<and> ab < cap
      then StreamReassembler_assemble cap m (next + 1, ub - 1, ab + 1, out @ [snd e])
      else
        let (kept, st) = StreamReassembler_assemble cap m (next, ub, ab, out)
        in (e # kept, st))"

definition StreamReassembler_push_substring ::
  "StreamReassembler \<Rightarrow> bytes \<Rightarrow> size_t \<Rightarrow> bool \<Rightarrow> StreamReassembler" where
  "StreamReassembler_push_substring r data index eof =
     (let if_eof = (if eof then True else sr_if_eof r);
          (start_index, subdata) = StreamReassembler_slice r data index;
          (m, ub) = StreamReassembler_insert (sr_capacity r) start_index subdata
                      (sr_unassembled r, sr_unassembled_bytes r);
          (m', next_index, ub', _, assembled) =
             StreamReassembler_assemble (sr_capacity r) m
               (sr_next_index r, ub, ByteStream_buffer_size (sr_output r), []);
          output = fst (ByteStream_write (sr_output r) assembled);
          output' = (if if_eof \<and> ub' = 0 then ByteStream_end_input output else output)
      in r\<lparr>sr_output := output', sr_unassembled := m', sr_unassembled_bytes := ub',
           sr_if_eof := if_eof, sr_next_index := next_index\<rparr>)"

definition StreamReassembler_empty :: "StreamReassembler \<Rightarrow> bool" where
  "StreamReassembler_empty r \<longleftrightarrow> list_size (sr_unassembled r) = 0"

text \<open>\<open>stream_out()\<close>, \<open>unassembled_bytes()\<close> and \<open>get_next_index()\<close> return members:
  they are the selectors \<open>sr_output\<close>, \<open>sr_unassembled_bytes\<close> and \<open>sr_next_index\<close>.\<close>

section \<open>The insertion loop\<close>

text \<open>A map whose keys come from the stream \<open>S\<close>, none below \<open>lo\<close>.\<close>

definition holds_stream :: "bytes \<Rightarrow> nat \<Rightarrow> unassembled \<Rightarrow> bool" where
  "holds_stream S lo m \<longleftrightarrow>
     std_map_inv m \<and> (\<forall>k c. (k, c) \<in> set m \<longrightarrow> lo \<le> unat k \<and> unat k < length S \<and> S ! unat k = c)"

lemma holds_stream_find:
  "holds_stream S lo m \<longleftrightarrow>
     std_map_inv m \<and>
     (\<forall>k c. std_map_find m k = Some c \<longrightarrow> lo \<le> unat k \<and> unat k < length S \<and> S ! unat k = c)"
  by (auto simp: holds_stream_def smap.items_find)

lemma holds_stream_put:
  assumes "holds_stream S lo m" and "lo \<le> unat k" "unat k < length S" "S ! unat k = c"
  shows "holds_stream S lo (std_map_put k c m)"
  using assms by (auto simp: holds_stream_find smap.invar_put smap.find_put)

lemma unat_Suc_word:
  assumes "unat (k :: size_t) + 1 < 2 ^ 64"
  shows "unat (k + 1) = unat k + 1"
  using assms by (simp add: unat_word_ariths)

lemma insert_holds_stream:
  assumes "holds_stream S lo m" and "excerpt_at S (unat k) cs" and "lo \<le> unat k"
    and "length S + 1 < 2 ^ 64"
  shows "holds_stream S lo (fst (StreamReassembler_insert cap k cs (m, ub)))"
  using assms
proof (induction cs arbitrary: k m ub)
  case Nil
  then show ?case by simp
next
  case (Cons c cs)
  from excerpt_at_Cons [OF Cons.prems(2)]
  have k: "unat k < length S" "S ! unat k = c" and ex: "excerpt_at S (Suc (unat k)) cs" by auto
  have suc: "unat (k + 1) = Suc (unat k)"
    using unat_Suc_word [of k] k Cons.prems(4) by simp
  show ?case
    using Cons.IH [of _ "k + 1"] Cons.prems k ex suc
    by (simp add: holds_stream_put)
qed

lemma insert_accounting:
  assumes "std_map_inv m" and "StreamReassembler_insert cap k cs (m, list_size m) = (m', ub')"
  shows "ub' = list_size m' \<and> std_map_inv m'"
  using assms
proof (induction cs arbitrary: k m)
  case Nil
  then show ?case by auto
next
  case (Cons c cs)
  have sz: "(if std_map_find m k = None then list_size m + 1 else list_size m) = list_size (std_map_put k c m)"
    using smap.length_put [OF Cons.prems(1), of k c] by (simp add: list_size_def)
  show ?case
  proof (cases "list_size m \<le> cap")
    case True
    with Cons.prems(2) sz
    have "StreamReassembler_insert cap (k + 1) cs (std_map_put k c m, list_size (std_map_put k c m)) = (m', ub')"
      by simp
    then show ?thesis by (rule Cons.IH [OF smap.invar_put [OF Cons.prems(1)]])
  next
    case False
    with Cons.prems show ?thesis using Cons.IH [of m "k + 1"] by simp
  qed
qed

lemma insert_bound:
  assumes "std_map_inv m" and "length m \<le> Suc (unat cap)" and "unat cap + 1 < 2 ^ 64"
  shows "length (fst (StreamReassembler_insert cap k cs (m, ub))) \<le> Suc (unat cap)"
  using assms
proof (induction cs arbitrary: k m ub)
  case Nil
  then show ?case by simp
next
  case (Cons c cs)
  have "list_size m \<le> cap \<longleftrightarrow> length m \<le> unat cap"
    using Cons.prems by (simp add: word_le_nat_alt unat_list_size)
  then show ?case
    using Cons.IH Cons.prems smap.length_put [OF Cons.prems(1), of k c]
    by (simp add: smap.invar_put)
qed

definition key_set :: "unassembled \<Rightarrow> nat set" where
  "key_set m = unat ` fst ` set m"

lemma key_set_put: "key_set (std_map_put k c m) = insert (unat k) (key_set m)"
  by (simp add: key_set_def std_map_put_fst)

lemma card_key_set: "std_map_inv m \<Longrightarrow> card (key_set m) = length m"
proof -
  assume "std_map_inv m"
  then have "card (fst ` set m) = length m"
    using smap.items_distinct [of m] distinct_card [of "map fst m"] by simp
  moreover have "inj_on unat (fst ` set m)"
    by (auto intro!: inj_onI simp: word_unat_eq_iff)
  ultimately show ?thesis
    by (simp add: key_set_def card_image)
qed

lemma finite_key_set [simp]: "finite (key_set m)"
  by (simp add: key_set_def)

lemma insert_key_set_subset:
  assumes "unat k + length cs < 2 ^ 64"
  shows "key_set (fst (StreamReassembler_insert cap k cs (m, ub))) \<subseteq> key_set m \<union> {unat k..<unat k + length cs}
       \<and> key_set m \<subseteq> key_set (fst (StreamReassembler_insert cap k cs (m, ub)))"
  using assms
proof (induction cs arbitrary: k m ub)
  case Nil
  then show ?case by simp
next
  case (Cons c cs)
  have suc: "unat (k + 1) = Suc (unat k)"
    using unat_Suc_word [of k] Cons.prems by simp
  show ?case
    using Cons.IH [of "k + 1" "std_map_put k c m" "if std_map_find m k = None then ub + 1 else ub"]
      Cons.IH [of "k + 1" m ub] Cons.prems
    by (auto simp: suc key_set_put)
qed

lemma insert_key_set:
  assumes "unat k + length cs < 2 ^ 64" and "std_map_inv m" and "unat cap + 1 < 2 ^ 64"
    and "card (key_set m \<union> {unat k..<unat k + length cs}) \<le> unat cap"
  shows "key_set (fst (StreamReassembler_insert cap k cs (m, ub))) = key_set m \<union> {unat k..<unat k + length cs}"
  using assms
proof (induction cs arbitrary: k m ub)
  case Nil
  then show ?case by simp
next
  case (Cons c cs)
  have suc: "unat (k + 1) = Suc (unat k)"
    using unat_Suc_word [of k] Cons.prems by simp
  have split: "insert (unat k) (key_set m) \<union> {Suc (unat k)..<Suc (unat k) + length cs}
      = key_set m \<union> {unat k..<unat k + length (c # cs)}"
    by auto
  have "length m \<le> card (key_set m \<union> {unat k..<unat k + length (c # cs)})"
    unfolding card_key_set [OF Cons.prems(2), symmetric] by (rule card_mono) auto
  then have len: "length m \<le> unat cap" using Cons.prems(4) by simp
  then have "unat (list_size m) = length m"
    using Cons.prems(3) by (intro unat_list_size) simp
  with len have sz: "list_size m \<le> cap" by (simp add: word_le_nat_alt)
  have "key_set (fst (StreamReassembler_insert cap (k + 1) cs (std_map_put k c m, ub'))) =
      key_set (std_map_put k c m) \<union> {unat (k + 1)..<unat (k + 1) + length cs}" for ub'
    using Cons.prems split
    by (intro Cons.IH) (simp_all add: suc smap.invar_put key_set_put)
  with sz split show ?case by (simp add: suc key_set_put)
qed

lemma insert_first:
  assumes "unat k + length (c # cs) < 2 ^ 64" and "list_size m \<le> cap"
  shows "unat k \<in> key_set (fst (StreamReassembler_insert cap k (c # cs) (m, ub)))"
proof -
  have "unat (k + 1) + length cs < 2 ^ 64"
    using unat_Suc_word [of k] assms(1) by simp
  from insert_key_set_subset [OF this, of cap "std_map_put k c m"] assms(2)
  show ?thesis by (auto simp: key_set_put)
qed

section \<open>The assembly loop\<close>

fun run_length :: "unassembled \<Rightarrow> size_t \<Rightarrow> nat \<Rightarrow> nat" where
  "run_length (e # m) k (Suc r) = (if fst e = k then Suc (run_length m (k + 1) r) else 0)"
| "run_length _ _ _ = 0"

lemma assemble_none:
  "(\<forall>e\<in>set m. fst e \<noteq> nx) \<or> \<not> ab < cap \<Longrightarrow>
   StreamReassembler_assemble cap m (nx, ub, ab, out) = (m, nx, ub, ab, out)"
  by (induction m) auto

lemma assemble_eq:
  assumes "std_map_inv m" and "\<forall>e\<in>set m. nx \<le> fst e" and "unat ab + r = unat cap"
  shows "StreamReassembler_assemble cap m (nx, ub, ab, out) =
     (let n = run_length m nx r
      in (drop n m, nx + of_nat n, ub - of_nat n, ab + of_nat n, out @ map snd (take n m)))"
  using assms
proof (induction m nx r arbitrary: ub ab out rule: run_length.induct)
  case (1 e m k r)
  have ab: "ab < cap" "unat (ab + 1) + r = unat cap"
    using "1.prems"(3) unat_u64_less [of cap]
    by (simp_all add: word_less_nat_alt unat_word_ariths)
  show ?case
  proof (cases "fst e = k")
    case True
    have "k + 1 \<le> fst x" if "x \<in> set m" for x
      using that "1.prems"(1) True by (auto simp: std_map_inv_Cons intro!: inc_le)
    then have "StreamReassembler_assemble cap m (k + 1, ub - 1, ab + 1, out @ [snd e]) =
       (let n = run_length m (k + 1) r
        in (drop n m, k + 1 + of_nat n, ub - 1 - of_nat n, ab + 1 + of_nat n,
            (out @ [snd e]) @ map snd (take n m)))"
      using "1.prems"(1) True ab by (intro "1.IH") (auto simp: std_map_inv_Cons)
    with True ab show ?thesis by (simp add: Let_def algebra_simps)
  next
    case False
    then have "\<forall>x\<in>set (e # m). fst x \<noteq> k"
      using "1.prems"(1,2) by (fastforce simp: std_map_inv_Cons)
    with False show ?thesis
      by (subst assemble_none) auto
  qed
next
  case "2_1"
  then show ?case by simp
next
  case "2_2"
  then have "\<not> ab < cap" by (simp add: word_less_nat_alt)
  then show ?case by (subst assemble_none) auto
qed

lemma holds_stream_Cons:
  "holds_stream S lo (e # m) \<longleftrightarrow>
     lo \<le> unat (fst e) \<and> unat (fst e) < length S \<and> S ! unat (fst e) = snd e
     \<and> holds_stream S (Suc (unat (fst e))) m \<and> holds_stream S lo m"
proof -
  have "(\<forall>x\<in>fst ` set m. fst e < x) \<longleftrightarrow> (\<forall>k c. (k, c) \<in> set m \<longrightarrow> Suc (unat (fst e)) \<le> unat k)"
    by (force simp: word_less_nat_alt)
  then show ?thesis
    by (cases e) (auto simp: holds_stream_def std_map_inv_Cons)
qed

lemma run_length_le: "run_length m k r \<le> r \<and> run_length m k r \<le> length m"
  by (induction m k r rule: run_length.induct) auto

lemma run_length_facts:
  assumes "holds_stream S (unat k) m" and "length S + 1 < 2 ^ 64" and "unat k \<le> length S"
    and "n = run_length m k r"
  shows "map snd (take n m) = take n (drop (unat k) S) \<and> unat k + n \<le> length S
       \<and> {unat k..<unat k + n} \<subseteq> key_set m
       \<and> (n = r \<or> unat k + n \<notin> key_set m)
       \<and> key_set (drop n m) = {i \<in> key_set m. unat k + n \<le> i}"
  using assms
proof (induction m k r arbitrary: n rule: run_length.induct)
  case (1 e m k r)
  from "1.prems"(1) have e: "unat k \<le> unat (fst e)" "unat (fst e) < length S" "S ! unat (fst e) = snd e"
    and m: "holds_stream S (Suc (unat (fst e))) m" "holds_stream S (unat k) m"
    by (simp_all add: holds_stream_Cons)
  have above: "Suc (unat (fst e)) \<le> i" if "i \<in> key_set m" for i
    using that m(1) by (auto simp: holds_stream_def key_set_def)
  have ks: "key_set (e # m) = insert (unat (fst e)) (key_set m)"
    by (simp add: key_set_def)
  show ?case
  proof (cases "fst e = k")
    case True
    define n' where "n' = run_length m (k + 1) r"
    have suc: "unat (k + 1) = Suc (unat k)"
      using unat_Suc_word [of k] e(2) True "1.prems"(2) by simp
    have IH: "map snd (take n' m) = take n' (drop (unat (k + 1)) S) \<and> unat (k + 1) + n' \<le> length S
       \<and> {unat (k + 1)..<unat (k + 1) + n'} \<subseteq> key_set m
       \<and> (n' = r \<or> unat (k + 1) + n' \<notin> key_set m)
       \<and> key_set (drop n' m) = {i \<in> key_set m. unat (k + 1) + n' \<le> i}"
      using m(1) e True "1.prems"(2) suc by (intro "1.IH") (simp_all add: n'_def)
    have n: "n = Suc n'" using "1.prems"(4) True by (simp add: n'_def)
    have dr: "drop (unat k) S = snd e # drop (Suc (unat k)) S"
      using e True by (metis Cons_nth_drop_Suc)
    have rng: "{unat k..<unat k + Suc n'} = insert (unat k) {Suc (unat k)..<Suc (unat k) + n'}"
      by auto
    show ?thesis
      using IH unfolding n ks suc rng True by (auto simp: dr)
  next
    case False
    have "unat k \<noteq> unat (fst e)" using False by (simp add: word_unat_eq_iff)
    with e(1) have lt: "unat k < unat (fst e)" by simp
    have "n = 0" using "1.prems"(4) False by simp
    moreover have "unat k < i" if "i \<in> key_set (e # m)" for i
      using that lt above [of i] unfolding ks by auto
    ultimately show ?thesis using "1.prems"(3) by (auto dest: less_imp_le)
  qed
next
  case "2_1"
  then show ?case by (simp add: key_set_def)
next
  case "2_2"
  then show ?case
    by (auto simp: holds_stream_def key_set_def)
qed

section \<open>One push\<close>

text \<open>The reassembler is fed excerpts of \<open>S\<close>; an empty excerpt may carry any index.\<close>

definition consistent :: "bytes \<Rightarrow> bytes \<Rightarrow> size_t \<Rightarrow> bool" where
  "consistent S data index \<longleftrightarrow> data = [] \<or> excerpt_at S (unat index) data"

definition StreamReassembler_inv :: "bytes \<Rightarrow> StreamReassembler \<Rightarrow> bool" where
  "StreamReassembler_inv S r \<longleftrightarrow>
     length S + 2 ^ 32 \<le> 2 ^ 64
     \<and> ByteStream_inv (sr_output r) \<and> bs_capacity (sr_output r) = sr_capacity r
     \<and> unat (sr_next_index r) \<le> length S
     \<and> holds_stream S (unat (sr_next_index r)) (sr_unassembled r)
     \<and> sr_unassembled_bytes r = list_size (sr_unassembled r)
     \<and> length (sr_unassembled r) \<le> Suc (unat (sr_capacity r))"

text \<open>The free space of the output stream: the width of the window.\<close>

definition sr_room :: "StreamReassembler \<Rightarrow> nat" where
  "sr_room r = unat (sr_capacity r) - length (bs_buffer (sr_output r))"

lemma sr_remaining:
  assumes "StreamReassembler_inv S r"
  shows "unat (sr_capacity r - ByteStream_buffer_size (sr_output r)) = sr_room r"
    and "unat (ByteStream_buffer_size (sr_output r)) + sr_room r = unat (sr_capacity r)"
proof -
  have bs: "ByteStream_inv (sr_output r)" "bs_capacity (sr_output r) = sr_capacity r"
    using assms by (simp_all add: StreamReassembler_inv_def)
  from remaining_capacity_unat [OF bs(1)] bs(2)
  show "unat (sr_capacity r - ByteStream_buffer_size (sr_output r)) = sr_room r"
    by (simp add: ByteStream_remaining_capacity_def ByteStream_buffer_size_def sr_room_def)
  have "unat (list_size (bs_buffer (sr_output r))) = length (bs_buffer (sr_output r))"
    using bs by (intro unat_list_size) (auto simp: ByteStream_inv_def)
  then show "unat (ByteStream_buffer_size (sr_output r)) + sr_room r = unat (sr_capacity r)"
    using bs by (simp add: ByteStream_buffer_size_def sr_room_def ByteStream_inv_def)
qed

lemma slice_excerpt:
  assumes "StreamReassembler_inv S r" and "consistent S data index"
    and "StreamReassembler_slice r data index = (start, sub)"
  shows "sub = [] \<or> (excerpt_at S (unat start) sub \<and> unat (sr_next_index r) \<le> unat start)"
proof (cases "data = []")
  case True
  then show ?thesis
    using assms(3) by (auto simp: StreamReassembler_slice_def Let_def split: if_splits)
next
  case False
  with assms(2) have ex: "excerpt_at S (unat index) data" by (simp add: consistent_def)
  then have len: "length data < 2 ^ 64"
    using assms(1) by (simp add: excerpt_at_def StreamReassembler_inv_def)
  show ?thesis
  proof (cases "index < sr_next_index r")
    case lt: True
    have diff: "unat (sr_next_index r - index) = unat (sr_next_index r) - unat index"
      using lt by (intro unat_sub) simp
    have start: "start = sr_next_index r"
      using assms(3) lt by (simp add: StreamReassembler_slice_def Let_def)
    show ?thesis
    proof (cases "sr_next_index r - index < list_size data")
      case short: True
      then have "unat (sr_next_index r) - unat index < length data"
        by (simp add: word_less_nat_alt unat_list_size [OF len] diff)
      then have "excerpt_at S (unat (sr_next_index r)) (drop (unat (sr_next_index r - index)) data)"
        using excerpt_at_drop [OF ex, of "unat (sr_next_index r) - unat index"] lt
        by (simp add: diff word_less_nat_alt)
      then show ?thesis
        using assms(3) lt short
        by (auto simp: StreamReassembler_slice_def Let_def excerpt_at_take split: if_splits)
    next
      case False
      then show ?thesis
        using assms(3) lt by (auto simp: StreamReassembler_slice_def Let_def)
    qed
  next
    case ge: False
    then show ?thesis
      using assms(3) ex
      by (auto simp: StreamReassembler_slice_def Let_def excerpt_at_take word_le_nat_alt word_less_nat_alt
          split: if_splits)
  qed
qed

lemma push_substring_steps:
  assumes inv: "StreamReassembler_inv S r" and con: "consistent S data index"
    and slice: "StreamReassembler_slice r data index = (start, sub)"
  defines "m1 \<equiv> fst (StreamReassembler_insert (sr_capacity r) start sub
                      (sr_unassembled r, sr_unassembled_bytes r))"
  defines "n \<equiv> run_length m1 (sr_next_index r) (sr_room r)"
  shows "holds_stream S (unat (sr_next_index r)) m1"
    and "length m1 \<le> Suc (unat (sr_capacity r))"
    and "StreamReassembler_push_substring r data index eof =
       (let ended = ((eof \<or> sr_if_eof r) \<and> list_size (drop n m1) = 0);
            output = fst (ByteStream_write (sr_output r) (take n (drop (unat (sr_next_index r)) S)))
        in r\<lparr>sr_output := if ended then ByteStream_end_input output else output,
             sr_unassembled := drop n m1, sr_unassembled_bytes := list_size (drop n m1),
             sr_if_eof := eof \<or> sr_if_eof r, sr_next_index := sr_next_index r + of_nat n\<rparr>)"
proof -
  let ?k = "sr_next_index r" and ?cap = "sr_capacity r"
  have S: "length S + 1 < 2 ^ 64" and hs: "holds_stream S (unat ?k) (sr_unassembled r)"
    and ub: "sr_unassembled_bytes r = list_size (sr_unassembled r)"
    and k: "unat ?k \<le> length S" and cap: "unat ?cap < 2 ^ 31"
    and len: "length (sr_unassembled r) \<le> Suc (unat ?cap)"
    using inv by (auto simp: StreamReassembler_inv_def ByteStream_inv_def)
  have minv: "std_map_inv (sr_unassembled r)" using hs by (simp add: holds_stream_def)
  show h1: "holds_stream S (unat ?k) m1"
    using slice_excerpt [OF inv con slice] hs S
    by (auto simp: m1_def intro: insert_holds_stream)
  show "length m1 \<le> Suc (unat ?cap)"
    unfolding m1_def using minv len cap by (intro insert_bound) simp_all
  obtain ub1 where ins: "StreamReassembler_insert ?cap start sub (sr_unassembled r, sr_unassembled_bytes r) = (m1, ub1)"
    unfolding m1_def by (metis prod.collapse)
  have m1inv: "std_map_inv m1" and ub1: "ub1 = list_size m1"
    using insert_accounting [OF minv ins [unfolded ub]] by auto
  have ge: "\<forall>e\<in>set m1. ?k \<le> fst e"
    using h1 by (auto simp: holds_stream_def word_le_nat_alt)
  have n: "n \<le> length m1" by (simp add: n_def run_length_le)
  have asm: "StreamReassembler_assemble ?cap m1 (?k, ub1, ByteStream_buffer_size (sr_output r), []) =
      (drop n m1, ?k + of_nat n, ub1 - of_nat n, ByteStream_buffer_size (sr_output r) + of_nat n,
       map snd (take n m1))"
    using assemble_eq [OF m1inv ge sr_remaining(2) [OF inv], of ub1 "[]"]
    by (simp add: n_def Let_def)
  have out: "map snd (take n m1) = take n (drop (unat ?k) S)"
    using run_length_facts [OF h1 S k] by (simp add: n_def)
  have ub2: "ub1 - of_nat n = list_size (drop n m1)"
    using n by (simp add: ub1 list_size_def)
  show "StreamReassembler_push_substring r data index eof =
       (let ended = ((eof \<or> sr_if_eof r) \<and> list_size (drop n m1) = 0);
            output = fst (ByteStream_write (sr_output r) (take n (drop (unat ?k) S)))
        in r\<lparr>sr_output := if ended then ByteStream_end_input output else output,
             sr_unassembled := drop n m1, sr_unassembled_bytes := list_size (drop n m1),
             sr_if_eof := eof \<or> sr_if_eof r, sr_next_index := ?k + of_nat n\<rparr>)"
    unfolding StreamReassembler_push_substring_def slice
    by (simp add: Let_def ins asm out ub2)
qed

text \<open>How far one push advances the next index.\<close>

definition push_advance :: "StreamReassembler \<Rightarrow> bytes \<Rightarrow> size_t \<Rightarrow> nat" where
  "push_advance r data index =
     (let (start, sub) = StreamReassembler_slice r data index
      in run_length (fst (StreamReassembler_insert (sr_capacity r) start sub
                            (sr_unassembled r, sr_unassembled_bytes r)))
           (sr_next_index r) (sr_room r))"

text \<open>The map after the insertion loop of a push.\<close>

definition push_stored :: "StreamReassembler \<Rightarrow> bytes \<Rightarrow> size_t \<Rightarrow> unassembled" where
  "push_stored r data index =
     (let (start, sub) = StreamReassembler_slice r data index
      in fst (StreamReassembler_insert (sr_capacity r) start sub
                (sr_unassembled r, sr_unassembled_bytes r)))"

lemma push_advance_stored:
  "push_advance r data index = run_length (push_stored r data index) (sr_next_index r) (sr_room r)"
  by (simp add: push_advance_def push_stored_def case_prod_beta Let_def)

lemma push_facts:
  assumes inv: "StreamReassembler_inv S r" and con: "consistent S data index"
  defines "n \<equiv> push_advance r data index" and "m1 \<equiv> push_stored r data index"
  shows "holds_stream S (unat (sr_next_index r)) m1" "length m1 \<le> Suc (unat (sr_capacity r))"
    and "StreamReassembler_push_substring r data index eof =
       (let ended = ((eof \<or> sr_if_eof r) \<and> list_size (drop n m1) = 0);
            output = fst (ByteStream_write (sr_output r) (take n (drop (unat (sr_next_index r)) S)))
        in r\<lparr>sr_output := if ended then ByteStream_end_input output else output,
             sr_unassembled := drop n m1, sr_unassembled_bytes := list_size (drop n m1),
             sr_if_eof := eof \<or> sr_if_eof r, sr_next_index := sr_next_index r + of_nat n\<rparr>)"
    and "n \<le> sr_room r" "unat (sr_next_index r) + n \<le> length S"
    and "unat (sr_next_index r + of_nat n) = unat (sr_next_index r) + n"
proof -
  obtain start sub where sl: "StreamReassembler_slice r data index = (start, sub)" by fastforce
  have S: "length S + 1 < 2 ^ 64" "unat (sr_next_index r) \<le> length S"
    using inv by (auto simp: StreamReassembler_inv_def)
  note steps = push_substring_steps [OF inv con sl]
  have m1: "m1 = fst (StreamReassembler_insert (sr_capacity r) start sub
                (sr_unassembled r, sr_unassembled_bytes r))"
    by (simp add: m1_def push_stored_def sl)
  have n: "n = run_length m1 (sr_next_index r) (sr_room r)"
    by (simp add: n_def m1_def push_advance_stored)
  show hs: "holds_stream S (unat (sr_next_index r)) m1" "length m1 \<le> Suc (unat (sr_capacity r))"
    using steps(1,2) by (simp_all only: m1)
  show "StreamReassembler_push_substring r data index eof =
       (let ended = ((eof \<or> sr_if_eof r) \<and> list_size (drop n m1) = 0);
            output = fst (ByteStream_write (sr_output r) (take n (drop (unat (sr_next_index r)) S)))
        in r\<lparr>sr_output := if ended then ByteStream_end_input output else output,
             sr_unassembled := drop n m1, sr_unassembled_bytes := list_size (drop n m1),
             sr_if_eof := eof \<or> sr_if_eof r, sr_next_index := sr_next_index r + of_nat n\<rparr>)"
    using steps(3) by (simp only: m1 n)
  show "n \<le> sr_room r" by (simp add: n run_length_le)
  show le: "unat (sr_next_index r) + n \<le> length S"
    using run_length_facts [OF hs(1) S n] by simp
  show "unat (sr_next_index r + of_nat n) = unat (sr_next_index r) + n"
    using le S(1) by (simp add: unat_word_ariths unat_of_nat take_bit_nat_eq_self)
qed

lemma push_inv:
  assumes "StreamReassembler_inv S r" and "consistent S data index"
  shows "StreamReassembler_inv S (StreamReassembler_push_substring r data index eof)"
proof -
  let ?n = "push_advance r data index" and ?m = "push_stored r data index"
  let ?k = "sr_next_index r"
  note f = push_facts [OF assms]
  have S: "length S + 1 < 2 ^ 64" "unat ?k \<le> length S" and bs: "ByteStream_inv (sr_output r)"
    and cap: "bs_capacity (sr_output r) = sr_capacity r" and len: "length S + 2 ^ 32 \<le> 2 ^ 64"
    using assms(1) by (auto simp: StreamReassembler_inv_def)
  have ks: "key_set (drop ?n ?m) = {i \<in> key_set ?m. unat ?k + ?n \<le> i}"
    using run_length_facts [OF f(1) S push_advance_stored] by simp
  have "holds_stream S (unat ?k + ?n) (drop ?n ?m)"
    unfolding holds_stream_def
  proof (intro conjI allI impI)
    show "std_map_inv (drop ?n ?m)"
      using f(1) by (simp add: holds_stream_def std_map_inv_drop)
  next
    fix k c assume kc: "(k, c) \<in> set (drop ?n ?m)"
    then have "unat k \<in> key_set (drop ?n ?m)" by (force simp: key_set_def)
    then show "unat ?k + ?n \<le> unat k" using ks by simp
    show "unat k < length S" "S ! unat k = c"
      using kc f(1) by (auto simp: holds_stream_def dest: in_set_dropD)
  qed
  moreover have "length ?m - ?n \<le> Suc (unat (sr_capacity r))" using f(2) by linarith
  ultimately show ?thesis
    unfolding f(3)
    using ByteStream_write_inv [OF bs] cap f(5,6) len
    by (simp add: StreamReassembler_inv_def Let_def)
qed

lemma push_output:
  fixes eof :: bool
  assumes "StreamReassembler_inv S r" and "consistent S data index"
  defines "r' \<equiv> StreamReassembler_push_substring r data index eof"
  shows "bs_buffer (sr_output r') =
     (if bs_input_ended (sr_output r) then bs_buffer (sr_output r)
      else bs_buffer (sr_output r) @
           take (unat (sr_next_index r') - unat (sr_next_index r)) (drop (unat (sr_next_index r)) S))"
proof (cases "bs_input_ended (sr_output r)")
  case True
  then show ?thesis
    unfolding r'_def push_facts(3) [OF assms(1,2)]
    by (simp add: Let_def ByteStream_write_ended)
next
  case False
  let ?n = "push_advance r data index"
  let ?xs = "take ?n (drop (unat (sr_next_index r)) S)"
  have bs: "ByteStream_inv (sr_output r)" "bs_capacity (sr_output r) = sr_capacity r"
    using assms(1) by (simp_all add: StreamReassembler_inv_def)
  have len: "length ?xs = ?n" using push_facts(5) [OF assms(1,2)] by simp
  have room: "?n \<le> unat (sr_capacity r) - length (bs_buffer (sr_output r))"
    using push_facts(4) [OF assms(1,2)] by (simp add: sr_room_def)
  then have small: "?n < 2 ^ 31" using bs by (auto simp: ByteStream_inv_def)
  have "unat (list_size ?xs) = length ?xs"
    using small len by (intro unat_list_size_31) linarith
  with len have "unat (list_size ?xs) = ?n" by simp
  then have "ByteStream_room (sr_output r) ?xs = ?n"
    using room bs(2) by (simp add: ByteStream_room_def)
  then have "bs_buffer (fst (ByteStream_write (sr_output r) ?xs)) = bs_buffer (sr_output r) @ ?xs"
    using ByteStream_write_open [OF bs(1) False, of ?xs] by simp
  then show ?thesis
    using False unfolding r'_def push_facts(3) [OF assms(1,2)]
    by (simp add: Let_def push_facts(6) [OF assms(1,2)])
qed

section \<open>Runs\<close>

text \<open>The owner pushes excerpts and drains the output stream; the run collects what was drained.\<close>

datatype sr_op = Push bytes size_t bool | Drain size_t

fun StreamReassembler_run :: "StreamReassembler \<Rightarrow> sr_op list \<Rightarrow> StreamReassembler \<times> bytes" where
  "StreamReassembler_run r [] = (r, [])"
| "StreamReassembler_run r (Push data index eof # ops) =
     StreamReassembler_run (StreamReassembler_push_substring r data index eof) ops"
| "StreamReassembler_run r (Drain k # ops) =
     (let (output, d) = ByteStream_read (sr_output r) k;
          (r', ds) = StreamReassembler_run (r\<lparr>sr_output := output\<rparr>) ops
      in (r', d @ ds))"

fun op_consistent :: "bytes \<Rightarrow> sr_op \<Rightarrow> bool" where
  "op_consistent S (Push data index eof) \<longleftrightarrow> consistent S data index"
| "op_consistent S (Drain k) \<longleftrightarrow> True"

definition written_prefix :: "bytes \<Rightarrow> bytes \<Rightarrow> StreamReassembler \<Rightarrow> bool" where
  "written_prefix S delivered r \<longleftrightarrow>
     (\<exists>h\<le>unat (sr_next_index r).
        delivered @ bs_buffer (sr_output r) = take h S
        \<and> (\<not> bs_input_ended (sr_output r) \<longrightarrow> h = unat (sr_next_index r)))"

lemma drain_inv:
  assumes "StreamReassembler_inv S r" and "ByteStream_read (sr_output r) k = (out, d)"
  shows "StreamReassembler_inv S (r\<lparr>sr_output := out\<rparr>)"
  using assms ByteStream_read_inv [of "sr_output r" k]
  by (simp add: StreamReassembler_inv_def)

lemma drain_facts:
  assumes "StreamReassembler_inv S r" and "ByteStream_read (sr_output r) k = (out, d)"
  shows "bs_buffer (sr_output r) = d @ bs_buffer out"
    and "bs_input_ended out = bs_input_ended (sr_output r)"
    and "bs_capacity out = bs_capacity (sr_output r)"
  using assms by (auto simp: StreamReassembler_inv_def ByteStream_read_eq)

lemma push_ended:
  fixes eof :: bool
  assumes "StreamReassembler_inv S r" and "consistent S data index"
  defines "r' \<equiv> StreamReassembler_push_substring r data index eof"
  shows "bs_input_ended (sr_output r') \<longleftrightarrow>
     bs_input_ended (sr_output r) \<or> (sr_if_eof r' \<and> sr_unassembled r' = [])"
proof -
  have inv: "StreamReassembler_inv S r'"
    unfolding r'_def by (rule push_inv [OF assms(1,2)])
  then have "length (sr_unassembled r') < 2 ^ 64"
    by (auto simp: StreamReassembler_inv_def ByteStream_inv_def)
  then have ne: "list_size (sr_unassembled r') = 0 \<longleftrightarrow> sr_unassembled r' = []"
    using unat_list_size [of "sr_unassembled r'"] by (auto simp: unat_eq_zero)
  have wr: "bs_input_ended (fst (ByteStream_write bs xs)) = bs_input_ended bs" if "ByteStream_inv bs" for bs xs
    using that by (cases "bs_input_ended bs") (simp_all add: ByteStream_write_ended ByteStream_write_open)
  have "ByteStream_inv (sr_output r)" using assms(1) by (simp add: StreamReassembler_inv_def)
  then show ?thesis
    using ne unfolding r'_def push_facts(3) [OF assms(1,2)]
    by (auto simp: Let_def wr)
qed

lemma push_next_mono:
  assumes "StreamReassembler_inv S r" and "consistent S data index"
  shows "unat (sr_next_index r) \<le> unat (sr_next_index (StreamReassembler_push_substring r data index eof))"
  unfolding push_facts(3) [OF assms] by (simp add: Let_def push_facts(6) [OF assms])

lemma push_written_prefix:
  assumes "StreamReassembler_inv S r" and "consistent S data index" and "written_prefix S d r"
  shows "written_prefix S d (StreamReassembler_push_substring r data index eof)"
proof -
  let ?r' = "StreamReassembler_push_substring r data index eof"
  let ?k = "unat (sr_next_index r)" and ?k' = "unat (sr_next_index ?r')"
  obtain h where h: "h \<le> ?k" "d @ bs_buffer (sr_output r) = take h S"
    "\<not> bs_input_ended (sr_output r) \<longrightarrow> h = ?k"
    using assms(3) by (auto simp: written_prefix_def)
  have mono: "?k \<le> ?k'" by (rule push_next_mono [OF assms(1,2)])
  note out = push_output [OF assms(1,2), of eof]
  show ?thesis
  proof (cases "bs_input_ended (sr_output r)")
    case True
    with h mono out push_ended [OF assms(1,2), of eof] show ?thesis
      by (auto simp: written_prefix_def intro!: exI [of _ h])
  next
    case False
    have "take ?k S @ take (?k' - ?k) (drop ?k S) = take ?k' S"
      using mono by (metis le_add_diff_inverse take_add)
    with False h out show ?thesis
      by (auto simp: written_prefix_def append_assoc [symmetric] simp del: append_assoc intro!: exI [of _ ?k'])
  qed
qed

lemma run_safe:
  assumes "StreamReassembler_inv S r" and "list_all (op_consistent S) ops"
    and "StreamReassembler_run r ops = (r', ds)" and "written_prefix S d r"
  shows "StreamReassembler_inv S r' \<and> written_prefix S (d @ ds) r'
       \<and> sr_capacity r' = sr_capacity r"
  using assms
proof (induction ops arbitrary: r r' d ds)
  case Nil
  then show ?case by simp
next
  case (Cons x ops)
  show ?case
  proof (cases x)
    case (Push data index eof)
    let ?r1 = "StreamReassembler_push_substring r data index eof"
    have con: "consistent S data index" using Cons.prems(2) Push by simp
    have "sr_capacity ?r1 = sr_capacity r"
      unfolding push_facts(3) [OF Cons.prems(1) con] by (simp add: Let_def)
    then show ?thesis
      using Cons.IH [of ?r1 r' ds d] Cons.prems Push push_inv [OF Cons.prems(1) con]
        push_written_prefix [OF Cons.prems(1) con] by simp
  next
    case (Drain k)
    obtain out d1 where rd: "ByteStream_read (sr_output r) k = (out, d1)" by fastforce
    let ?r1 = "r\<lparr>sr_output := out\<rparr>"
    obtain ds' where run: "StreamReassembler_run ?r1 ops = (r', ds')" "ds = d1 @ ds'"
      using Cons.prems(3) Drain rd by (auto split: prod.splits)
    have "written_prefix S (d @ d1) ?r1"
      using Cons.prems(4) drain_facts [OF Cons.prems(1) rd] by (simp add: written_prefix_def)
    then show ?thesis
      using Cons.IH [OF drain_inv [OF Cons.prems(1) rd] _ run(1), of "d @ d1"] Cons.prems(2) run(2) by simp
  qed
qed

lemma new_inv:
  assumes "unat c < 2 ^ 31" and "length S + 2 ^ 32 \<le> 2 ^ 64"
  shows "StreamReassembler_inv S (StreamReassembler_new c)"
    and "written_prefix S [] (StreamReassembler_new c)"
  using assms ByteStream_inv_new [of c]
  by (simp_all add: StreamReassembler_inv_def StreamReassembler_new_def holds_stream_def
      written_prefix_def ByteStream_new_def)

section \<open>Senders that respect the window\<close>

text \<open>
  A push within the advertised window whose end-of-stream flag, if set, marks the true
  end of \<open>S\<close> and either carries the last byte or arrives when nothing is missing.
\<close>

definition push_ok :: "bytes \<Rightarrow> StreamReassembler \<Rightarrow> bytes \<Rightarrow> size_t \<Rightarrow> bool \<Rightarrow> bool" where
  "push_ok S r data index eof \<longleftrightarrow>
     consistent S data index
     \<and> (data \<noteq> [] \<longrightarrow> unat index + length data \<le> unat (sr_next_index r) + sr_room r)
     \<and> (eof \<longrightarrow> unat index + length data = length S
               \<and> (data \<noteq> [] \<or> unat (sr_next_index r) = length S))"

fun ops_ok :: "bytes \<Rightarrow> StreamReassembler \<Rightarrow> sr_op list \<Rightarrow> bool" where
  "ops_ok S r [] \<longleftrightarrow> True"
| "ops_ok S r (Push data index eof # ops) \<longleftrightarrow>
     push_ok S r data index eof \<and> ops_ok S (StreamReassembler_push_substring r data index eof) ops"
| "ops_ok S r (Drain k # ops) \<longleftrightarrow>
     ops_ok S (r\<lparr>sr_output := fst (ByteStream_read (sr_output r) k)\<rparr>) ops"

text \<open>The stream indices a push or a run has offered, and whether it has marked the end.\<close>

fun op_indices :: "sr_op \<Rightarrow> nat set" where
  "op_indices (Push data index eof) = {unat index..<unat index + length data}"
| "op_indices (Drain k) = {}"

fun op_eof :: "sr_op \<Rightarrow> bool" where
  "op_eof (Push data index eof) \<longleftrightarrow> eof"
| "op_eof (Drain k) \<longleftrightarrow> False"

definition received :: "sr_op list \<Rightarrow> nat set" where
  "received ops = (\<Union>x\<in>set ops. op_indices x)"

text \<open>
  The abstract state is the set of indices received and the end mark; the concrete state
  implements it when the next index is the least index not received, the map holds the
  received indices above it, all of them inside the window, and the stream has ended
  exactly when the end was marked and nothing is missing.
\<close>

definition implements :: "bytes \<Rightarrow> nat set \<Rightarrow> bool \<Rightarrow> StreamReassembler \<Rightarrow> bool" where
  "implements S R fin r \<longleftrightarrow>
     StreamReassembler_inv S r
     \<and> {..<unat (sr_next_index r)} \<subseteq> R \<and> unat (sr_next_index r) \<notin> R
     \<and> key_set (sr_unassembled r) = {i \<in> R. unat (sr_next_index r) \<le> i}
     \<and> (\<forall>i\<in>R. i < unat (sr_next_index r) + sr_room r)
     \<and> sr_if_eof r = fin
     \<and> (fin \<longrightarrow> length S - 1 \<in> R \<or> unat (sr_next_index r) = length S)
     \<and> (bs_input_ended (sr_output r) \<longleftrightarrow> fin \<and> unat (sr_next_index r) = length S)"

lemma slice_in_window:
  assumes inv: "StreamReassembler_inv S r" and ok: "push_ok S r data index eof"
    and sl: "StreamReassembler_slice r data index = (start, sub)"
  shows "{unat start..<unat start + length sub}
       = {i \<in> {unat index..<unat index + length data}. unat (sr_next_index r) \<le> i}"
proof (cases "data = []")
  case True
  then show ?thesis
    using sl by (auto simp: StreamReassembler_slice_def Let_def split: if_splits)
next
  case False
  let ?k = "sr_next_index r"
  have ex: "excerpt_at S (unat index) data"
    and win: "unat index + length data \<le> unat ?k + sr_room r"
    using ok False by (auto simp: push_ok_def consistent_def)
  have room: "sr_room r < 2 ^ 31" and k: "unat ?k \<le> length S" and S: "length S + 2 ^ 32 \<le> 2 ^ 64"
    using inv by (auto simp: StreamReassembler_inv_def ByteStream_inv_def sr_room_def)
  have len: "length data < 2 ^ 64" using ex S by (simp add: excerpt_at_def)
  note rem = sr_remaining(1) [OF inv]
  have right: "unat (?k + (sr_capacity r - ByteStream_buffer_size (sr_output r))) = unat ?k + sr_room r"
    using rem room k S by (simp add: unat_word_ariths)
  show ?thesis
  proof (cases "index < ?k")
    case True
    have diff: "unat (?k - index) = unat ?k - unat index" using True by (intro unat_sub) simp
    have lt: "?k - index < list_size data \<longleftrightarrow> unat ?k - unat index < length data"
      by (simp add: word_less_nat_alt unat_list_size [OF len] diff)
    have "unat (list_size (drop (unat ?k - unat index) data)) = length data - (unat ?k - unat index)"
      using len by (subst unat_list_size) simp_all
    then have "\<not> sr_capacity r - ByteStream_buffer_size (sr_output r) < list_size (drop (unat ?k - unat index) data)"
      using win True by (simp add: word_less_nat_alt rem)
    then show ?thesis
      using sl True lt by (auto simp: StreamReassembler_slice_def Let_def diff word_less_nat_alt split: if_splits)
  next
    case ge: False
    have "\<not> ?k + (sr_capacity r - ByteStream_buffer_size (sr_output r)) \<le> index"
      using win False by (simp add: word_le_nat_alt right) (use False in \<open>cases data; simp\<close>)
    moreover have "\<not> sr_capacity r - ByteStream_buffer_size (sr_output r) < list_size data"
      using win ge by (simp add: word_less_nat_alt rem unat_list_size [OF len])
    ultimately show ?thesis
      using sl ge by (auto simp: StreamReassembler_slice_def Let_def word_less_nat_alt)
  qed
qed

lemma push_window:
  assumes impl: "implements S R fin r" and ok: "push_ok S r data index eof"
  defines "R' \<equiv> R \<union> {unat index..<unat index + length data}"
    and "k' \<equiv> unat (sr_next_index r) + push_advance r data index"
  shows "{..<k'} \<subseteq> R'" "k' \<notin> R'" "\<forall>i\<in>R'. i < unat (sr_next_index r) + sr_room r"
    and "key_set (drop (push_advance r data index) (push_stored r data index)) = {i \<in> R'. k' \<le> i}"
proof -
  let ?k = "unat (sr_next_index r)" and ?n = "push_advance r data index" and ?m = "push_stored r data index"
  let ?R = "R \<union> {unat index..<unat index + length data}"
  have inv: "StreamReassembler_inv S r" using impl by (simp add: implements_def)
  have con: "consistent S data index" using ok by (simp add: push_ok_def)
  note f = push_facts [OF inv con]
  have S: "length S + 1 < 2 ^ 64" "?k \<le> length S" using inv by (auto simp: StreamReassembler_inv_def)
  have cap: "unat (sr_capacity r) < 2 ^ 31" "sr_room r \<le> unat (sr_capacity r)"
    using inv by (auto simp: StreamReassembler_inv_def ByteStream_inv_def sr_room_def)
  have win: "i < ?k + sr_room r" if "i \<in> ?R" for i
    using that impl ok by (fastforce simp: implements_def push_ok_def)
  obtain start sub where sl: "StreamReassembler_slice r data index = (start, sub)" by fastforce
  have sub: "{unat start..<unat start + length sub}
      = {i \<in> {unat index..<unat index + length data}. ?k \<le> i}"
    by (rule slice_in_window [OF inv ok sl])
  have nowrap: "unat start + length sub < 2 ^ 64"
    using slice_excerpt [OF inv con sl] unat_u64_less [of start] S by (auto simp: excerpt_at_def)
  have stored: "key_set (sr_unassembled r) \<union> {unat start..<unat start + length sub} = {i \<in> ?R. ?k \<le> i}"
    unfolding sub using impl by (auto simp: implements_def)
  have "{i \<in> ?R. ?k \<le> i} \<subseteq> {?k..<?k + sr_room r}" using win by auto
  then have "card {i \<in> ?R. ?k \<le> i} \<le> card {?k..<?k + sr_room r}" by (intro card_mono) auto
  then have "card (key_set (sr_unassembled r) \<union> {unat start..<unat start + length sub}) \<le> unat (sr_capacity r)"
    unfolding stored using cap(2) by simp
  then have keys: "key_set ?m = {i \<in> ?R. ?k \<le> i}"
    unfolding stored [symmetric] push_stored_def sl using nowrap cap inv
    by (simp add: insert_key_set StreamReassembler_inv_def holds_stream_def)
  note rl = run_length_facts [OF f(1) S push_advance_stored]
  show "{..<k'} \<subseteq> R'"
  proof
    fix i assume "i \<in> {..<k'}"
    then show "i \<in> R'"
      using rl keys impl by (cases "i < ?k") (auto simp: implements_def subset_iff k'_def R'_def)
  qed
  show "k' \<notin> R'"
    using rl keys win [of "?k + ?n"] by (auto simp: k'_def R'_def)
  show "\<forall>i\<in>R'. i < ?k + sr_room r"
    using win by (auto simp: R'_def)
  show "key_set (drop ?n ?m) = {i \<in> R'. k' \<le> i}"
    using rl keys by (auto simp: k'_def R'_def)
qed

lemma push_implements:
  assumes impl: "implements S R fin r" and ok: "push_ok S r data index eof"
  shows "implements S (R \<union> {unat index..<unat index + length data}) (eof \<or> fin)
           (StreamReassembler_push_substring r data index eof)"
proof -
  let ?k = "unat (sr_next_index r)" and ?n = "push_advance r data index"
  let ?r' = "StreamReassembler_push_substring r data index eof"
  let ?R = "R \<union> {unat index..<unat index + length data}"
  have inv: "StreamReassembler_inv S r" using impl by (simp add: implements_def)
  have con: "consistent S data index" using ok by (simp add: push_ok_def)
  note f = push_facts [OF inv con] and w = push_window [OF impl ok]
  have inv': "StreamReassembler_inv S ?r'" by (rule push_inv [OF inv con])
  have next': "unat (sr_next_index ?r') = ?k + ?n" and eof': "sr_if_eof ?r' \<longleftrightarrow> eof \<or> fin"
    and cap': "sr_capacity ?r' = sr_capacity r"
    and un': "sr_unassembled ?r' = drop ?n (push_stored r data index)"
    using impl f(6) unfolding f(3) by (simp_all add: Let_def implements_def)
  have le: "?k + ?n \<le> length S" by (rule f(5))
  have fin: "length S - 1 \<in> ?R \<or> ?k + ?n = length S" if "eof \<or> fin"
    using that impl ok le by (cases data) (auto simp: implements_def push_ok_def)
  have room: "sr_room ?r' + ?n = sr_room r"
    using push_output [OF inv con, of eof] impl next' le f(4)
    by (auto simp: sr_room_def cap' implements_def)
  have empty: "sr_unassembled ?r' = [] \<longleftrightarrow> {i \<in> ?R. ?k + ?n \<le> i} = {}"
    unfolding w(4) [symmetric] un' by (auto simp: key_set_def simp del: drop_eq_Nil)
  have "i < length S" if "i \<in> ?R" "?k + ?n \<le> i" for i
  proof -
    from that have "i \<in> key_set (sr_unassembled ?r')" using w(4) un' by simp
    then show ?thesis
      using inv' by (auto simp: key_set_def StreamReassembler_inv_def holds_stream_def)
  qed
  then have ended: "bs_input_ended (sr_output ?r') \<longleftrightarrow> (eof \<or> fin) \<and> ?k + ?n = length S"
    unfolding push_ended [OF inv con] eof' empty
    using impl fin le by (fastforce simp: implements_def)
  have win: "?k + ?n + sr_room ?r' = ?k + sr_room r" using room by simp
  show ?thesis
    unfolding implements_def next' eof' un' win
    by (intro conjI inv' w ended impI fin refl)
qed

lemma drain_implements:
  assumes "implements S R fin r" and "ByteStream_read (sr_output r) k = (out, d)"
  shows "implements S R fin (r\<lparr>sr_output := out\<rparr>)"
proof -
  have inv: "StreamReassembler_inv S r" using assms(1) by (simp add: implements_def)
  have "sr_room r \<le> sr_room (r\<lparr>sr_output := out\<rparr>)"
    using drain_facts [OF inv assms(2)] by (simp add: sr_room_def)
  then show ?thesis
    using assms(1) drain_inv [OF inv assms(2)] drain_facts [OF inv assms(2)]
    by (fastforce simp: implements_def)
qed

lemma new_implements:
  assumes "unat c < 2 ^ 31" and "length S + 2 ^ 32 \<le> 2 ^ 64"
  shows "implements S {} False (StreamReassembler_new c)"
  using new_inv [OF assms]
  by (simp add: implements_def StreamReassembler_new_def key_set_def ByteStream_new_def)

lemma ops_ok_consistent: "ops_ok S r ops \<Longrightarrow> list_all (op_consistent S) ops"
  by (induction S r ops rule: ops_ok.induct) (simp_all add: push_ok_def)

definition written_exactly :: "bytes \<Rightarrow> bytes \<Rightarrow> StreamReassembler \<Rightarrow> bool" where
  "written_exactly S delivered r \<longleftrightarrow>
     delivered @ bs_buffer (sr_output r) = take (unat (sr_next_index r)) S"

lemma push_written_exactly:
  assumes impl: "implements S R fin r" and ok: "push_ok S r data index eof"
    and "written_exactly S d r"
  shows "written_exactly S d (StreamReassembler_push_substring r data index eof)"
proof -
  let ?r' = "StreamReassembler_push_substring r data index eof"
  have inv: "StreamReassembler_inv S r" and con: "consistent S data index"
    using impl ok by (simp_all add: implements_def push_ok_def)
  have mono: "unat (sr_next_index r) \<le> unat (sr_next_index ?r')" by (rule push_next_mono [OF inv con])
  show ?thesis
  proof (cases "bs_input_ended (sr_output r)")
    case True
    then show ?thesis
      using impl assms(3) mono push_output [OF inv con, of eof] by (simp add: implements_def written_exactly_def)
  next
    case False
    have "take (unat (sr_next_index r)) S @ take (unat (sr_next_index ?r') - unat (sr_next_index r))
            (drop (unat (sr_next_index r)) S) = take (unat (sr_next_index ?r')) S"
      using mono by (metis le_add_diff_inverse take_add)
    with False assms(3) show ?thesis
      using push_output [OF inv con, of eof]
      by (simp add: written_exactly_def append_assoc [symmetric] del: append_assoc)
  qed
qed

lemma run_implements:
  assumes "implements S R fin r" and "ops_ok S r ops" and "StreamReassembler_run r ops = (r', ds)"
    and "written_exactly S d r"
  shows "implements S (received ops \<union> R) (list_ex op_eof ops \<or> fin) r' \<and> written_exactly S (d @ ds) r'"
  using assms
proof (induction ops arbitrary: r r' d ds R fin)
  case Nil
  then show ?case by (simp add: received_def)
next
  case (Cons x ops)
  show ?case
  proof (cases x)
    case (Push data index eof)
    let ?r1 = "StreamReassembler_push_substring r data index eof"
    have ok: "push_ok S r data index eof" "ops_ok S ?r1 ops" "StreamReassembler_run ?r1 ops = (r', ds)"
      using Cons.prems Push by simp_all
    from Cons.IH [OF push_implements [OF Cons.prems(1) ok(1)] ok(2,3)
        push_written_exactly [OF Cons.prems(1) ok(1) Cons.prems(4)]] Push show ?thesis
      by (simp add: received_def Un_ac disj_ac)
  next
    case (Drain k)
    obtain out d1 where rd: "ByteStream_read (sr_output r) k = (out, d1)" by fastforce
    let ?r1 = "r\<lparr>sr_output := out\<rparr>"
    obtain ds' where run: "StreamReassembler_run ?r1 ops = (r', ds')" "ds = d1 @ ds'"
      using Cons.prems(3) Drain rd by (auto split: prod.splits)
    have ok: "ops_ok S ?r1 ops" using Cons.prems(2) Drain rd by simp
    have "StreamReassembler_inv S r" using Cons.prems(1) by (simp add: implements_def)
    then have "written_exactly S (d @ d1) ?r1"
      using Cons.prems(4) drain_facts [OF _ rd] by (simp add: written_exactly_def)
    from Cons.IH [OF drain_implements [OF Cons.prems(1) rd] ok run(1) this] Drain run(2)
    show ?thesis by (simp add: received_def)
  qed
qed

lemma implements_Least:
  assumes "implements S R fin r"
  shows "(LEAST i. i \<notin> R) = unat (sr_next_index r)"
    and "unat (sr_unassembled_bytes r) = card {i \<in> R. unat (sr_next_index r) \<le> i}"
proof -
  show "(LEAST i. i \<notin> R) = unat (sr_next_index r)"
    using assms by (intro Least_equality) (auto simp: implements_def not_le [symmetric])
  have inv: "StreamReassembler_inv S r" and "key_set (sr_unassembled r) = {i \<in> R. unat (sr_next_index r) \<le> i}"
    using assms by (simp_all add: implements_def)
  moreover have "unat (sr_unassembled_bytes r) = length (sr_unassembled r)"
    using inv by (auto simp: StreamReassembler_inv_def ByteStream_inv_def unat_list_size)
  ultimately show "unat (sr_unassembled_bytes r) = card {i \<in> R. unat (sr_next_index r) \<le> i}"
    using card_key_set [of "sr_unassembled r"] by (auto simp: StreamReassembler_inv_def holds_stream_def)
qed

section \<open>Properties\<close>

text \<open>
  C7. Safety of the reassembler: whatever excerpts of one stream \<open>S\<close> are pushed, in any
  order, with any overlaps, beyond the window or with a wrong end-of-stream flag, and
  however the output is drained in between, the bytes delivered followed by the bytes
  buffered are a prefix of \<open>S\<close>, of exactly \<open>get_next_index()\<close> bytes while the output is
  open. The output never exceeds the capacity, the map holds at most one entry more than
  the capacity, and \<open>unassembled_bytes()\<close> is the number of its entries.
\<close>

theorem StreamReassembler_safe:
  assumes "unat c < 2 ^ 31" and "length S + 2 ^ 32 \<le> 2 ^ 64"
    and "list_all (op_consistent S) ops"
    and "StreamReassembler_run (StreamReassembler_new c) ops = (r, delivered)"
  shows "(\<exists>h\<le>unat (sr_next_index r). delivered @ bs_buffer (sr_output r) = take h S
            \<and> (\<not> bs_input_ended (sr_output r) \<longrightarrow> h = unat (sr_next_index r)))
    \<and> unat (sr_next_index r) \<le> length S
    \<and> length (bs_buffer (sr_output r)) \<le> unat c
    \<and> length (sr_unassembled r) \<le> unat c + 1
    \<and> unat (sr_unassembled_bytes r) = length (sr_unassembled r)"
proof -
  have "StreamReassembler_inv S r \<and> written_prefix S delivered r \<and> sr_capacity r = c"
    using run_safe [OF new_inv(1) [OF assms(1,2)] assms(3,4) new_inv(2) [OF assms(1,2)]]
    by (simp add: StreamReassembler_new_def)
  then show ?thesis
    by (auto simp: StreamReassembler_inv_def written_prefix_def ByteStream_inv_def unat_list_size)
qed

theorem StreamReassembler_safe_witness:
  "\<exists>r d. StreamReassembler_run (StreamReassembler_new 4)
      [Push [3, 4] 2 False, Push [1, 2, 3] 0 False, Drain 3, Push [4, 5, 6] 3 True] = (r, d)
    \<and> d @ bs_buffer (sr_output r) = [1, 2, 3, 4, 5, 6] \<and> length (bs_buffer (sr_output r)) \<le> 4"
proof -
  have run: "StreamReassembler_run (StreamReassembler_new 4)
      [Push [3, 4] 2 False, Push [1, 2, 3] 0 False, Drain 3, Push [4, 5, 6] 3 True] =
      (\<lparr>sr_output = \<lparr>bs_buffer = [4, 5, 6], bs_capacity = 4, bs_input_ended = True, bs_error = False,
          bs_num_written = 6, bs_num_read = 3\<rparr>, sr_capacity = 4, sr_unassembled = [],
        sr_unassembled_bytes = 0, sr_if_eof = True, sr_next_index = 6\<rparr>, [1, 2, 3])"
    by code_simp
  have "length (bs_buffer (sr_output (fst (StreamReassembler_run (StreamReassembler_new 4)
      [Push [3, 4] 2 False, Push [1, 2, 3] 0 False, Drain 3, Push [4, 5, 6] 3 True])))) \<le> unat (4 :: size_t)"
    unfolding run
    using StreamReassembler_safe [OF _ _ _ run, of "[1, 2, 3, 4, 5, 6]"]
    by (simp add: consistent_def excerpt_at_def)
  then show ?thesis unfolding run by simp
qed

text \<open>
  C8. Completeness of the reassembler: when every push stays inside the advertised window
  and sets the end-of-stream flag only on the last bytes of \<open>S\<close> (or on an empty excerpt
  once everything has arrived), the bytes delivered and buffered are exactly the first
  \<open>get_next_index()\<close> bytes of \<open>S\<close>, that index is the least one not received so far,
  \<open>unassembled_bytes()\<close> counts the received indices above it, and the output has ended
  exactly when the end was marked and all of \<open>S\<close> has arrived.
\<close>

theorem StreamReassembler_complete:
  assumes "unat c < 2 ^ 31" and "length S + 2 ^ 32 \<le> 2 ^ 64"
    and "ops_ok S (StreamReassembler_new c) ops"
    and "StreamReassembler_run (StreamReassembler_new c) ops = (r, delivered)"
  shows "delivered @ bs_buffer (sr_output r) = take (unat (sr_next_index r)) S
    \<and> unat (sr_next_index r) = (LEAST i. i \<notin> received ops)
    \<and> unat (sr_unassembled_bytes r) = card {i \<in> received ops. unat (sr_next_index r) \<le> i}
    \<and> (bs_input_ended (sr_output r) \<longleftrightarrow> list_ex op_eof ops \<and> unat (sr_next_index r) = length S)"
proof -
  have "written_exactly S [] (StreamReassembler_new c)"
    by (simp add: written_exactly_def StreamReassembler_new_def ByteStream_new_def)
  from run_implements [OF new_implements [OF assms(1,2)] assms(3,4) this]
  have impl: "implements S (received ops) (list_ex op_eof ops) r" and w: "written_exactly S delivered r"
    by simp_all
  show ?thesis
    using implements_Least [OF impl] w impl by (simp add: written_exactly_def implements_def)
qed

theorem StreamReassembler_complete_witness:
  "\<exists>r. StreamReassembler_run (StreamReassembler_new 4)
      [Push [3, 4] 2 True, Push [] 0 False, Push [1, 2, 3] 0 False, Drain 2] = (r, [1, 2])
    \<and> bs_input_ended (sr_output r) \<and> bs_buffer (sr_output r) = [3, 4]"
proof -
  have run: "StreamReassembler_run (StreamReassembler_new 4)
      [Push [3, 4] 2 True, Push [] 0 False, Push [1, 2, 3] 0 False, Drain 2] =
      (\<lparr>sr_output = \<lparr>bs_buffer = [3, 4], bs_capacity = 4, bs_input_ended = True, bs_error = False,
          bs_num_written = 4, bs_num_read = 2\<rparr>, sr_capacity = 4, sr_unassembled = [],
        sr_unassembled_bytes = 0, sr_if_eof = True, sr_next_index = 4\<rparr>, [1, 2])"
    by code_simp
  have ok: "ops_ok [1, 2, 3, 4] (StreamReassembler_new 4)
      [Push [3, 4] 2 True, Push [] 0 False, Push [1, 2, 3] 0 False, Drain 2]"
    by code_simp
  have "[1, 2] @ bs_buffer (sr_output (fst (StreamReassembler_run (StreamReassembler_new 4)
      [Push [3, 4] 2 True, Push [] 0 False, Push [1, 2, 3] 0 False, Drain 2]))) = [1, 2, 3, 4]"
    unfolding run using StreamReassembler_complete [OF _ _ ok run] by simp
  then show ?thesis unfolding run by simp
qed

lemma write_nothing [simp]: "fst (ByteStream_write bs []) = bs"
  by (simp add: ByteStream_write_def Let_def)

lemma slice_empty: "StreamReassembler_slice r [] index = (max index (sr_next_index r), [])"
  by (auto simp: StreamReassembler_slice_def Let_def max_def)

lemma push_empty_eof:
  assumes "sr_unassembled r = []" and "sr_unassembled_bytes r = 0"
  shows "StreamReassembler_push_substring r [] index True =
     r\<lparr>sr_output := ByteStream_end_input (sr_output r), sr_if_eof := True\<rparr>"
  using assms by (simp add: StreamReassembler_push_substring_def slice_empty)

lemma insert_full:
  "\<not> list_size m \<le> cap \<Longrightarrow> StreamReassembler_insert cap k cs (m, ub) = (m, ub)"
  by (induction cs arbitrary: k) simp_all

lemma push_wedged:
  assumes inv: "StreamReassembler_inv S r" and full: "length (sr_unassembled r) = Suc (unat (sr_capacity r))"
    and miss: "unat (sr_next_index r) \<notin> key_set (sr_unassembled r)"
  shows "StreamReassembler_push_substring r data index eof = r\<lparr>sr_if_eof := eof \<or> sr_if_eof r\<rparr>"
proof -
  have ub: "sr_unassembled_bytes r = list_size (sr_unassembled r)" and cap: "unat (sr_capacity r) < 2 ^ 31"
    using inv by (auto simp: StreamReassembler_inv_def ByteStream_inv_def)
  then have len: "unat (list_size (sr_unassembled r)) = Suc (unat (sr_capacity r))"
    using unat_list_size_31 [of "tl (sr_unassembled r)"] full by (subst unat_list_size) auto
  then have nle: "\<not> list_size (sr_unassembled r) \<le> sr_capacity r" and ne: "list_size (sr_unassembled r) \<noteq> 0"
    by (auto simp: word_le_nat_alt)
  have "\<forall>e\<in>set (sr_unassembled r). fst e \<noteq> sr_next_index r"
    using miss unfolding key_set_def by (metis imageI)
  then show ?thesis
    using ne by (simp add: StreamReassembler_push_substring_def insert_full [OF nle] assemble_none ub
        case_prod_beta Let_def)
qed

text \<open>
  C9. The end-of-stream flag is acted on even when the excerpt that carries it is not the
  end of what has arrived: a reassembler that holds no unassembled bytes ends its output
  when it is pushed an empty excerpt marked as the last, at any index whatever, and the
  bytes in front of that index, pushed afterwards, are lost from the output.
\<close>

theorem StreamReassembler_premature_eof:
  assumes "StreamReassembler_inv S r" and "sr_unassembled r = []"
    and "consistent S data (sr_next_index r)"
  shows "let r1 = StreamReassembler_push_substring r [] index True;
             r2 = StreamReassembler_push_substring r1 data (sr_next_index r) False
         in bs_input_ended (sr_output r1) \<and> bs_buffer (sr_output r2) = bs_buffer (sr_output r)"
proof -
  let ?r1 = "StreamReassembler_push_substring r [] index True"
  have r1: "?r1 = r\<lparr>sr_output := ByteStream_end_input (sr_output r), sr_if_eof := True\<rparr>"
    using assms(1,2) by (intro push_empty_eof) (simp_all add: StreamReassembler_inv_def)
  have "StreamReassembler_inv S ?r1"
    by (rule push_inv [OF assms(1)]) (simp add: consistent_def)
  from push_output [OF this assms(3)] r1 show ?thesis by (simp add: Let_def)
qed

theorem StreamReassembler_premature_eof_witness:
  "let r1 = StreamReassembler_push_substring (StreamReassembler_new 8) [] 5 True;
       r2 = StreamReassembler_push_substring r1 [1, 2, 3, 4, 5] 0 False
   in bs_input_ended (sr_output r1) \<and> bs_buffer (sr_output r2) = [] \<and> sr_next_index r2 = 5"
proof -
  let ?r = "StreamReassembler_new 8"
  have "StreamReassembler_inv [1, 2, 3, 4, 5] ?r" by (rule new_inv) simp_all
  moreover have "consistent [1, 2, 3, 4, 5] [1, 2, 3, 4, 5] (sr_next_index ?r)" by code_simp
  ultimately have "let r1 = StreamReassembler_push_substring ?r [] 5 True;
       r2 = StreamReassembler_push_substring r1 [1, 2, 3, 4, 5] (sr_next_index ?r) False
   in bs_input_ended (sr_output r1) \<and> bs_buffer (sr_output r2) = bs_buffer (sr_output ?r)"
    by (intro StreamReassembler_premature_eof) (simp_all add: StreamReassembler_new_def)
  moreover have "sr_next_index (StreamReassembler_push_substring
      (StreamReassembler_push_substring ?r [] 5 True) [1, 2, 3, 4, 5] 0 False) = 5"
    by code_simp
  ultimately show ?thesis
    by (simp add: Let_def StreamReassembler_new_def ByteStream_new_def)
qed



end
