(* ===== verification/TCP_Receiver.thy ===== *)
theory TCP_Receiver
  imports TCP_Segment Stream_Reassembler
begin

text \<open>
  The receiving half of a TCP endpoint: \<open>libsponge/tcp_receiver.hh\<close> and
  \<open>tcp_receiver.cc\<close>. It turns the 32-bit sequence number of each segment into an index of
  the reassembler and computes the acknowledgment number and the window to advertise. The
  lemmas follow a stream \<open>S\<close> from a well-behaved sender through the receiver.
\<close>

section \<open>State and operations\<close>

record TCPReceiver =
  rv_reassembler :: StreamReassembler
  rv_capacity :: size_t
  rv_isn :: WrappingInt32
  rv_if_syn_set :: bool
  rv_if_fin_set :: bool
  rv_syn_flag :: bool
  rv_fin_flag :: bool
  rv_abs_checkpoint :: size_t
  rv_abs_seqno_fin :: u64

definition TCPReceiver_new :: "size_t \<Rightarrow> TCPReceiver" where
  "TCPReceiver_new capacity =
     \<lparr>rv_reassembler = StreamReassembler_new capacity, rv_capacity = capacity,
      rv_isn = WrappingInt32 0, rv_if_syn_set = False, rv_if_fin_set = False,
      rv_syn_flag = False, rv_fin_flag = False, rv_abs_checkpoint = 0, rv_abs_seqno_fin = 0\<rparr>"

definition TCPReceiver_segment_received :: "TCPReceiver \<Rightarrow> TCPSegment \<Rightarrow> TCPReceiver" where
  "TCPReceiver_segment_received r seg =
     (let seqno = th_seqno (seg_header seg);
          r = r\<lparr>rv_syn_flag := th_syn (seg_header seg), rv_fin_flag := th_fin (seg_header seg)\<rparr>;
          r = (if \<not> rv_if_syn_set r \<and> rv_syn_flag r
               then r\<lparr>rv_isn := seqno, rv_if_syn_set := True\<rparr> else r);
          r = (if \<not> rv_if_fin_set r \<and> rv_fin_flag r
               then r\<lparr>rv_abs_seqno_fin :=
                        unwrap (WrappingInt32_minus
                                  (WrappingInt32_plus seqno (ucast (TCPSegment_length_in_sequence_space seg))) 1)
                          (rv_isn r) (rv_abs_checkpoint r),
                      rv_if_fin_set := True\<rparr>
               else r)
      in if TCPSegment_length_in_sequence_space seg = 0 \<or> \<not> rv_if_syn_set r then r
         else
           let abs_seqno = unwrap seqno (rv_isn r) (rv_abs_checkpoint r);
               stream_index = (if \<not> rv_syn_flag r then abs_seqno - 1 else abs_seqno)
           in r\<lparr>rv_reassembler :=
                  StreamReassembler_push_substring (rv_reassembler r) (Buffer_str (seg_payload seg))
                    stream_index (rv_fin_flag r),
                rv_abs_checkpoint := abs_seqno\<rparr>)"

definition TCPReceiver_ackno :: "TCPReceiver \<Rightarrow> WrappingInt32 option" where
  "TCPReceiver_ackno r =
     (if \<not> rv_if_syn_set r then None
      else
        let ackno = sr_next_index (rv_reassembler r) + (if rv_if_syn_set r then 1 else 0);
            ackno = ackno + (if ackno = rv_abs_seqno_fin r then 1 else 0)
        in Some (wrap ackno (rv_isn r)))"

definition TCPReceiver_window_size :: "TCPReceiver \<Rightarrow> size_t" where
  "TCPReceiver_window_size r = rv_capacity r - ByteStream_buffer_size (sr_output (rv_reassembler r))"

definition TCPReceiver_unassembled_bytes :: "TCPReceiver \<Rightarrow> size_t" where
  "TCPReceiver_unassembled_bytes r = sr_unassembled_bytes (rv_reassembler r)"

abbreviation TCPReceiver_stream_out :: "TCPReceiver \<Rightarrow> ByteStream" where
  "TCPReceiver_stream_out r \<equiv> sr_output (rv_reassembler r)"

text \<open>The reader's access to \<open>stream_out()\<close>.\<close>

definition TCPReceiver_set_stream_out :: "ByteStream \<Rightarrow> TCPReceiver \<Rightarrow> TCPReceiver" where
  "TCPReceiver_set_stream_out bs r = r\<lparr>rv_reassembler := (rv_reassembler r)\<lparr>sr_output := bs\<rparr>\<rparr>"

section \<open>Well-behaved senders\<close>

text \<open>
  A peer sends the stream \<open>S\<close> with initial sequence number \<open>isn\<close>: the SYN occupies the
  absolute sequence number 0, byte \<open>i\<close> of \<open>S\<close> the number \<open>i + 1\<close> and the FIN the number
  after the last byte. The segment that carries the bytes from index \<open>i\<close> on starts at:
\<close>

definition abs_start :: "nat \<Rightarrow> TCPSegment \<Rightarrow> nat" where
  "abs_start i seg = (if th_syn (seg_header seg) then 0 else i + 1)"

text \<open>
  A segment the receiver \<open>r\<close> may get from such a peer: its number is that of its bytes, it
  is within \<open>2 ^ 31\<close> of the last segment, the bytes are those of \<open>S\<close>, inside the window, a
  FIN marks the end of \<open>S\<close> and comes with the last byte or when nothing is missing, and a
  segment that precedes the SYN has no FIN.
\<close>

definition segment_ok :: "bytes \<Rightarrow> WrappingInt32 \<Rightarrow> TCPReceiver \<Rightarrow> nat \<Rightarrow> TCPSegment \<Rightarrow> bool" where
  "segment_ok S isn r i seg \<longleftrightarrow>
     i \<le> length S \<and> (th_syn (seg_header seg) \<longrightarrow> i = 0)
     \<and> th_seqno (seg_header seg) = wrap (of_nat (abs_start i seg)) isn
     \<and> unat (rv_abs_checkpoint r) \<le> abs_start i seg + 2 ^ 31
     \<and> abs_start i seg + seq_length seg \<le> unat (rv_abs_checkpoint r) + 2 ^ 31
     \<and> push_ok S (rv_reassembler r) (Buffer_str (seg_payload seg)) (of_nat i) (th_fin (seg_header seg))
     \<and> (\<not> rv_if_syn_set r \<and> \<not> th_syn (seg_header seg) \<longrightarrow> \<not> th_fin (seg_header seg))"

text \<open>Segments arrive, each with the index of its first byte, and the application reads.\<close>

datatype rv_op = Arrive nat TCPSegment | Consume size_t

fun TCPReceiver_run :: "TCPReceiver \<Rightarrow> rv_op list \<Rightarrow> TCPReceiver \<times> bytes" where
  "TCPReceiver_run r [] = (r, [])"
| "TCPReceiver_run r (Arrive i seg # ops) = TCPReceiver_run (TCPReceiver_segment_received r seg) ops"
| "TCPReceiver_run r (Consume k # ops) =
     (let (out, d) = ByteStream_read (TCPReceiver_stream_out r) k;
          (r', ds) = TCPReceiver_run (TCPReceiver_set_stream_out out r) ops
      in (r', d @ ds))"

fun arrivals_ok :: "bytes \<Rightarrow> WrappingInt32 \<Rightarrow> TCPReceiver \<Rightarrow> rv_op list \<Rightarrow> bool" where
  "arrivals_ok S isn r [] \<longleftrightarrow> True"
| "arrivals_ok S isn r (Arrive i seg # ops) \<longleftrightarrow>
     segment_ok S isn r i seg \<and> arrivals_ok S isn (TCPReceiver_segment_received r seg) ops"
| "arrivals_ok S isn r (Consume k # ops) \<longleftrightarrow>
     arrivals_ok S isn (TCPReceiver_set_stream_out (fst (ByteStream_read (TCPReceiver_stream_out r) k)) r) ops"

text \<open>What has arrived: whether the SYN has, the indices that came with or after it, the FIN.\<close>

fun arrived_syn :: "rv_op \<Rightarrow> bool" where
  "arrived_syn (Arrive i seg) \<longleftrightarrow> th_syn (seg_header seg)"
| "arrived_syn (Consume k) \<longleftrightarrow> False"

fun arrived_indices :: "bool \<Rightarrow> rv_op list \<Rightarrow> nat set" where
  "arrived_indices syn [] = {}"
| "arrived_indices syn (Arrive i seg # ops) =
     (let syn' = syn \<or> th_syn (seg_header seg)
      in (if syn' then {i..<i + length (Buffer_str (seg_payload seg))} else {}) \<union> arrived_indices syn' ops)"
| "arrived_indices syn (Consume k # ops) = arrived_indices syn ops"

fun arrived_fin :: "rv_op \<Rightarrow> bool" where
  "arrived_fin (Arrive i seg) \<longleftrightarrow> th_fin (seg_header seg)"
| "arrived_fin (Consume k) \<longleftrightarrow> False"

section \<open>The receiver follows the stream\<close>

definition receiver_rel :: "bytes \<Rightarrow> WrappingInt32 \<Rightarrow> bool \<Rightarrow> nat set \<Rightarrow> bool \<Rightarrow> TCPReceiver \<Rightarrow> bool" where
  "receiver_rel S isn syn R fin r \<longleftrightarrow>
     implements S R fin (rv_reassembler r)
     \<and> rv_capacity r = sr_capacity (rv_reassembler r)
     \<and> rv_if_syn_set r = syn \<and> (syn \<longrightarrow> rv_isn r = isn)
     \<and> rv_if_fin_set r = fin \<and> rv_abs_seqno_fin r = (if fin then of_nat (length S + 1) else 0)
     \<and> unat (rv_abs_checkpoint r) \<le> length S + 1"

lemma wrap_last:
  "WrappingInt32_minus (WrappingInt32_plus (wrap a isn) (ucast n)) 1 = wrap (a + n - 1) isn"
  by (simp add: WrappingInt32_minus_def wrap_ucast WrappingInt32_plus_assoc ucast_add_u32 ucast_diff_u32)

lemma receive_ignored:
  assumes "\<not> rv_if_syn_set r" "\<not> th_syn (seg_header seg)" "\<not> th_fin (seg_header seg)"
  shows "TCPReceiver_segment_received r seg = r\<lparr>rv_syn_flag := False, rv_fin_flag := False\<rparr>"
  using assms by (simp add: TCPReceiver_segment_received_def Let_def)

text \<open>What a segment from the peer does once the SYN has been seen.\<close>

lemma receive_accepted:
  assumes rel: "receiver_rel S isn syn R fin r" and ok: "segment_ok S isn r i seg"
    and syn': "syn \<or> th_syn (seg_header seg)"
  defines "r1 \<equiv> r\<lparr>rv_syn_flag := th_syn (seg_header seg), rv_fin_flag := th_fin (seg_header seg),
      rv_isn := isn, rv_if_syn_set := True, rv_if_fin_set := fin \<or> th_fin (seg_header seg),
      rv_abs_seqno_fin := if fin \<or> th_fin (seg_header seg) then of_nat (length S + 1) else 0\<rparr>"
  shows "TCPReceiver_segment_received r seg =
     (if seq_length seg = 0 then r1
      else r1\<lparr>rv_reassembler := StreamReassembler_push_substring (rv_reassembler r)
               (Buffer_str (seg_payload seg)) (of_nat i) (th_fin (seg_header seg)),
             rv_abs_checkpoint := of_nat (abs_start i seg)\<rparr>)"
proof -
  let ?h = "seg_header seg" and ?d = "Buffer_str (seg_payload seg)" and ?a = "abs_start i seg"
  have S: "length S + 2 ^ 32 \<le> 2 ^ 64"
    using rel by (simp add: receiver_rel_def implements_def StreamReassembler_inv_def)
  have okd: "th_seqno ?h = wrap (of_nat ?a) isn" "unat (rv_abs_checkpoint r) \<le> ?a + 2 ^ 31"
      "?a + seq_length seg \<le> unat (rv_abs_checkpoint r) + 2 ^ 31" "i \<le> length S" "th_syn ?h \<longrightarrow> i = 0"
      "push_ok S (rv_reassembler r) ?d (of_nat i) (th_fin ?h)"
    using ok by (simp_all add: segment_ok_def)
  have cp: "unat (rv_abs_checkpoint r) + 2 ^ 31 \<le> 2 ^ 64" using rel S by (simp add: receiver_rel_def)
  have ui: "unat (of_nat i :: size_t) = i"
    using okd(4) S by (simp add: unat_of_nat take_bit_nat_eq_self)
  have d: "length ?d \<le> length S"
    using okd(6) by (auto simp: push_ok_def consistent_def excerpt_at_def)
  have len: "TCPSegment_length_in_sequence_space seg = of_nat (seq_length seg)"
    "TCPSegment_length_in_sequence_space seg = 0 \<longleftrightarrow> seq_length seg = 0"
    using d S by (intro seq_length_unat; simp)+
  have isn: "wrap (of_nat 0) isn = isn" by (simp add: wrap_ucast)
  have isn': "(if \<not> syn \<and> th_syn ?h then th_seqno ?h else rv_isn r) = isn"
    using rel syn' okd(1) isn by (auto simp: receiver_rel_def abs_start_def)
  have abs: "seq_length seg \<noteq> 0 \<Longrightarrow> unwrap (th_seqno ?h) isn (rv_abs_checkpoint r) = of_nat ?a"
    unfolding okd(1) using okd(2,3) cp by (intro unwrap_near_nat) simp_all
  have idx: "(if \<not> th_syn ?h then of_nat ?a - 1 else of_nat ?a) = (of_nat i :: size_t)"
    using okd(5) by (simp add: abs_start_def)
  have fin: "unwrap (WrappingInt32_minus (WrappingInt32_plus (th_seqno ?h)
      (ucast (TCPSegment_length_in_sequence_space seg))) 1) isn (rv_abs_checkpoint r) = of_nat (length S + 1)"
    if "th_fin ?h"
  proof -
    have "i + length ?d = length S" using okd(6) that ui by (simp add: push_ok_def)
    then have e: "?a + seq_length seg - 1 = length S + 1"
      using okd(5) that by (cases "th_syn ?h") (simp_all add: abs_start_def seq_length_def)
    have "(of_nat ?a + of_nat (seq_length seg) - 1 :: u64) = of_nat (?a + seq_length seg - 1)"
      using that by (simp add: seq_length_def)
    then show ?thesis
      unfolding okd(1) len(1) wrap_last e using okd(2,3) cp e that
      by (simp only:) (intro unwrap_near_nat; simp add: seq_length_def)
  qed
  have r: "rv_if_syn_set r = syn" "rv_if_fin_set r = fin" "rv_abs_seqno_fin r = (if fin then of_nat (length S + 1) else 0)"
    using rel by (simp_all add: receiver_rel_def)
  show ?thesis
    using syn' isn' fin abs idx r
    unfolding TCPReceiver_segment_received_def Let_def r1_def len(2)
    by (cases "th_syn ?h"; cases syn; cases "th_fin ?h"; cases fin; cases "seq_length seg = 0") simp_all
qed

lemma receive_rel:
  assumes rel: "receiver_rel S isn syn R fin r" and ok: "segment_ok S isn r i seg"
    and w: "written_exactly S d (rv_reassembler r)"
  defines "r' \<equiv> TCPReceiver_segment_received r seg" and "syn' \<equiv> syn \<or> th_syn (seg_header seg)"
  shows "receiver_rel S isn syn' (R \<union> (if syn' then {i..<i + length (Buffer_str (seg_payload seg))} else {}))
           (th_fin (seg_header seg) \<or> fin) r' \<and> written_exactly S d (rv_reassembler r')"
proof (cases syn')
  case False
  then have no: "\<not> rv_if_syn_set r" "\<not> th_syn (seg_header seg)" "\<not> th_fin (seg_header seg)"
    using rel ok by (auto simp: syn'_def receiver_rel_def segment_ok_def)
  show ?thesis
    using rel w False no unfolding r'_def receive_ignored [OF no]
    by (simp add: receiver_rel_def syn'_def)
next
  case True
  note acc = receive_accepted [OF rel ok True [unfolded syn'_def]]
  have okd: "push_ok S (rv_reassembler r) (Buffer_str (seg_payload seg)) (of_nat i) (th_fin (seg_header seg))"
      "i \<le> length S" "th_syn (seg_header seg) \<longrightarrow> i = 0"
    using ok by (simp_all add: segment_ok_def)
  have impl: "implements S R fin (rv_reassembler r)" and S: "length S + 2 ^ 32 \<le> 2 ^ 64"
    using rel by (simp_all add: receiver_rel_def implements_def StreamReassembler_inv_def)
  have ui: "unat (of_nat i :: size_t) = i" "unat (of_nat (abs_start i seg) :: size_t) = abs_start i seg"
    using okd(2) S by (simp_all add: unat_of_nat take_bit_nat_eq_self abs_start_def)
  show ?thesis
  proof (cases "seq_length seg = 0")
    case 0: True
    then show ?thesis
      using True rel w unfolding r'_def acc by (auto simp: receiver_rel_def seq_length_def)
  next
    case False
    have cap: "sr_capacity (StreamReassembler_push_substring q x j e) = sr_capacity q" for q x j e
      by (simp add: StreamReassembler_push_substring_def case_prod_beta Let_def)
    show ?thesis
      using True rel False push_implements [OF impl okd(1)] push_written_exactly [OF impl okd(1) w] okd(2) ui
      unfolding r'_def acc by (auto simp: receiver_rel_def abs_start_def cap disj_commute)
  qed
qed

lemma consume_rel:
  assumes rel: "receiver_rel S isn syn R fin r" and w: "written_exactly S d (rv_reassembler r)"
    and rd: "ByteStream_read (TCPReceiver_stream_out r) k = (out, d1)"
  shows "receiver_rel S isn syn R fin (TCPReceiver_set_stream_out out r)
     \<and> written_exactly S (d @ d1) (rv_reassembler (TCPReceiver_set_stream_out out r))"
proof -
  have impl: "implements S R fin (rv_reassembler r)" using rel by (simp add: receiver_rel_def)
  then have "StreamReassembler_inv S (rv_reassembler r)" by (simp add: implements_def)
  from drain_facts [OF this rd] show ?thesis
    using drain_implements [OF impl rd] rel w
    by (simp add: receiver_rel_def TCPReceiver_set_stream_out_def written_exactly_def)
qed

lemma run_rel:
  assumes "receiver_rel S isn syn R fin r" and "arrivals_ok S isn r ops"
    and "TCPReceiver_run r ops = (r', ds)" and "written_exactly S d (rv_reassembler r)"
  shows "receiver_rel S isn (syn \<or> list_ex arrived_syn ops) (R \<union> arrived_indices syn ops)
           (list_ex arrived_fin ops \<or> fin) r'
     \<and> written_exactly S (d @ ds) (rv_reassembler r')"
  using assms
proof (induction ops arbitrary: r r' d ds syn R fin)
  case Nil
  then show ?case by simp
next
  case (Cons x ops)
  show ?case
  proof (cases x)
    case (Arrive i seg)
    have ok: "segment_ok S isn r i seg" "arrivals_ok S isn (TCPReceiver_segment_received r seg) ops"
        "TCPReceiver_run (TCPReceiver_segment_received r seg) ops = (r', ds)"
      using Cons.prems(2,3) Arrive by simp_all
    from receive_rel [OF Cons.prems(1) ok(1) Cons.prems(4)]
    show ?thesis
      using Cons.IH [OF conjunct1 ok(2,3) conjunct2] Arrive
      by (fastforce simp: Let_def Un_assoc disj_assoc disj_left_commute)
  next
    case (Consume k)
    obtain out d1 where rd: "ByteStream_read (TCPReceiver_stream_out r) k = (out, d1)" by fastforce
    obtain ds' where run: "TCPReceiver_run (TCPReceiver_set_stream_out out r) ops = (r', ds')" "ds = d1 @ ds'"
      using Cons.prems(3) Consume rd by (auto split: prod.splits)
    have ok: "arrivals_ok S isn (TCPReceiver_set_stream_out out r) ops"
      using Cons.prems(2) Consume rd by simp
    from consume_rel [OF Cons.prems(1,4) rd] Cons.IH [OF _ ok run(1), of syn R fin "d @ d1"] Consume run(2)
    show ?thesis by simp
  qed
qed

lemma run_capacity:
  "TCPReceiver_run r ops = (r', ds) \<Longrightarrow> rv_capacity r' = rv_capacity r"
proof (induction ops arbitrary: r ds)
  case (Cons x ops)
  have "rv_capacity (TCPReceiver_segment_received r seg) = rv_capacity r" for r seg
    by (simp add: TCPReceiver_segment_received_def Let_def)
  with Cons show ?case
    by (cases x) (auto simp: TCPReceiver_set_stream_out_def split: prod.splits)
qed simp

lemma new_rel:
  assumes "unat c < 2 ^ 31" and "length S + 2 ^ 32 \<le> 2 ^ 64"
  shows "receiver_rel S isn False {} False (TCPReceiver_new c)
     \<and> written_exactly S [] (rv_reassembler (TCPReceiver_new c))"
  using new_implements [OF assms]
  by (simp add: receiver_rel_def TCPReceiver_new_def written_exactly_def StreamReassembler_new_def ByteStream_new_def)

lemma receiver_rel_ackno:
  assumes "receiver_rel S isn syn R fin r"
  shows "TCPReceiver_ackno r =
     (if syn then let n = unat (sr_next_index (rv_reassembler r))
                  in Some (wrap (of_nat (n + 1 + of_bool (fin \<and> n = length S))) isn)
      else None)"
proof -
  let ?k = "sr_next_index (rv_reassembler r)"
  have le: "unat ?k \<le> length S" and S: "length S + 2 ^ 32 \<le> 2 ^ 64"
    using assms by (simp_all add: receiver_rel_def implements_def StreamReassembler_inv_def)
  then have u: "unat (?k + 1) = unat ?k + 1" "unat (of_nat (length S + 1) :: u64) = length S + 1"
    by (simp_all add: unat_word_ariths unat_of_nat take_bit_nat_eq_self)
  have "?k + 1 = of_nat (length S + 1) \<longleftrightarrow> unat ?k = length S"
    unfolding word_unat_eq_iff u by simp
  moreover have "?k + 1 \<noteq> 0" using u(1) by (metis unat_0 add_is_0 one_neq_zero)
  ultimately have e: "?k + 1 = rv_abs_seqno_fin r \<longleftrightarrow> fin \<and> unat ?k = length S"
    using assms by (simp add: receiver_rel_def)
  have n: "of_nat (unat ?k + 1 + of_bool b) = ?k + 1 + (if b then 1 else 0)" for b
    by simp
  have "TCPReceiver_ackno r =
      (if syn then Some (wrap (?k + 1 + (if ?k + 1 = rv_abs_seqno_fin r then 1 else 0)) isn) else None)"
    using assms by (auto simp: TCPReceiver_ackno_def receiver_rel_def Let_def)
  then show ?thesis unfolding Let_def n e .
qed

section \<open>A stream that has ended\<close>

lemma push_after_end:
  assumes "bs_input_ended (sr_output q)"
  shows "bs_input_ended (sr_output (StreamReassembler_push_substring q x j e))
     \<and> bs_buffer (sr_output (StreamReassembler_push_substring q x j e)) = bs_buffer (sr_output q)"
  using assms by (simp add: StreamReassembler_push_substring_def case_prod_beta Let_def ByteStream_write_def)

lemma receive_after_end:
  assumes "bs_input_ended (TCPReceiver_stream_out r)"
  shows "bs_input_ended (TCPReceiver_stream_out (TCPReceiver_segment_received r seg))
     \<and> bs_buffer (TCPReceiver_stream_out (TCPReceiver_segment_received r seg)) = bs_buffer (TCPReceiver_stream_out r)"
  using push_after_end [OF assms] assms by (simp add: TCPReceiver_segment_received_def Let_def)

lemma receive_all_after_end:
  assumes "bs_input_ended (TCPReceiver_stream_out r)"
  shows "bs_input_ended (TCPReceiver_stream_out (fold (\<lambda>seg r. TCPReceiver_segment_received r seg) segs r))
     \<and> bs_buffer (TCPReceiver_stream_out (fold (\<lambda>seg r. TCPReceiver_segment_received r seg) segs r))
        = bs_buffer (TCPReceiver_stream_out r)"
  using assms
proof (induction segs arbitrary: r)
  case (Cons seg segs)
  with receive_after_end [OF Cons.prems, of seg] show ?case by simp
qed simp

lemma push_empty_noop:
  "sr_unassembled r = [] \<Longrightarrow> sr_unassembled_bytes r = 0 \<Longrightarrow> \<not> sr_if_eof r \<Longrightarrow>
   StreamReassembler_push_substring r [] index False = r"
  by (simp add: StreamReassembler_push_substring_def slice_empty)

section \<open>Properties\<close>


text \<open>A run for the witness: the SYN at 0xFFFFFFFF, the end of the stream first, then its front.\<close>

definition example_segment :: "u32 \<Rightarrow> bool \<Rightarrow> bytes \<Rightarrow> bool \<Rightarrow> TCPSegment" where
  "example_segment seqno syn data fin =
     \<lparr>seg_header = TCPHeader_new\<lparr>th_seqno := WrappingInt32 seqno, th_syn := syn, th_fin := fin\<rparr>,
      seg_payload = Buffer_of data\<rparr>"

lemma example_segment_simps [simp]:
  "th_seqno (seg_header (example_segment seqno syn data fin)) = WrappingInt32 seqno"
  "th_syn (seg_header (example_segment seqno syn data fin)) = syn"
  "th_fin (seg_header (example_segment seqno syn data fin)) = fin"
  "length data < 2 ^ 64 \<Longrightarrow> Buffer_str (seg_payload (example_segment seqno syn data fin)) = data"
  by (simp_all add: example_segment_def Buffer_str_of)

definition example_run :: "rv_op list" where
  "example_run =
     [Arrive 0 (example_segment 0xFFFFFFFF True [] False), Arrive 2 (example_segment 2 False [12, 13] True),
      Arrive 0 (example_segment 0 False [10, 11, 12] False), Consume 3]"

lemma example_ok: "arrivals_ok [10, 11, 12, 13] (WrappingInt32 0xFFFFFFFF) (TCPReceiver_new 8) example_run"
proof -
  let ?r0 = "TCPReceiver_new 8"
  define r1 where "r1 = TCPReceiver_segment_received ?r0 (example_segment 0xFFFFFFFF True [] False)"
  define r2 where "r2 = TCPReceiver_segment_received r1 (example_segment 2 False [12, 13] True)"
  have r1: "rv_abs_checkpoint r1 = 0" "rv_if_syn_set r1" "sr_next_index (rv_reassembler r1) = 0"
      "sr_capacity (rv_reassembler r1) = 8" "bs_buffer (sr_output (rv_reassembler r1)) = []"
    unfolding r1_def by code_simp+
  have r2: "rv_abs_checkpoint r2 = 3" "rv_if_syn_set r2" "sr_next_index (rv_reassembler r2) = 0"
      "sr_capacity (rv_reassembler r2) = 8" "bs_buffer (sr_output (rv_reassembler r2)) = []"
    unfolding r2_def r1_def by code_simp+
  have w: "wrap 0 (WrappingInt32 0xFFFFFFFF) = WrappingInt32 0xFFFFFFFF"
      "wrap 3 (WrappingInt32 0xFFFFFFFF) = WrappingInt32 2" "wrap 1 (WrappingInt32 0xFFFFFFFF) = WrappingInt32 0"
    by code_simp+
  show ?thesis
    unfolding example_run_def arrivals_ok.simps r1_def [symmetric] r2_def [symmetric]
    by (simp add: segment_ok_def push_ok_def sr_room_def r1 r2 abs_start_def seq_length_def
        consistent_def excerpt_at_def w TCPReceiver_new_def)
qed


text \<open>
  C17. A FIN that overtakes the data in front of it loses that data: when a segment that
  carries only the FIN is accepted while no bytes are held out of order, the inbound stream
  is ended at once, however many bytes before the FIN are still missing, and no segment
  that arrives later adds a byte to it. In the witness the three missing bytes arrive
  afterwards and are acknowledged together with the FIN, but never delivered.
\<close>

theorem TCPReceiver_early_fin_loses_data:
  assumes "rv_if_syn_set r" and "sr_unassembled (rv_reassembler r) = []" and "sr_unassembled_bytes (rv_reassembler r) = 0"
    and "th_fin (seg_header seg)" and "Buffer_str (seg_payload seg) = []"
  shows "let r' = TCPReceiver_segment_received r seg;
             r'' = fold (\<lambda>seg r. TCPReceiver_segment_received r seg) segs r'
         in bs_input_ended (TCPReceiver_stream_out r')
          \<and> bs_buffer (TCPReceiver_stream_out r'') = bs_buffer (TCPReceiver_stream_out r)"
proof -
  let ?r' = "TCPReceiver_segment_received r seg"
  have "TCPSegment_length_in_sequence_space seg \<noteq> 0"
    using assms(4,5) by (simp add: TCPSegment_length_in_sequence_space_def)
  then have "bs_input_ended (TCPReceiver_stream_out ?r')
      \<and> bs_buffer (TCPReceiver_stream_out ?r') = bs_buffer (TCPReceiver_stream_out r)"
    using assms by (simp add: TCPReceiver_segment_received_def Let_def push_empty_eof)
  with receive_all_after_end [of ?r' segs] show ?thesis by (simp add: Let_def)
qed

theorem TCPReceiver_early_fin_loses_data_witness:
  "let r = TCPReceiver_segment_received (TCPReceiver_new 8) (example_segment 100 True [] False);
       r' = TCPReceiver_segment_received r (example_segment 104 False [] True);
       r'' = TCPReceiver_segment_received r' (example_segment 101 False [1, 2, 3] False)
   in bs_input_ended (TCPReceiver_stream_out r') \<and> bs_buffer (TCPReceiver_stream_out r'') = []
    \<and> TCPReceiver_ackno r'' = Some (WrappingInt32 105)"
proof -
  define r where "r = TCPReceiver_segment_received (TCPReceiver_new 8) (example_segment 100 True [] False)"
  have "rv_if_syn_set r" "sr_unassembled (rv_reassembler r) = []" "sr_unassembled_bytes (rv_reassembler r) = 0"
      "bs_buffer (TCPReceiver_stream_out r) = []"
    unfolding r_def by code_simp+
  moreover have "TCPReceiver_ackno (TCPReceiver_segment_received (TCPReceiver_segment_received r
      (example_segment 104 False [] True)) (example_segment 101 False [1, 2, 3] False)) = Some (WrappingInt32 105)"
    unfolding r_def by code_simp
  ultimately show ?thesis
    using TCPReceiver_early_fin_loses_data [of r "example_segment 104 False [] True" "[example_segment 101 False [1, 2, 3] False]"]
    unfolding r_def [symmetric] by (simp add: Let_def)
qed

text \<open>
  A FIN that arrives before any SYN is remembered although the segment is ignored: the
  absolute number of the FIN is computed against the initial sequence number 0 and never
  corrected, so the FIN of the connection that is then opened ends the inbound stream but
  is not counted in the acknowledgment number.
\<close>

theorem TCPReceiver_stray_fin:
  assumes "\<not> th_syn (seg_header stray)" and "th_fin (seg_header stray)"
    and "unwrap (WrappingInt32_minus (WrappingInt32_plus (th_seqno (seg_header stray))
           (ucast (TCPSegment_length_in_sequence_space stray))) 1) (WrappingInt32 0) 0 \<noteq> 1"
    and "th_syn (seg_header syn)" and "\<not> th_fin (seg_header syn)" and "Buffer_str (seg_payload syn) = []"
    and "\<not> th_syn (seg_header fin)" and "th_fin (seg_header fin)" and "Buffer_str (seg_payload fin) = []"
  shows "let r = fold (\<lambda>seg r. TCPReceiver_segment_received r seg) [stray, syn, fin] (TCPReceiver_new c)
         in bs_input_ended (TCPReceiver_stream_out r)
          \<and> TCPReceiver_ackno r = Some (WrappingInt32_plus (th_seqno (seg_header syn)) 1)"
proof -
  define X where "X = unwrap (WrappingInt32_minus (WrappingInt32_plus (th_seqno (seg_header stray))
           (ucast (TCPSegment_length_in_sequence_space stray))) 1) (WrappingInt32 0) 0"
  define q where "q = StreamReassembler_new c"
  define isn where "isn = th_seqno (seg_header syn)"
  have q: "sr_unassembled q = []" "sr_unassembled_bytes q = 0" "\<not> sr_if_eof q" "sr_next_index q = 0"
    by (simp_all add: q_def StreamReassembler_new_def)
  have len: "TCPSegment_length_in_sequence_space syn \<noteq> 0" "TCPSegment_length_in_sequence_space fin \<noteq> 0"
    using assms(4-9) by (simp_all add: TCPSegment_length_in_sequence_space_def)
  define r1 where "r1 = TCPReceiver_segment_received (TCPReceiver_new c) stray"
  define r2 where "r2 = TCPReceiver_segment_received r1 syn"
  define r3 where "r3 = TCPReceiver_segment_received r2 fin"
  have "r1 = (TCPReceiver_new c)\<lparr>rv_fin_flag := True, rv_if_fin_set := True, rv_abs_seqno_fin := X\<rparr>"
    using assms(1,2) by (simp add: r1_def X_def TCPReceiver_segment_received_def Let_def TCPReceiver_new_def)
  then have r1: "rv_reassembler r1 = q" "\<not> rv_if_syn_set r1" "rv_if_fin_set r1" "rv_abs_seqno_fin r1 = X"
    by (simp_all add: TCPReceiver_new_def q_def)
  have r2: "rv_reassembler r2 = q" "rv_if_syn_set r2" "rv_if_fin_set r2" "rv_abs_seqno_fin r2 = X" "rv_isn r2 = isn"
    using assms(4-6) r1 len push_empty_noop [OF q(1,2,3)]
    by (simp_all add: r2_def TCPReceiver_segment_received_def Let_def isn_def)
  have r3: "\<exists>j. rv_reassembler r3 = StreamReassembler_push_substring q [] j True"
      "rv_if_syn_set r3" "rv_abs_seqno_fin r3 = X" "rv_isn r3 = isn"
    using assms(7-9) r2 len by (auto simp: r3_def TCPReceiver_segment_received_def Let_def)
  then have "sr_next_index (rv_reassembler r3) = 0" "bs_input_ended (TCPReceiver_stream_out r3)"
    using q by (auto simp: push_empty_eof)
  with r3 assms(3) show ?thesis
    by (simp add: r3_def [symmetric] r2_def [symmetric] r1_def [symmetric] X_def [symmetric]
        TCPReceiver_ackno_def Let_def wrap_ucast isn_def)
qed

theorem TCPReceiver_stray_fin_witness:
  "let r = fold (\<lambda>seg r. TCPReceiver_segment_received r seg)
       [example_segment 500 False [] True, example_segment 100 True [] False, example_segment 101 False [] True]
       (TCPReceiver_new 8)
   in bs_input_ended (TCPReceiver_stream_out r) \<and> TCPReceiver_ackno r = Some (WrappingInt32 101)"
proof -
  have "unwrap (WrappingInt32_minus (WrappingInt32_plus (WrappingInt32 500)
         (ucast (TCPSegment_length_in_sequence_space (example_segment 500 False [] True)))) 1) (WrappingInt32 0) 0 \<noteq> 1"
    by code_simp
  then show ?thesis
    using TCPReceiver_stray_fin [of "example_segment 500 False [] True" "example_segment 100 True [] False"
        "example_segment 101 False [] True" 8] by (simp add: WrappingInt32_plus_def)
qed

end
