(* ===== verification/TCP_State.thy ===== *)
theory TCP_State
  imports TCP_Receiver TCP_Sender
begin

text \<open>
  The summary of a connection's state by the names of the TCP specification:
  \<open>tcp_helpers/tcp_state.hh\<close> and \<open>tcp_state.cc\<close>. The summaries are the strings of the
  code, so equality of states and their printed names are those of the code.
\<close>

section \<open>State and operations\<close>

definition RSummary_ERROR :: string where
  "RSummary_ERROR = ''error (connection was reset)''"

definition RSummary_LISTEN :: string where
  "RSummary_LISTEN = ''waiting for SYN: ackno is empty''"

definition RSummary_SYN_RECV :: string where
  "RSummary_SYN_RECV = ''SYN received (ackno exists), and input to stream hasn'' @ [CHR 0x27] @ ''t ended''"

definition RSummary_FIN_RECV :: string where
  "RSummary_FIN_RECV = ''input to stream has ended''"

definition SSummary_ERROR :: string where
  "SSummary_ERROR = ''error (connection was reset)''"

definition SSummary_CLOSED :: string where
  "SSummary_CLOSED = ''waiting for stream to begin (no SYN sent)''"

definition SSummary_SYN_SENT :: string where
  "SSummary_SYN_SENT = ''stream started but nothing acknowledged''"

definition SSummary_SYN_ACKED :: string where
  "SSummary_SYN_ACKED = ''stream ongoing''"

definition SSummary_FIN_SENT :: string where
  "SSummary_FIN_SENT = ''stream finished (FIN sent) but not fully acknowledged''"

definition SSummary_FIN_ACKED :: string where
  "SSummary_FIN_ACKED = ''stream finished and fully acknowledged''"

lemmas summary_defs = RSummary_ERROR_def RSummary_LISTEN_def RSummary_SYN_RECV_def RSummary_FIN_RECV_def
  SSummary_ERROR_def SSummary_CLOSED_def SSummary_SYN_SENT_def SSummary_SYN_ACKED_def
  SSummary_FIN_SENT_def SSummary_FIN_ACKED_def

record TCPState =
  ts_sender :: string
  ts_receiver :: string
  ts_active :: bool
  ts_linger_after_streams_finish :: bool

datatype State =
    LISTEN | SYN_RCVD | SYN_SENT | ESTABLISHED | CLOSE_WAIT | LAST_ACK
  | FIN_WAIT_1 | FIN_WAIT_2 | CLOSING | TIME_WAIT | CLOSED | RESET

definition TCPState_eq :: "TCPState \<Rightarrow> TCPState \<Rightarrow> bool" where
  "TCPState_eq s other \<longleftrightarrow>
     ts_active s = ts_active other
     \<and> ts_linger_after_streams_finish s = ts_linger_after_streams_finish other
     \<and> ts_sender s = ts_sender other \<and> ts_receiver s = ts_receiver other"

text \<open>\<open>std::to_string\<close> of a \<open>bool\<close> prints the promoted integer.\<close>

definition to_string_bool :: "bool \<Rightarrow> string" where
  "to_string_bool b = (if b then ''1'' else ''0'')"

definition TCPState_name :: "TCPState \<Rightarrow> string" where
  "TCPState_name s =
     ''sender=`'' @ ts_sender s @ ''`, receiver=`'' @ ts_receiver s @ ''`, active='' @ to_string_bool (ts_active s)
     @ '', linger_after_streams_finish='' @ to_string_bool (ts_linger_after_streams_finish s)"

text \<open>The default member initializers.\<close>

definition TCPState_init :: TCPState where
  "TCPState_init =
     \<lparr>ts_sender = [], ts_receiver = [], ts_active = True, ts_linger_after_streams_finish = True\<rparr>"

fun TCPState_of_State :: "State \<Rightarrow> TCPState" where
  "TCPState_of_State LISTEN =
     TCPState_init\<lparr>ts_receiver := RSummary_LISTEN, ts_sender := SSummary_CLOSED\<rparr>"
| "TCPState_of_State SYN_RCVD =
     TCPState_init\<lparr>ts_receiver := RSummary_SYN_RECV, ts_sender := SSummary_SYN_SENT\<rparr>"
| "TCPState_of_State SYN_SENT =
     TCPState_init\<lparr>ts_receiver := RSummary_LISTEN, ts_sender := SSummary_SYN_SENT\<rparr>"
| "TCPState_of_State ESTABLISHED =
     TCPState_init\<lparr>ts_receiver := RSummary_SYN_RECV, ts_sender := SSummary_SYN_ACKED\<rparr>"
| "TCPState_of_State CLOSE_WAIT =
     TCPState_init\<lparr>ts_receiver := RSummary_FIN_RECV, ts_sender := SSummary_SYN_ACKED,
       ts_linger_after_streams_finish := False\<rparr>"
| "TCPState_of_State LAST_ACK =
     TCPState_init\<lparr>ts_receiver := RSummary_FIN_RECV, ts_sender := SSummary_FIN_SENT,
       ts_linger_after_streams_finish := False\<rparr>"
| "TCPState_of_State CLOSING =
     TCPState_init\<lparr>ts_receiver := RSummary_FIN_RECV, ts_sender := SSummary_FIN_SENT\<rparr>"
| "TCPState_of_State FIN_WAIT_1 =
     TCPState_init\<lparr>ts_receiver := RSummary_SYN_RECV, ts_sender := SSummary_FIN_SENT\<rparr>"
| "TCPState_of_State FIN_WAIT_2 =
     TCPState_init\<lparr>ts_receiver := RSummary_SYN_RECV, ts_sender := SSummary_FIN_ACKED\<rparr>"
| "TCPState_of_State TIME_WAIT =
     TCPState_init\<lparr>ts_receiver := RSummary_FIN_RECV, ts_sender := SSummary_FIN_ACKED\<rparr>"
| "TCPState_of_State RESET =
     TCPState_init\<lparr>ts_receiver := RSummary_ERROR, ts_sender := SSummary_ERROR,
       ts_linger_after_streams_finish := False, ts_active := False\<rparr>"
| "TCPState_of_State CLOSED =
     TCPState_init\<lparr>ts_receiver := RSummary_FIN_RECV, ts_sender := SSummary_FIN_ACKED,
       ts_linger_after_streams_finish := False, ts_active := False\<rparr>"

definition TCPState_receiver_summary :: "TCPReceiver \<Rightarrow> string" where
  "TCPState_receiver_summary receiver =
     (if bs_error (TCPReceiver_stream_out receiver) then RSummary_ERROR
      else if TCPReceiver_ackno receiver = None then RSummary_LISTEN
      else if bs_input_ended (TCPReceiver_stream_out receiver) then RSummary_FIN_RECV
      else RSummary_SYN_RECV)"

definition TCPState_sender_summary :: "TCPSender \<Rightarrow> string" where
  "TCPState_sender_summary sender =
     (if bs_error (sn_stream sender) then SSummary_ERROR
      else if sn_next_seqno sender = 0 then SSummary_CLOSED
      else if sn_next_seqno sender = sn_bytes_in_flight sender then SSummary_SYN_SENT
      else if \<not> ByteStream_eof (sn_stream sender) then SSummary_SYN_ACKED
      else if sn_next_seqno sender < ByteStream_bytes_written (sn_stream sender) + 2 then SSummary_SYN_ACKED
      else if sn_bytes_in_flight sender \<noteq> 0 then SSummary_FIN_SENT
      else SSummary_FIN_ACKED)"

definition TCPState_of :: "TCPSender \<Rightarrow> TCPReceiver \<Rightarrow> bool \<Rightarrow> bool \<Rightarrow> TCPState" where
  "TCPState_of sender receiver active linger =
     \<lparr>ts_sender = TCPState_sender_summary sender, ts_receiver = TCPState_receiver_summary receiver,
      ts_active = active, ts_linger_after_streams_finish = (if active then linger else False)\<rparr>"

section \<open>Equality and names\<close>

lemma TCPState_eq_iff: "TCPState_eq s t \<longleftrightarrow> s = t"
  by (auto simp: TCPState_eq_def intro: TCPState.equality)

lemma inj_TCPState_of_State: "inj TCPState_of_State"
proof (rule injI)
  fix x y assume "TCPState_of_State x = TCPState_of_State y"
  then show "x = y"
    by (cases x; cases y) (simp_all add: TCPState_init_def summary_defs)
qed

end
