(* ===== verification/TCP_Connection.thy ===== *)
theory TCP_Connection
  imports TCP_State
begin

text \<open>
  A complete endpoint: \<open>libsponge/tcp_connection.hh\<close> and \<open>tcp_connection.cc\<close>. A connection
  holds a receiver and a sender, moves the sender's segments to its own queue stamped with
  the receiver's acknowledgment, and decides when the connection is over. The destructor is
  an operation like the others. Every operation is shown to keep the sender's invariant and
  never to reach an undefined call, whatever segments arrive.
\<close>

section \<open>State and operations\<close>

record TCPConnection =
  cn_cfg :: TCPConfig
  cn_receiver :: TCPReceiver
  cn_sender :: TCPSender
  cn_segments_out :: "TCPSegment list"
  cn_linger_after_streams_finish :: bool
  cn_active :: bool
  cn_time_since_last_segment_received :: size_t

definition TCPConnection_new :: "u32 \<Rightarrow> TCPConfig \<Rightarrow> TCPConnection" where
  "TCPConnection_new rand cfg =
     \<lparr>cn_cfg = cfg, cn_receiver = TCPReceiver_new (cfg_recv_capacity cfg),
      cn_sender = TCPSender_new rand (cfg_send_capacity cfg) (cfg_rt_timeout cfg) (cfg_fixed_isn cfg),
      cn_segments_out = [], cn_linger_after_streams_finish = True, cn_active = True,
      cn_time_since_last_segment_received = 0\<rparr>"

definition TCPConnection_remaining_outbound_capacity :: "TCPConnection \<Rightarrow> size_t" where
  "TCPConnection_remaining_outbound_capacity c = ByteStream_remaining_capacity (sn_stream (cn_sender c))"

definition TCPConnection_bytes_in_flight :: "TCPConnection \<Rightarrow> size_t" where
  "TCPConnection_bytes_in_flight c = sn_bytes_in_flight (cn_sender c)"

definition TCPConnection_unassembled_bytes :: "TCPConnection \<Rightarrow> size_t" where
  "TCPConnection_unassembled_bytes c = TCPReceiver_unassembled_bytes (cn_receiver c)"

definition TCPConnection_state :: "TCPConnection \<Rightarrow> TCPState" where
  "TCPConnection_state c =
     TCPState_of (cn_sender c) (cn_receiver c) (cn_active c) (cn_linger_after_streams_finish c)"

abbreviation TCPConnection_inbound_stream :: "TCPConnection \<Rightarrow> ByteStream" where
  "TCPConnection_inbound_stream c \<equiv> TCPReceiver_stream_out (cn_receiver c)"

text \<open>The acknowledgment fields, which \<open>send_segments\<close> and both resets set in the same way.\<close>

definition stamp_ack :: "TCPReceiver \<Rightarrow> TCPSegment \<Rightarrow> TCPSegment" where
  "stamp_ack r segment =
     (case TCPReceiver_ackno r of
        None \<Rightarrow> segment
      | Some ackno \<Rightarrow>
          segment\<lparr>seg_header := (seg_header segment)
            \<lparr>th_ack := True, th_ackno := ackno, th_win := ucast (min (TCPReceiver_window_size r) 65535)\<rparr>\<rparr>)"

function TCPConnection_send_segments :: "TCPConnection \<Rightarrow> TCPConnection" where
  "TCPConnection_send_segments c =
     (case sn_segments_out (cn_sender c) of
        [] \<Rightarrow> c
      | segment # rest \<Rightarrow>
          TCPConnection_send_segments
            (c\<lparr>cn_segments_out := cn_segments_out c @ [stamp_ack (cn_receiver c) segment],
               cn_sender := (cn_sender c)\<lparr>sn_segments_out := rest\<rparr>\<rparr>))"
  by auto
termination
  by (relation "measure (\<lambda>c. length (sn_segments_out (cn_sender c)))") simp_all

declare TCPConnection_send_segments.simps [simp del]

text \<open>Both streams in error, the connection over.\<close>

definition TCPConnection_unclean_shutdown :: "TCPConnection \<Rightarrow> TCPConnection" where
  "TCPConnection_unclean_shutdown c =
     c\<lparr>cn_sender := (cn_sender c)\<lparr>sn_stream := ByteStream_set_error (sn_stream (cn_sender c))\<rparr>,
       cn_receiver := TCPReceiver_set_stream_out
         (ByteStream_set_error (TCPReceiver_stream_out (cn_receiver c))) (cn_receiver c),
       cn_active := False\<rparr>"

text \<open>
  The unclean shutdown of \<open>tick\<close> and of the destructor: an empty segment is queued, and the
  segment at the front of the sender's queue goes out with the RST flag.
\<close>

definition TCPConnection_abort :: "TCPConnection \<Rightarrow> TCPConnection result" where
  "TCPConnection_abort c =
     (let c = TCPConnection_unclean_shutdown c;
          c = c\<lparr>cn_sender := TCPSender_send_empty_segment (cn_sender c)\<rparr>
      in case sn_segments_out (cn_sender c) of
           [] \<Rightarrow> Inl Undefined_behaviour
         | front # rest \<Rightarrow>
             let rst_segment = front\<lparr>seg_header := (seg_header front)\<lparr>th_rst := True\<rparr>\<rparr>;
                 rst_segment = stamp_ack (cn_receiver c) rst_segment
             in Inr (c\<lparr>cn_sender := (cn_sender c)\<lparr>sn_segments_out := rest\<rparr>,
                       cn_segments_out := cn_segments_out c @ [rst_segment]\<rparr>))"

definition TCPConnection_segment_received :: "TCPConnection \<Rightarrow> TCPSegment \<Rightarrow> TCPConnection" where
  "TCPConnection_segment_received c seg =
     (let c = (if th_rst (seg_header seg) then TCPConnection_unclean_shutdown c else c);
          c = c\<lparr>cn_receiver := TCPReceiver_segment_received (cn_receiver c) seg\<rparr>;
          c = (if th_ack (seg_header seg) then
                 let s = TCPSender_ack_received (cn_sender c) (th_ackno (seg_header seg)) (th_win (seg_header seg))
                 in c\<lparr>cn_sender := (if sn_is_syn_set s then TCPSender_fill_window s else s)\<rparr>
               else c);
          c = (if TCPSegment_length_in_sequence_space seg \<noteq> 0 then
                 if th_syn (seg_header seg) \<and> \<not> sn_is_syn_set (cn_sender c)
                 then c\<lparr>cn_sender := TCPSender_fill_window (cn_sender c)\<rparr>
                 else c\<lparr>cn_sender := TCPSender_send_empty_segment (cn_sender c)\<rparr>
               else c);
          c = (case TCPReceiver_ackno (cn_receiver c) of
                 Some ackno \<Rightarrow>
                   if TCPSegment_length_in_sequence_space seg = 0
                      \<and> WrappingInt32_eq (th_seqno (seg_header seg)) (WrappingInt32_minus ackno 1)
                   then c\<lparr>cn_sender := TCPSender_send_empty_segment (cn_sender c)\<rparr> else c
               | None \<Rightarrow> c);
          c = (if \<not> sn_is_fin_set (cn_sender c) \<and> bs_input_ended (TCPConnection_inbound_stream c)
               then c\<lparr>cn_linger_after_streams_finish := False\<rparr> else c)
      in TCPConnection_send_segments (c\<lparr>cn_time_since_last_segment_received := 0\<rparr>))"

definition TCPConnection_write :: "TCPConnection \<Rightarrow> bytes \<Rightarrow> TCPConnection \<times> size_t" where
  "TCPConnection_write c data =
     (if list_size data = 0 then (c, 0)
      else
        let (bs, num_written) = ByteStream_write (sn_stream (cn_sender c)) data;
            c = c\<lparr>cn_sender := TCPSender_fill_window ((cn_sender c)\<lparr>sn_stream := bs\<rparr>)\<rparr>
        in (TCPConnection_send_segments c, num_written))"

definition TCPConnection_streams_finished :: "TCPConnection \<Rightarrow> bool" where
  "TCPConnection_streams_finished c \<longleftrightarrow>
     ByteStream_eof (sn_stream (cn_sender c)) \<and> bs_input_ended (TCPConnection_inbound_stream c)
     \<and> TCPConnection_bytes_in_flight c = 0 \<and> TCPConnection_unassembled_bytes c = 0
     \<and> TCPSender_is_fin_acked (cn_sender c)
     \<and> sn_next_seqno (cn_sender c) = ByteStream_bytes_written (sn_stream (cn_sender c)) + 2"

definition TCPConnection_tick :: "TCPConnection \<Rightarrow> size_t \<Rightarrow> TCPConnection result" where
  "TCPConnection_tick c ms_since_last_tick =
     (let c = c\<lparr>cn_time_since_last_segment_received := cn_time_since_last_segment_received c + ms_since_last_tick\<rparr>
      in result_bind (TCPSender_tick (cn_sender c) ms_since_last_tick) (\<lambda>s.
        let c = c\<lparr>cn_sender := s\<rparr>
        in if MAX_RETX_ATTEMPTS < sn_consecutive_retransmissions s then TCPConnection_abort c
           else if TCPConnection_streams_finished c then
             let c = (if \<not> cn_linger_after_streams_finish c
                         \<or> 10 * ucast (cfg_rt_timeout (cn_cfg c)) \<le> cn_time_since_last_segment_received c
                      then c\<lparr>cn_active := False\<rparr> else c)
             in Inr (TCPConnection_send_segments c)
           else Inr (TCPConnection_send_segments c)))"

definition TCPConnection_end_input_stream :: "TCPConnection \<Rightarrow> TCPConnection" where
  "TCPConnection_end_input_stream c =
     (let s = (cn_sender c)\<lparr>sn_stream := ByteStream_end_input (sn_stream (cn_sender c))\<rparr>
      in TCPConnection_send_segments (c\<lparr>cn_sender := TCPSender_fill_window s\<rparr>))"

definition TCPConnection_connect :: "TCPConnection \<Rightarrow> TCPConnection" where
  "TCPConnection_connect c =
     (if \<not> cn_active c then c
      else TCPConnection_send_segments (c\<lparr>cn_sender := TCPSender_fill_window (cn_sender c)\<rparr>))"

text \<open>The destructor; what it leaves in \<open>segments_out()\<close> is what the peer would be sent.\<close>

definition TCPConnection_destruct :: "TCPConnection \<Rightarrow> TCPConnection result" where
  "TCPConnection_destruct c = (if cn_active c then TCPConnection_abort c else Inr c)"

text \<open>The owner's access to \<open>inbound_stream()\<close> and \<open>segments_out()\<close>.\<close>

definition TCPConnection_read_inbound :: "TCPConnection \<Rightarrow> size_t \<Rightarrow> TCPConnection \<times> bytes" where
  "TCPConnection_read_inbound c len =
     (let (bs, data) = ByteStream_read (TCPConnection_inbound_stream c) len
      in (c\<lparr>cn_receiver := TCPReceiver_set_stream_out bs (cn_receiver c)\<rparr>, data))"

section \<open>Moving segments out\<close>

lemma send_segments_eq:
  "TCPConnection_send_segments c =
     c\<lparr>cn_segments_out := cn_segments_out c @ map (stamp_ack (cn_receiver c)) (sn_segments_out (cn_sender c)),
       cn_sender := (cn_sender c)\<lparr>sn_segments_out := []\<rparr>\<rparr>"
proof (induction c rule: TCPConnection_send_segments.induct)
  case (1 c)
  show ?case
  proof (cases "sn_segments_out (cn_sender c)")
    case Nil
    then have "(cn_sender c)\<lparr>sn_segments_out := []\<rparr> = cn_sender c" by (metis TCPSender.surjective TCPSender.update_convs(2))
    with Nil show ?thesis by (subst TCPConnection_send_segments.simps) simp
  next
    case (Cons seg rest)
    with 1 [OF Cons] show ?thesis by (subst TCPConnection_send_segments.simps) simp
  qed
qed

lemma stamp_ack_simps [simp]:
  "seg_payload (stamp_ack r seg) = seg_payload seg"
  "th_seqno (seg_header (stamp_ack r seg)) = th_seqno (seg_header seg)"
  "th_syn (seg_header (stamp_ack r seg)) = th_syn (seg_header seg)"
  "th_fin (seg_header (stamp_ack r seg)) = th_fin (seg_header seg)"
  "th_rst (seg_header (stamp_ack r seg)) = th_rst (seg_header seg)"
  "seq_length (stamp_ack r seg) = seq_length seg"
  by (simp_all add: stamp_ack_def seq_length_def split: option.split)

lemma emitted_cong:
  assumes "seg_payload seg' = seg_payload seg" "th_seqno (seg_header seg') = th_seqno (seg_header seg)"
    "th_syn (seg_header seg') = th_syn (seg_header seg)" "th_fin (seg_header seg') = th_fin (seg_header seg)"
  shows "emitted W fs isn seg' \<longleftrightarrow> emitted W fs isn seg"
proof -
  have "seq_length seg' = seq_length seg" using assms by (simp add: seq_length_def)
  with assms show ?thesis by (simp add: emitted_def carries_def)
qed

lemma emitted_stamp_ack [simp]: "emitted W fs isn (stamp_ack r seg) \<longleftrightarrow> emitted W fs isn seg"
  by (rule emitted_cong) simp_all

section \<open>The invariant of a connection\<close>

text \<open>
  The sender is well-formed for the bytes \<open>W\<close> written so far and every segment in the queue
  of the connection carries a part of \<open>W\<close>.
\<close>

definition TCPConnection_inv :: "bytes \<Rightarrow> TCPConnection \<Rightarrow> bool" where
  "TCPConnection_inv W c \<longleftrightarrow>
     TCPSender_inv W (cn_sender c)
     \<and> list_all (emitted W (sn_is_fin_set (cn_sender c)) (sn_isn (cn_sender c))) (cn_segments_out c)"

text \<open>What a call may do to the sender without new bytes being written.\<close>

definition sender_step :: "bytes \<Rightarrow> TCPSender \<Rightarrow> TCPSender \<Rightarrow> bool" where
  "sender_step W s s' \<longleftrightarrow>
     (TCPSender_inv W s \<longrightarrow> TCPSender_inv W s') \<and> sn_isn s' = sn_isn s \<and> (sn_is_fin_set s \<longrightarrow> sn_is_fin_set s')"

lemma sender_step_refl [simp, intro]: "sender_step W s s"
  by (simp add: sender_step_def)

lemma sender_step_trans [trans]:
  "sender_step W s s' \<Longrightarrow> sender_step W s' s'' \<Longrightarrow> sender_step W s s''"
  by (simp add: sender_step_def)

lemma sender_steps [intro]:
  "sender_step W s (TCPSender_fill_window s)"
  "sender_step W s (TCPSender_ack_received s ackno win)"
  "sender_step W s (TCPSender_send_empty_segment s)"
  "sender_step W s (s\<lparr>sn_stream := ByteStream_end_input (sn_stream s)\<rparr>)"
  "sender_step W s (s\<lparr>sn_stream := ByteStream_set_error (sn_stream s)\<rparr>)"
  using fill_window_frame [of s] fill_window_inv ack_received_inv send_empty_inv end_input_inv
  by (auto simp: sender_step_def TCPSender_send_empty_segment_def)

lemma sender_step_tick: "TCPSender_tick s ms = Inr s' \<Longrightarrow> sender_step W s s'"
  using tick_inv [of W s ms] by (auto simp: sender_step_def tick_frame)

text \<open>A call of the connection: one step of the sender, and nothing new in the queue.\<close>

definition conn_step :: "bytes \<Rightarrow> TCPConnection \<Rightarrow> TCPConnection \<Rightarrow> bool" where
  "conn_step W c c' \<longleftrightarrow>
     (TCPConnection_inv W c \<longrightarrow> TCPConnection_inv W c')
     \<and> sn_isn (cn_sender c') = sn_isn (cn_sender c)
     \<and> (sn_is_fin_set (cn_sender c) \<longrightarrow> sn_is_fin_set (cn_sender c'))"

lemma conn_step_refl [simp, intro]: "conn_step W c c"
  by (simp add: conn_step_def)

lemma conn_step_trans [trans]: "conn_step W c c' \<Longrightarrow> conn_step W c' c'' \<Longrightarrow> conn_step W c c''"
  by (simp add: conn_step_def)

lemma conn_step_sender:
  assumes "sender_step W (cn_sender c) (cn_sender c')" and "cn_segments_out c' = cn_segments_out c"
  shows "conn_step W c c'"
  using assms list_all_emitted_grow [of W "sn_is_fin_set (cn_sender c)" "sn_isn (cn_sender c)" "cn_segments_out c" W]
  by (auto simp: conn_step_def TCPConnection_inv_def sender_step_def)

lemma conn_step_send_segments: "conn_step W c (TCPConnection_send_segments c)"
proof -
  have "TCPSender_inv W (s\<lparr>sn_segments_out := []\<rparr>)" if "TCPSender_inv W s" for s
    by (rule TCPSender_inv_frame [OF that]) (use TCPSender_invD [OF that] in simp_all)
  then show ?thesis
    using TCPSender_invD(6) [of W "cn_sender c"]
    by (auto simp: conn_step_def TCPConnection_inv_def send_segments_eq list_all_iff)
qed

lemma conn_step_shutdown: "conn_step W c (TCPConnection_unclean_shutdown c)"
  by (rule conn_step_sender) (auto simp: TCPConnection_unclean_shutdown_def)

text \<open>The abort always finds a segment to send: the retransmission of \<open>tick\<close>, or the empty one.\<close>

definition bare_segment :: "TCPSender \<Rightarrow> TCPSegment" where
  "bare_segment s = \<lparr>seg_header = TCPHeader_new\<lparr>th_seqno := TCPSender_next_seqno s\<rparr>, seg_payload = Buffer_new\<rparr>"

lemma abort_eq:
  "TCPConnection_abort c =
    (let c' = TCPConnection_unclean_shutdown c;
         q = sn_segments_out (cn_sender c) @ [bare_segment (cn_sender c)];
         rst = (hd q)\<lparr>seg_header := (seg_header (hd q))\<lparr>th_rst := True\<rparr>\<rparr>
     in Inr (c'\<lparr>cn_sender := (cn_sender c')\<lparr>sn_segments_out := tl q\<rparr>,
                cn_segments_out := cn_segments_out c @ [stamp_ack (cn_receiver c') rst]\<rparr>))"
  by (cases "sn_segments_out (cn_sender c)")
    (simp_all add: TCPConnection_abort_def TCPSender_send_empty_segment_def TCPConnection_unclean_shutdown_def
      TCPSender_next_seqno_def bare_segment_def Let_def)

lemma conn_step_abort:
  obtains c' where "TCPConnection_abort c = Inr c'" "conn_step W c c'" "\<not> cn_active c'"
proof -
  define c1 where "c1 = (TCPConnection_unclean_shutdown c)\<lparr>cn_sender :=
      TCPSender_send_empty_segment (cn_sender (TCPConnection_unclean_shutdown c))\<rparr>"
  have 1: "conn_step W c c1"
    by (rule conn_step_trans [OF conn_step_shutdown]) (rule conn_step_sender, auto simp: c1_def)
  obtain x xs where q: "sn_segments_out (cn_sender c1) = x # xs"
    by (cases "sn_segments_out (cn_sender c1)") (auto simp: c1_def TCPSender_send_empty_segment_def)
  define rst where "rst = stamp_ack (cn_receiver c1) (x\<lparr>seg_header := (seg_header x)\<lparr>th_rst := True\<rparr>\<rparr>)"
  define c2 where "c2 = c1\<lparr>cn_sender := (cn_sender c1)\<lparr>sn_segments_out := xs\<rparr>,
      cn_segments_out := cn_segments_out c1 @ [rst]\<rparr>"
  have ab: "TCPConnection_abort c = Inr c2"
    unfolding TCPConnection_abort_def Let_def c1_def [symmetric] q c2_def rst_def by simp
  have e: "emitted W fs isn rst \<longleftrightarrow> emitted W fs isn x" for fs isn
    unfolding rst_def emitted_stamp_ack by (rule emitted_cong) simp_all
  have "conn_step W c1 c2"
  proof -
    have "TCPConnection_inv W c2" if inv: "TCPConnection_inv W c1"
    proof -
      have s: "TCPSender_inv W (cn_sender c1)" using inv by (simp add: TCPConnection_inv_def)
      have "TCPSender_inv W ((cn_sender c1)\<lparr>sn_segments_out := xs\<rparr>)"
        by (rule TCPSender_inv_frame [OF s]) (use TCPSender_invD [OF s] q in simp_all)
      with inv TCPSender_invD(6) [OF s] e q show ?thesis by (simp add: TCPConnection_inv_def c2_def)
    qed
    then show ?thesis by (simp add: conn_step_def c2_def)
  qed
  moreover have "\<not> cn_active c2" by (simp add: c2_def c1_def TCPConnection_unclean_shutdown_def)
  ultimately show ?thesis using that ab conn_step_trans [OF 1] by blast
qed

lemma conn_step_segment_received: "conn_step W c (TCPConnection_segment_received c seg)"
proof -
  let ?len = "TCPSegment_length_in_sequence_space seg" and ?h = "seg_header seg"
  define c1 where "c1 = (let c = (if th_rst ?h then TCPConnection_unclean_shutdown c else c)
      in c\<lparr>cn_receiver := TCPReceiver_segment_received (cn_receiver c) seg\<rparr>)"
  define c2 where "c2 = (if th_ack ?h then
                 let s = TCPSender_ack_received (cn_sender c1) (th_ackno ?h) (th_win ?h)
                 in c1\<lparr>cn_sender := (if sn_is_syn_set s then TCPSender_fill_window s else s)\<rparr>
               else c1)"
  define c3 where "c3 = (if ?len \<noteq> 0 then
                 if th_syn ?h \<and> \<not> sn_is_syn_set (cn_sender c2)
                 then c2\<lparr>cn_sender := TCPSender_fill_window (cn_sender c2)\<rparr>
                 else c2\<lparr>cn_sender := TCPSender_send_empty_segment (cn_sender c2)\<rparr>
               else c2)"
  define c4 where "c4 = (case TCPReceiver_ackno (cn_receiver c3) of
                 Some ackno \<Rightarrow>
                   if ?len = 0 \<and> WrappingInt32_eq (th_seqno ?h) (WrappingInt32_minus ackno 1)
                   then c3\<lparr>cn_sender := TCPSender_send_empty_segment (cn_sender c3)\<rparr> else c3
               | None \<Rightarrow> c3)"
  define c5 where "c5 = (if \<not> sn_is_fin_set (cn_sender c4) \<and> bs_input_ended (TCPConnection_inbound_stream c4)
               then c4\<lparr>cn_linger_after_streams_finish := False\<rparr> else c4)\<lparr>cn_time_since_last_segment_received := 0\<rparr>"
  have "conn_step W c (if th_rst ?h then TCPConnection_unclean_shutdown c else c)"
    by (simp add: conn_step_shutdown)
  also have "conn_step W (if th_rst ?h then TCPConnection_unclean_shutdown c else c) c1"
    by (rule conn_step_sender) (simp_all add: c1_def Let_def)
  also have "conn_step W c1 c2"
    by (rule conn_step_sender) (use sender_steps(2) sender_step_trans [OF sender_steps(2,1)] in
      \<open>simp_all add: c2_def Let_def\<close>)
  also have "conn_step W c2 c3"
    by (rule conn_step_sender) (simp_all add: c3_def sender_steps)
  also have "conn_step W c3 c4"
    by (rule conn_step_sender) (simp_all add: c4_def sender_steps split: option.split)
  also have "conn_step W c4 c5"
    by (rule conn_step_sender) (simp_all add: c5_def)
  also have "conn_step W c5 (TCPConnection_send_segments c5)" by (rule conn_step_send_segments)
  also have "TCPConnection_send_segments c5 = TCPConnection_segment_received c seg"
    unfolding TCPConnection_segment_received_def c5_def c4_def c3_def c2_def c1_def Let_def ..
  finally show ?thesis .
qed

lemma conn_step_tick:
  assumes "TCPConnection_inv W c"
  obtains c' where "TCPConnection_tick c ms = Inr c'" "conn_step W c c'"
proof -
  define c1 where "c1 = c\<lparr>cn_time_since_last_segment_received := cn_time_since_last_segment_received c + ms\<rparr>"
  obtain s where t: "TCPSender_tick (cn_sender c) ms = Inr s"
    using assms tick_inv unfolding TCPConnection_inv_def by blast
  then have t1: "TCPSender_tick (cn_sender c1) ms = Inr s" by (simp add: c1_def)
  define c2 where "c2 = c1\<lparr>cn_sender := s\<rparr>"
  have 2: "conn_step W c c2"
    by (rule conn_step_sender) (auto simp: c2_def c1_def intro: sender_step_tick [OF t])
  obtain c3 where c3: "TCPConnection_abort c2 = Inr c3" "conn_step W c2 c3" by (rule conn_step_abort)
  define c4 where "c4 = (if TCPConnection_streams_finished c2
      \<and> (\<not> cn_linger_after_streams_finish c2
         \<or> 10 * ucast (cfg_rt_timeout (cn_cfg c2)) \<le> cn_time_since_last_segment_received c2)
      then c2\<lparr>cn_active := False\<rparr> else c2)"
  have "conn_step W c2 c4" by (rule conn_step_sender) (auto simp: c4_def)
  then have 4: "conn_step W c (TCPConnection_send_segments c4)"
    using 2 conn_step_send_segments conn_step_trans by blast
  have "TCPConnection_tick c ms =
      (if MAX_RETX_ATTEMPTS < sn_consecutive_retransmissions s then TCPConnection_abort c2
       else Inr (TCPConnection_send_segments c4))"
    unfolding TCPConnection_tick_def Let_def c1_def [symmetric] by (simp add: t1 c2_def [symmetric] c4_def)
  with c3 4 conn_step_trans [OF 2 c3(2)] that show ?thesis
    by (cases "MAX_RETX_ATTEMPTS < sn_consecutive_retransmissions s") auto
qed

lemma conn_step_others:
  "conn_step W c (TCPConnection_end_input_stream c)"
  "conn_step W c (TCPConnection_connect c)"
  "conn_step W c (fst (TCPConnection_read_inbound c n))"
  "conn_step W c (c\<lparr>cn_segments_out := []\<rparr>)"
proof -
  have "sender_step W (cn_sender c)
      (TCPSender_fill_window ((cn_sender c)\<lparr>sn_stream := ByteStream_end_input (sn_stream (cn_sender c))\<rparr>))"
    by (rule sender_step_trans [OF sender_steps(4,1)])
  then have "conn_step W c (c\<lparr>cn_sender := TCPSender_fill_window
      ((cn_sender c)\<lparr>sn_stream := ByteStream_end_input (sn_stream (cn_sender c))\<rparr>)\<rparr>)"
    by (intro conn_step_sender) simp_all
  from conn_step_trans [OF this conn_step_send_segments]
  show "conn_step W c (TCPConnection_end_input_stream c)"
    by (simp add: TCPConnection_end_input_stream_def Let_def)
  have "conn_step W c (c\<lparr>cn_sender := TCPSender_fill_window (cn_sender c)\<rparr>)"
    by (intro conn_step_sender) auto
  from conn_step_trans [OF this conn_step_send_segments]
  show "conn_step W c (TCPConnection_connect c)" by (simp add: TCPConnection_connect_def)
  show "conn_step W c (fst (TCPConnection_read_inbound c n))"
    by (rule conn_step_sender) (auto simp: TCPConnection_read_inbound_def split: prod.split)
  show "conn_step W c (c\<lparr>cn_segments_out := []\<rparr>)"
    by (simp add: conn_step_def TCPConnection_inv_def)
qed

text \<open>Writing appends the accepted bytes to \<open>W\<close>.\<close>

lemma conn_write:
  assumes inv: "TCPConnection_inv W c" and wr: "TCPConnection_write c data = (c', n)"
    and len: "length W + length data + 2 ^ 32 \<le> 2 ^ 64"
  shows "TCPConnection_inv (W @ take (unat n) data) c'"
    and "sn_isn (cn_sender c') = sn_isn (cn_sender c)"
    and "sn_is_fin_set (cn_sender c) \<Longrightarrow> take (unat n) data = [] \<and> sn_is_fin_set (cn_sender c')"
proof -
  let ?W = "W @ take (unat n) data"
  have "TCPConnection_inv ?W c' \<and> sn_isn (cn_sender c') = sn_isn (cn_sender c)
      \<and> (sn_is_fin_set (cn_sender c) \<longrightarrow> take (unat n) data = [] \<and> sn_is_fin_set (cn_sender c'))"
  proof (cases "list_size data = 0")
    case True
    with inv wr show ?thesis by (auto simp: TCPConnection_write_def)
  next
    case False
    obtain bs m where w: "ByteStream_write (sn_stream (cn_sender c)) data = (bs, m)" by fastforce
    define c1 where "c1 = c\<lparr>cn_sender := (cn_sender c)\<lparr>sn_stream := bs\<rparr>\<rparr>"
    define c2 where "c2 = c1\<lparr>cn_sender := TCPSender_fill_window (cn_sender c1)\<rparr>"
    have mn: "m = n" and c': "c' = TCPConnection_send_segments c2"
      using wr False by (simp_all add: TCPConnection_write_def w c1_def c2_def)
    have s: "TCPSender_inv W (cn_sender c)" using inv by (simp add: TCPConnection_inv_def)
    note wi = write_inv [OF s w len, unfolded mn]
    have "list_all (emitted ?W (sn_is_fin_set (cn_sender c)) (sn_isn (cn_sender c))) (cn_segments_out c)"
      by (rule list_all_emitted_grow [of W]) (use inv wi(2) in \<open>auto simp: TCPConnection_inv_def\<close>)
    then have 1: "TCPConnection_inv ?W c1" using wi(1) by (simp add: TCPConnection_inv_def c1_def)
    have "conn_step ?W c1 c2" by (intro conn_step_sender) (auto simp: c2_def)
    from conn_step_trans [OF this conn_step_send_segments] have "conn_step ?W c1 c'" by (simp add: c')
    with 1 wi(2) show ?thesis by (auto simp: conn_step_def c1_def)
  qed
  then show "TCPConnection_inv ?W c'" "sn_isn (cn_sender c') = sn_isn (cn_sender c)"
    "sn_is_fin_set (cn_sender c) \<Longrightarrow> take (unat n) data = [] \<and> sn_is_fin_set (cn_sender c')" by simp_all
qed

lemma new_connection_inv:
  "unat (cfg_send_capacity cfg) < 2 ^ 31 \<Longrightarrow> TCPConnection_inv [] (TCPConnection_new rand cfg)"
  by (simp add: TCPConnection_inv_def TCPConnection_new_def new_sender_inv)

section \<open>Runs\<close>

text \<open>
  The calls an owner makes. A call returns the connection, the bytes it accepted for
  sending, the bytes the owner read, and the segments the owner dequeued.
\<close>

datatype cn_call =
    Connect
  | Send bytes
  | Shutdown
  | Receive TCPSegment
  | Elapse size_t
  | Read size_t
  | Dequeue

type_synonym cn_outcome = "TCPConnection \<times> bytes \<times> bytes \<times> TCPSegment list"

fun TCPConnection_call :: "TCPConnection \<Rightarrow> cn_call \<Rightarrow> cn_outcome result" where
  "TCPConnection_call c Connect = Inr (TCPConnection_connect c, [], [], [])"
| "TCPConnection_call c (Send data) =
     (let (c', n) = TCPConnection_write c data in Inr (c', take (unat n) data, [], []))"
| "TCPConnection_call c Shutdown = Inr (TCPConnection_end_input_stream c, [], [], [])"
| "TCPConnection_call c (Receive seg) = Inr (TCPConnection_segment_received c seg, [], [], [])"
| "TCPConnection_call c (Elapse ms) = result_map (\<lambda>c'. (c', [], [], [])) (TCPConnection_tick c ms)"
| "TCPConnection_call c (Read n) =
     (let (c', data) = TCPConnection_read_inbound c n in Inr (c', [], data, []))"
| "TCPConnection_call c Dequeue = Inr (c\<lparr>cn_segments_out := []\<rparr>, [], [], cn_segments_out c)"

fun TCPConnection_run :: "TCPConnection \<Rightarrow> cn_call list \<Rightarrow> cn_outcome result" where
  "TCPConnection_run c [] = Inr (c, [], [], [])"
| "TCPConnection_run c (x # xs) =
     (case TCPConnection_call c x of
        Inl e \<Rightarrow> Inl e
      | Inr (c1, w1, d1, o1) \<Rightarrow>
          (case TCPConnection_run c1 xs of
             Inl e \<Rightarrow> Inl e
           | Inr (c2, w2, d2, o2) \<Rightarrow> Inr (c2, w1 @ w2, d1 @ d2, o1 @ o2)))"

fun call_bytes :: "cn_call \<Rightarrow> nat" where
  "call_bytes (Send data) = length data"
| "call_bytes _ = 0"

text \<open>What a call from a well-formed connection returns.\<close>

definition call_ok :: "bytes \<Rightarrow> TCPConnection \<Rightarrow> cn_outcome result \<Rightarrow> bool" where
  "call_ok W c res \<longleftrightarrow>
     (\<exists>c' w d out. res = Inr (c', w, d, out) \<and> TCPConnection_inv (W @ w) c'
        \<and> sn_isn (cn_sender c') = sn_isn (cn_sender c)
        \<and> (sn_is_fin_set (cn_sender c) \<longrightarrow> w = [] \<and> sn_is_fin_set (cn_sender c'))
        \<and> list_all (emitted (W @ w) (sn_is_fin_set (cn_sender c')) (sn_isn (cn_sender c))) out)"

lemma call_ok_step: "TCPConnection_inv W c \<Longrightarrow> conn_step W c c' \<Longrightarrow> call_ok W c (Inr (c', [], d, []))"
  by (simp add: call_ok_def conn_step_def)

lemma call_ok_call:
  assumes inv: "TCPConnection_inv W c" and len: "length W + call_bytes x + 2 ^ 32 \<le> 2 ^ 64"
  shows "call_ok W c (TCPConnection_call c x)"
proof (cases x)
  case (Send data)
  obtain c' n where w: "TCPConnection_write c data = (c', n)" by fastforce
  from conn_write [OF inv this] len Send show ?thesis by (simp add: Send w call_ok_def)
next
  case (Elapse ms)
  obtain c' where "TCPConnection_tick c ms = Inr c'" "conn_step W c c'" by (rule conn_step_tick [OF inv])
  then show ?thesis by (simp add: Elapse call_ok_step [OF inv])
next
  case (Read n)
  obtain c' data where "TCPConnection_read_inbound c n = (c', data)" by fastforce
  with call_ok_step [OF inv conn_step_others(3), of n data] show ?thesis by (simp add: Read)
next
  case Dequeue
  with inv conn_step_others(4) [of W c] show ?thesis
    by (simp add: call_ok_def conn_step_def TCPConnection_inv_def)
qed (use call_ok_step [OF inv] conn_step_segment_received conn_step_others(1,2) in simp_all)

lemma call_ok_run:
  assumes "TCPConnection_inv W c" and "length W + sum_list (map call_bytes xs) + 2 ^ 32 \<le> 2 ^ 64"
  shows "call_ok W c (TCPConnection_run c xs)"
  using assms
proof (induction xs arbitrary: W c)
  case Nil
  then show ?case by (simp add: call_ok_def)
next
  case (Cons x xs)
  have "length W + call_bytes x + 2 ^ 32 \<le> 2 ^ 64" using Cons.prems(2) by simp
  from call_ok_call [OF Cons.prems(1) this]
  obtain c1 w1 d1 o1 where 1: "TCPConnection_call c x = Inr (c1, w1, d1, o1)" "TCPConnection_inv (W @ w1) c1"
      "sn_isn (cn_sender c1) = sn_isn (cn_sender c)"
      "sn_is_fin_set (cn_sender c) \<longrightarrow> w1 = [] \<and> sn_is_fin_set (cn_sender c1)"
      "list_all (emitted (W @ w1) (sn_is_fin_set (cn_sender c1)) (sn_isn (cn_sender c))) o1"
    unfolding call_ok_def by blast
  have "length w1 \<le> call_bytes x"
    using 1(1) by (cases x) (auto split: prod.splits simp: result_map_Inr_iff)
  then have "length (W @ w1) + sum_list (map call_bytes xs) + 2 ^ 32 \<le> 2 ^ 64" using Cons.prems(2) by simp
  from Cons.IH [OF 1(2) this]
  obtain c2 w2 d2 o2 where 2: "TCPConnection_run c1 xs = Inr (c2, w2, d2, o2)" "TCPConnection_inv (W @ w1 @ w2) c2"
      "sn_isn (cn_sender c2) = sn_isn (cn_sender c1)"
      "sn_is_fin_set (cn_sender c1) \<longrightarrow> w2 = [] \<and> sn_is_fin_set (cn_sender c2)"
      "list_all (emitted (W @ w1 @ w2) (sn_is_fin_set (cn_sender c2)) (sn_isn (cn_sender c1))) o2"
    unfolding call_ok_def by auto
  have "list_all (emitted (W @ w1 @ w2) (sn_is_fin_set (cn_sender c2)) (sn_isn (cn_sender c))) o1"
    by (rule list_all_emitted_grow [OF 1(5)]) (use 2(4) in auto)
  with 1 2 show ?case by (auto simp: call_ok_def)
qed

section \<open>Properties\<close>

text \<open>
  C26. A connection never goes wrong and only ever sends its own stream: for every sequence
  of calls of the owner, with arbitrary segments arriving and arbitrary time passing, no
  call is undefined, and every segment that was dequeued or is queued is either empty or
  starts at an absolute sequence number \<open>a\<close> whose 32-bit form it shows, has the SYN exactly
  when \<open>a\<close> is 0, and carries exactly the bytes of the accepted stream \<open>W\<close> that belong at \<open>a\<close>,
  with the FIN only after the last of them. Resets and retransmissions are included.
\<close>

theorem TCPConnection_sends_stream:
  assumes "unat (cfg_send_capacity cfg) < 2 ^ 31" and "sum_list (map call_bytes xs) + 2 ^ 32 \<le> 2 ^ 64"
  shows "\<exists>c W d out. TCPConnection_run (TCPConnection_new rand cfg) xs = Inr (c, W, d, out)
     \<and> (\<forall>seg\<in>set (out @ cn_segments_out c). seq_length seg = 0 \<or>
          (\<exists>a\<le>length W + 1. th_seqno (seg_header seg) = wrap (of_nat a) (sn_isn (cn_sender c))
             \<and> (th_syn (seg_header seg) \<longleftrightarrow> a = 0)
             \<and> length (Buffer_str (seg_payload seg)) \<le> 1000
             \<and> Buffer_str (seg_payload seg) = take (length (Buffer_str (seg_payload seg))) (drop (a - 1) W)
             \<and> (th_fin (seg_header seg) \<longrightarrow> a - 1 + length (Buffer_str (seg_payload seg)) = length W)))"
proof -
  have "call_ok [] (TCPConnection_new rand cfg) (TCPConnection_run (TCPConnection_new rand cfg) xs)"
    using assms by (intro call_ok_run new_connection_inv) simp_all
  then obtain c W d out where r: "TCPConnection_run (TCPConnection_new rand cfg) xs = Inr (c, W, d, out)"
      and inv: "TCPConnection_inv W c" and isn: "sn_isn (cn_sender c) = sn_isn (cn_sender (TCPConnection_new rand cfg))"
      and out: "list_all (emitted W (sn_is_fin_set (cn_sender c)) (sn_isn (cn_sender c))) out"
    by (auto simp: call_ok_def)
  from inv out have "\<forall>seg\<in>set (out @ cn_segments_out c). emitted W (sn_is_fin_set (cn_sender c)) (sn_isn (cn_sender c)) seg"
    by (auto simp: TCPConnection_inv_def list_all_iff)
  with r show ?thesis
    unfolding emitted_def carries_def excerpt_at_def by (intro exI conjI) (assumption, fastforce)
qed

definition example_cfg :: TCPConfig where
  "example_cfg = \<lparr>cfg_rt_timeout = 1000, cfg_recv_capacity = 100, cfg_send_capacity = 100, cfg_fixed_isn = None\<rparr>"

theorem TCPConnection_sends_stream_witness:
  "\<exists>c d out. TCPConnection_run (TCPConnection_new 7 example_cfg)
       [Connect, Receive \<lparr>seg_header = TCPHeader_new\<lparr>th_seqno := WrappingInt32 50, th_syn := True, th_ack := True,
            th_ackno := WrappingInt32 8, th_win := 100\<rparr>, seg_payload = Buffer_new\<rparr>,
        Send [1, 2, 3], Shutdown, Elapse 1000, Dequeue] = Inr (c, [1, 2, 3], d, out)
     \<and> map (\<lambda>seg. (raw_value (th_seqno (seg_header seg)), Buffer_str (seg_payload seg), th_fin (seg_header seg))) out
        = [(7, [], False), (8, [], False), (8, [1, 2, 3], False), (11, [], True), (8, [1, 2, 3], False)]"
proof -
  let ?xs = "[Connect, Receive \<lparr>seg_header = TCPHeader_new\<lparr>th_seqno := WrappingInt32 50, th_syn := True, th_ack := True,
            th_ackno := WrappingInt32 8, th_win := 100\<rparr>, seg_payload = Buffer_new\<rparr>,
        Send [1, 2, 3], Shutdown, Elapse 1000, Dequeue]"
  let ?run = "TCPConnection_run (TCPConnection_new 7 example_cfg) ?xs"
  have "fst (snd (projr ?run)) = [1, 2, 3]"
    "map (\<lambda>seg. (raw_value (th_seqno (seg_header seg)), Buffer_str (seg_payload seg), th_fin (seg_header seg)))
       (snd (snd (snd (projr ?run)))) =
       [(7, [], False), (8, [], False), (8, [1, 2, 3], False), (11, [], True), (8, [1, 2, 3], False)]"
    by code_simp+
  moreover have "unat (cfg_send_capacity example_cfg) < 2 ^ 31" by (simp add: example_cfg_def)
  ultimately show ?thesis
    using TCPConnection_sends_stream [of example_cfg ?xs 7] by fastforce
qed

end
