(* ===== verification/Connection_Lifecycle.thy ===== *)
theory Connection_Lifecycle
  imports TCP_Connection
begin

text \<open>
  How a connection begins and ends: the three-way handshake between two endpoints, the
  decision to end after both streams have finished, and the two ways to a reset (an RST
  arrives, or the retransmissions run out).
\<close>

section \<open>The handshake\<close>

lemma read_empty:
  "bs_buffer bs = [] \<Longrightarrow> ByteStream_read bs n = (bs, [])"
  by (simp add: ByteStream_read_def ByteStream_peek_output_def ByteStream_pop_output_def int_of_size_def)

definition syn_segment :: "WrappingInt32 \<Rightarrow> TCPSegment" where
  "syn_segment isn = \<lparr>seg_header = TCPHeader_new\<lparr>th_seqno := isn, th_syn := True\<rparr>, seg_payload = Buffer_of []\<rparr>"

lemma wrap_0 [simp]: "wrap 0 isn = isn"
  by (simp add: wrap_ucast)

lemma Buffer_str_empty [simp]: "Buffer_str (Buffer_of []) = []" "Buffer_str Buffer_new = []"
  by (simp_all add: Buffer_str_of Buffer_str_new)

text \<open>The first fill of a sender with nothing to send: the SYN.\<close>

lemma fill_window_syn:
  assumes "s = TCPSender_new rand cap rto isn"
  shows "TCPSender_fill_window s =
     s\<lparr>sn_is_syn_set := True, sn_segments_out := [syn_segment (sn_isn s)],
       sn_outstanding_segments := [syn_segment (sn_isn s)], sn_bytes_in_flight := 1, sn_next_seqno := 1,
       sn_timer := \<lparr>tm_elapsed_time = 0, tm_if_run = True\<rparr>\<rparr>"
proof -
  have bs: "bs_buffer (sn_stream s) = []" "\<not> ByteStream_eof (sn_stream s)"
    by (simp_all add: assms TCPSender_new_def ByteStream_new_def ByteStream_eof_def)
  have "TCPSender_make_segment s = (s\<lparr>sn_is_syn_set := True\<rparr>, syn_segment (sn_isn s))"
    unfolding make_segment_eq [OF read_empty [OF bs(1)]]
    using bs by (simp add: assms TCPSender_new_def sn_sends_fin_def sn_segment_def syn_segment_def TCPHeader_new_def)
  moreover have "TCPSegment_length_in_sequence_space (syn_segment i) = 1" for i
    by (simp add: TCPSegment_length_in_sequence_space_def syn_segment_def TCPHeader_new_def)
  ultimately show ?thesis
    by (subst TCPSender_fill_window.simps)
      (simp add: assms, subst TCPSender_fill_window.simps,
       simp add: TCPSender_push_segment_def TCPSender_new_def Timer_new_def Timer_start_def)
qed

text \<open>A fill with nothing to send.\<close>

lemma fill_window_idle:
  assumes "bs_buffer (sn_stream s) = []" and "\<not> bs_input_ended (sn_stream s)"
    and "sn_is_syn_set s" and "sn_next_seqno s \<noteq> 0"
  shows "TCPSender_fill_window s = s"
proof -
  have fin: "\<not> sn_sends_fin s (sn_stream s) []" using assms(2) by (simp add: sn_sends_fin_def ByteStream_eof_def)
  have s: "s\<lparr>sn_stream := sn_stream s, sn_is_syn_set := True, sn_is_fin_set := sn_is_fin_set s\<rparr> = s"
    using assms(3) by simp
  have "TCPSender_make_segment s = (s, sn_segment s [] False)"
    unfolding make_segment_eq [OF read_empty [OF assms(1)]] using fin assms(3,4) s by simp
  moreover have "TCPSegment_length_in_sequence_space (sn_segment s [] False) = 0"
    using assms(4) by (simp add: TCPSegment_length_in_sequence_space_def sn_segment_def TCPHeader_new_def)
  ultimately show ?thesis by (subst TCPSender_fill_window.simps) simp
qed

text \<open>The acknowledgment of the SYN.\<close>

lemma ack_of_syn:
  fixes win :: u16
  assumes "sn_outstanding_segments s = [syn_segment (sn_isn s)]" and "sn_next_seqno s = 1"
    and "sn_bytes_in_flight s = 1" and "sn_recent_abs_ackno s = 0"
  defines "s' \<equiv> TCPSender_ack_received s (wrap 1 (sn_isn s)) win"
  shows "sn_outstanding_segments s' = []" "sn_bytes_in_flight s' = 0" "sn_recent_abs_ackno s' = 1"
proof -
  have u: "unwrap (wrap 1 i) i 0 = 1" "unwrap i i 0 = 0" for i
    using unwrap_wrap_near [of 0 1 i] unwrap_wrap_near [of 0 0 i] by simp_all
  have l: "TCPSegment_length_in_sequence_space (syn_segment i) = 1" "th_seqno (seg_header (syn_segment i)) = i" for i
    by (simp_all add: TCPSegment_length_in_sequence_space_def syn_segment_def TCPHeader_new_def)
  show "sn_outstanding_segments s' = []" "sn_bytes_in_flight s' = 0" "sn_recent_abs_ackno s' = 1"
    using assms(1-4) by (simp_all add: s'_def TCPSender_ack_received_def u l Let_def)
qed

text \<open>The receiver after the peer's SYN, and after a segment that occupies no sequence space.\<close>

lemma receive_syn:
  assumes "th_seqno (seg_header seg) = isn" "th_syn (seg_header seg)" "\<not> th_fin (seg_header seg)"
    "Buffer_str (seg_payload seg) = []"
  shows "TCPReceiver_segment_received (TCPReceiver_new cap) seg =
     (TCPReceiver_new cap)\<lparr>rv_syn_flag := True, rv_isn := isn, rv_if_syn_set := True\<rparr>"
proof -
  have u: "unwrap isn isn 0 = 0" using unwrap_wrap_near [of 0 0 isn] by simp
  have p: "StreamReassembler_push_substring (StreamReassembler_new cap) [] 0 False = StreamReassembler_new cap"
    by (rule push_empty_noop) (simp_all add: StreamReassembler_new_def)
  show ?thesis
    using assms by (simp add: TCPReceiver_segment_received_def TCPReceiver_new_def Let_def u p
        TCPSegment_length_in_sequence_space_def)
qed

lemma receive_nothing:
  assumes "TCPSegment_length_in_sequence_space seg = 0" "\<not> th_syn (seg_header seg)" "\<not> th_fin (seg_header seg)"
  shows "TCPReceiver_segment_received r seg = r\<lparr>rv_syn_flag := False, rv_fin_flag := False\<rparr>"
  using assms by (simp add: TCPReceiver_segment_received_def Let_def)

text \<open>The sender's part of \<open>segment_received\<close>, in three steps.\<close>

definition after_ack :: "TCPSegment \<Rightarrow> TCPSender \<Rightarrow> TCPSender" where
  "after_ack seg s =
     (if th_ack (seg_header seg) then
        let s' = TCPSender_ack_received s (th_ackno (seg_header seg)) (th_win (seg_header seg))
        in if sn_is_syn_set s' then TCPSender_fill_window s' else s'
      else s)"

definition after_reply :: "TCPSegment \<Rightarrow> TCPSender \<Rightarrow> TCPSender" where
  "after_reply seg s =
     (if TCPSegment_length_in_sequence_space seg \<noteq> 0 then
        if th_syn (seg_header seg) \<and> \<not> sn_is_syn_set s then TCPSender_fill_window s
        else TCPSender_send_empty_segment s
      else s)"

definition after_probe :: "TCPReceiver \<Rightarrow> TCPSegment \<Rightarrow> TCPSender \<Rightarrow> TCPSender" where
  "after_probe r seg s =
     (if \<exists>ackno. TCPReceiver_ackno r = Some ackno \<and> TCPSegment_length_in_sequence_space seg = 0
           \<and> th_seqno (seg_header seg) = WrappingInt32_minus ackno 1
      then TCPSender_send_empty_segment s else s)"

lemma segment_received_eq:
  assumes "c1 = (if th_rst (seg_header seg) then TCPConnection_unclean_shutdown c else c)"
    and "r = TCPReceiver_segment_received (cn_receiver c1) seg"
    and "s = after_probe r seg (after_reply seg (after_ack seg (cn_sender c1)))"
  shows "TCPConnection_segment_received c seg =
    c1\<lparr>cn_receiver := r, cn_sender := s\<lparr>sn_segments_out := []\<rparr>,
       cn_segments_out := cn_segments_out c1 @ map (stamp_ack r) (sn_segments_out s),
       cn_linger_after_streams_finish :=
         cn_linger_after_streams_finish c1 \<and> (sn_is_fin_set s \<or> \<not> bs_input_ended (TCPReceiver_stream_out r)),
       cn_time_since_last_segment_received := 0\<rparr>"
proof -
  let ?len = "TCPSegment_length_in_sequence_space seg" and ?h = "seg_header seg"
  have 1: "(if th_ack ?h then
                 let s = TCPSender_ack_received (cn_sender c) (th_ackno ?h) (th_win ?h)
                 in c\<lparr>cn_sender := (if sn_is_syn_set s then TCPSender_fill_window s else s)\<rparr>
               else c) = c\<lparr>cn_sender := after_ack seg (cn_sender c)\<rparr>" for c
    by (simp add: after_ack_def Let_def)
  have 2: "(if ?len \<noteq> 0 then
                 if th_syn ?h \<and> \<not> sn_is_syn_set (cn_sender c)
                 then c\<lparr>cn_sender := TCPSender_fill_window (cn_sender c)\<rparr>
                 else c\<lparr>cn_sender := TCPSender_send_empty_segment (cn_sender c)\<rparr>
               else c) = c\<lparr>cn_sender := after_reply seg (cn_sender c)\<rparr>" for c
    by (simp add: after_reply_def)
  have 3: "(case TCPReceiver_ackno (cn_receiver c) of
                 Some ackno \<Rightarrow>
                   if ?len = 0 \<and> WrappingInt32_eq (th_seqno ?h) (WrappingInt32_minus ackno 1)
                   then c\<lparr>cn_sender := TCPSender_send_empty_segment (cn_sender c)\<rparr> else c
               | None \<Rightarrow> c) = c\<lparr>cn_sender := after_probe (cn_receiver c) seg (cn_sender c)\<rparr>" for c
    by (simp add: after_probe_def WrappingInt32_eq_def WrappingInt32.expand split: option.split)
  show ?thesis
    unfolding TCPConnection_segment_received_def assms(1) [symmetric] Let_def
    unfolding 1 [unfolded Let_def] 2 3
    by (rule TCPConnection.equality) (simp_all add: send_segments_eq assms(2,3))
qed

text \<open>A sender that has sent its SYN and nothing else, and the receiver of such a SYN.\<close>

definition syn_sent :: "WrappingInt32 \<Rightarrow> TCPSender \<Rightarrow> bool" where
  "syn_sent isn s \<longleftrightarrow>
     sn_isn s = isn \<and> sn_outstanding_segments s = [syn_segment isn] \<and> sn_next_seqno s = 1
     \<and> sn_bytes_in_flight s = 1 \<and> sn_recent_abs_ackno s = 0 \<and> sn_is_syn_set s \<and> \<not> sn_is_fin_set s
     \<and> bs_buffer (sn_stream s) = [] \<and> \<not> bs_input_ended (sn_stream s) \<and> \<not> bs_error (sn_stream s)"

definition syn_acked :: "WrappingInt32 \<Rightarrow> TCPSender \<Rightarrow> bool" where
  "syn_acked isn s \<longleftrightarrow>
     sn_isn s = isn \<and> sn_outstanding_segments s = [] \<and> sn_next_seqno s = 1 \<and> sn_bytes_in_flight s = 0
     \<and> sn_is_syn_set s \<and> \<not> sn_is_fin_set s
     \<and> bs_buffer (sn_stream s) = [] \<and> \<not> bs_input_ended (sn_stream s) \<and> \<not> bs_error (sn_stream s)"

definition syn_received :: "WrappingInt32 \<Rightarrow> TCPReceiver \<Rightarrow> bool" where
  "syn_received isn r \<longleftrightarrow>
     TCPReceiver_ackno r = Some (wrap 1 isn) \<and> \<not> bs_input_ended (TCPReceiver_stream_out r)
     \<and> \<not> bs_error (TCPReceiver_stream_out r)"

lemma syn_sent_fill:
  assumes "s = TCPSender_new rand cap rto isn"
  shows "syn_sent (sn_isn s) (TCPSender_fill_window s)"
    and "sn_segments_out (TCPSender_fill_window s) = [syn_segment (sn_isn s)]"
  unfolding fill_window_syn [OF assms]
  by (simp_all add: syn_sent_def assms TCPSender_new_def ByteStream_new_def)

lemma syn_received_syn:
  assumes "th_seqno (seg_header seg) = isn" "th_syn (seg_header seg)" "\<not> th_fin (seg_header seg)"
    "Buffer_str (seg_payload seg) = []"
  shows "syn_received isn (TCPReceiver_segment_received (TCPReceiver_new cap) seg)"
  unfolding receive_syn [OF assms]
  by (simp add: syn_received_def TCPReceiver_ackno_def TCPReceiver_new_def StreamReassembler_new_def ByteStream_new_def)

lemma syn_received_nothing:
  assumes "syn_received isn r" and "TCPSegment_length_in_sequence_space seg = 0" "\<not> th_syn (seg_header seg)" "\<not> th_fin (seg_header seg)"
  shows "syn_received isn (TCPReceiver_segment_received r seg)"
  unfolding receive_nothing [OF assms(2-4)] using assms(1)
  by (simp add: syn_received_def TCPReceiver_ackno_def Let_def split: if_splits)

lemma syn_acked_after_ack:
  assumes "syn_sent isn s" and "th_ack (seg_header seg)" and "th_ackno (seg_header seg) = wrap 1 isn"
  shows "syn_acked isn (after_ack seg s)" and "sn_segments_out (after_ack seg s) = sn_segments_out s"
proof -
  note st = assms(1) [unfolded syn_sent_def]
  define s' where "s' = TCPSender_ack_received s (wrap 1 (sn_isn s)) (th_win (seg_header seg))"
  have s': "sn_outstanding_segments s' = []" "sn_bytes_in_flight s' = 0"
    using ack_of_syn [of s] st unfolding s'_def by simp_all
  have "TCPSender_fill_window s' = s'"
    by (rule fill_window_idle) (use st in \<open>simp_all add: s'_def\<close>)
  then have "after_ack seg s = s'" using assms st by (simp add: after_ack_def s'_def Let_def)
  then show "syn_acked isn (after_ack seg s)" "sn_segments_out (after_ack seg s) = sn_segments_out s"
    using s' st by (simp_all add: syn_acked_def) (simp_all add: s'_def)
qed

lemma state_established:
  assumes "syn_acked isn (cn_sender c)" and "syn_received isn' (cn_receiver c)"
    and "cn_active c" and "cn_linger_after_streams_finish c"
  shows "TCPConnection_state c = TCPState_of_State ESTABLISHED"
  using assms by (simp add: TCPConnection_state_def TCPState_of_def TCPState_sender_summary_def
      TCPState_receiver_summary_def syn_acked_def syn_received_def ByteStream_eof_def TCPState_init_def)

lemma syn_segment_simps:
  "th_seqno (seg_header (syn_segment isn)) = isn" "th_syn (seg_header (syn_segment isn))"
  "\<not> th_fin (seg_header (syn_segment isn))" "\<not> th_rst (seg_header (syn_segment isn))"
  "\<not> th_ack (seg_header (syn_segment isn))" "Buffer_str (seg_payload (syn_segment isn)) = []"
  by (simp_all add: syn_segment_def TCPHeader_new_def)

lemma bare_segment_simps:
  "th_seqno (seg_header (bare_segment s)) = wrap (sn_next_seqno s) (sn_isn s)" "\<not> th_syn (seg_header (bare_segment s))"
  "\<not> th_fin (seg_header (bare_segment s))" "\<not> th_rst (seg_header (bare_segment s))"
  "Buffer_str (seg_payload (bare_segment s)) = []"
  by (simp_all add: bare_segment_def TCPHeader_new_def TCPSender_next_seqno_def)

lemma segment_length_simp:
  "TCPSegment_length_in_sequence_space seg =
     list_size (Buffer_str (seg_payload seg)) + (if th_syn (seg_header seg) then 1 else 0)
       + (if th_fin (seg_header seg) then 1 else 0)"
  by (simp add: TCPSegment_length_in_sequence_space_def)

lemma stamp_ack_known:
  "TCPReceiver_ackno r = Some k \<Longrightarrow> th_ack (seg_header (stamp_ack r seg)) \<and> th_ackno (seg_header (stamp_ack r seg)) = k"
  "TCPReceiver_ackno r = None \<Longrightarrow> stamp_ack r seg = seg"
  by (simp_all add: stamp_ack_def)

lemma state_half_open:
  assumes "syn_sent isn (cn_sender c)" and "cn_active c" and "cn_linger_after_streams_finish c"
  shows "cn_receiver c = TCPReceiver_new cap \<Longrightarrow> TCPConnection_state c = TCPState_of_State SYN_SENT"
    and "syn_received isn' (cn_receiver c) \<Longrightarrow> TCPConnection_state c = TCPState_of_State SYN_RCVD"
  using assms by (simp_all add: TCPConnection_state_def TCPState_of_def TCPState_sender_summary_def
      TCPState_receiver_summary_def syn_sent_def syn_received_def TCPState_init_def
      TCPReceiver_new_def TCPReceiver_ackno_def StreamReassembler_new_def ByteStream_new_def)

text \<open>The four moments of the handshake: the client opens, the server answers, the client confirms, the server is told.\<close>

lemma handshake_open:
  assumes c_def: "c = TCPConnection_new rand cfg" and isn_def: "isn = sn_isn (cn_sender c)"
  shows "\<exists>s. syn_sent isn s \<and> sn_segments_out s = []
     \<and> TCPConnection_connect c = c\<lparr>cn_sender := s, cn_segments_out := [syn_segment isn]\<rparr>"
proof -
  let ?s = "TCPSender_fill_window (cn_sender c)"
  have c: "cn_sender c = TCPSender_new rand (cfg_send_capacity cfg) (cfg_rt_timeout cfg) (cfg_fixed_isn cfg)"
      "cn_active c" "cn_segments_out c = []" "cn_receiver c = TCPReceiver_new (cfg_recv_capacity cfg)"
    by (simp_all add: c_def TCPConnection_new_def)
  have r: "TCPReceiver_ackno (cn_receiver c) = None" by (simp add: c TCPReceiver_new_def TCPReceiver_ackno_def)
  note f = syn_sent_fill [OF c(1), folded isn_def]
  have "TCPConnection_connect c = c\<lparr>cn_sender := ?s\<lparr>sn_segments_out := []\<rparr>, cn_segments_out := [syn_segment isn]\<rparr>"
    by (rule TCPConnection.equality)
      (simp_all add: TCPConnection_connect_def send_segments_eq c(2,3) f(2) stamp_ack_known(2) [OF r])
  moreover have "syn_sent isn (?s\<lparr>sn_segments_out := []\<rparr>)" using f(1) by (simp add: syn_sent_def)
  ultimately show ?thesis by (intro exI [of _ "?s\<lparr>sn_segments_out := []\<rparr>"]) simp
qed

lemma handshake_answer:
  assumes c_def: "c = TCPConnection_new rand cfg" and isn_def: "isn = sn_isn (cn_sender c)"
  shows "\<exists>s r. syn_sent isn s \<and> sn_segments_out s = [] \<and> syn_received isn' r
     \<and> TCPConnection_segment_received c (syn_segment isn') =
         c\<lparr>cn_receiver := r, cn_sender := s, cn_segments_out := [stamp_ack r (syn_segment isn)]\<rparr>"
proof -
  let ?s = "TCPSender_fill_window (cn_sender c)" and ?seg = "syn_segment isn'"
  have c: "cn_sender c = TCPSender_new rand (cfg_send_capacity cfg) (cfg_rt_timeout cfg) (cfg_fixed_isn cfg)"
      "cn_segments_out c = []" "cn_receiver c = TCPReceiver_new (cfg_recv_capacity cfg)"
      "cn_time_since_last_segment_received c = 0" "cn_linger_after_streams_finish c"
    by (simp_all add: c_def TCPConnection_new_def)
  define r where "r = TCPReceiver_segment_received (cn_receiver c) ?seg"
  have r: "syn_received isn' r"
    unfolding r_def c(3) by (rule syn_received_syn) (simp_all add: syn_segment_simps)
  note f = syn_sent_fill [OF c(1), folded isn_def]
  have "\<not> sn_is_syn_set (cn_sender c)" by (simp add: c(1) TCPSender_new_def)
  then have s: "after_probe r ?seg (after_reply ?seg (after_ack ?seg (cn_sender c))) = ?s"
    by (simp add: after_probe_def after_reply_def after_ack_def syn_segment_simps segment_length_simp)
  have "TCPConnection_segment_received c ?seg =
      c\<lparr>cn_receiver := r, cn_sender := ?s\<lparr>sn_segments_out := []\<rparr>, cn_segments_out := [stamp_ack r (syn_segment isn)]\<rparr>"
    unfolding segment_received_eq [OF refl refl refl]
    by (rule TCPConnection.equality)
      (use r in \<open>simp_all add: syn_segment_simps r_def [symmetric] s c(2,4,5) f(2) syn_received_def\<close>)
  moreover have "syn_sent isn (?s\<lparr>sn_segments_out := []\<rparr>)" using f(1) by (simp add: syn_sent_def)
  ultimately show ?thesis using r by (intro exI [of _ "?s\<lparr>sn_segments_out := []\<rparr>"] exI [of _ r]) simp
qed

lemma handshake_confirm:
  fixes isn' :: WrappingInt32
  assumes st: "syn_sent isn (cn_sender c)" "sn_segments_out (cn_sender c) = []"
    and c: "cn_receiver c = TCPReceiver_new cap" "cn_linger_after_streams_finish c" "cn_active c" "cn_segments_out c = []"
    and r': "syn_received isn r'"
  defines "c' \<equiv> TCPConnection_segment_received c (stamp_ack r' (syn_segment isn'))"
  shows "\<exists>r s. syn_acked isn s \<and> syn_received isn' r
     \<and> cn_sender c' = s \<and> cn_receiver c' = r \<and> cn_active c' \<and> cn_linger_after_streams_finish c'
     \<and> cn_segments_out c' = [stamp_ack r (bare_segment s)]"
proof -
  let ?seg = "stamp_ack r' (syn_segment isn')"
  have ack: "th_ack (seg_header ?seg)" "th_ackno (seg_header ?seg) = wrap 1 isn"
    using r' stamp_ack_known(1) unfolding syn_received_def by blast+
  define r where "r = TCPReceiver_segment_received (cn_receiver c) ?seg"
  have r: "syn_received isn' r"
    unfolding r_def c(1) by (rule syn_received_syn) (simp_all add: syn_segment_simps)
  define s where "s = after_ack ?seg (cn_sender c)"
  note s = syn_acked_after_ack [OF st(1) ack, folded s_def]
  have s1: "after_probe r ?seg (after_reply ?seg s) = TCPSender_send_empty_segment s"
    using s by (simp add: after_probe_def after_reply_def syn_segment_simps segment_length_simp syn_acked_def)
  define s2 where "s2 = s\<lparr>sn_segments_out := []\<rparr>"
  have e: "sn_segments_out (TCPSender_send_empty_segment s) = [bare_segment s2]"
      "(TCPSender_send_empty_segment s)\<lparr>sn_segments_out := []\<rparr> = s2"
    using s(2) st(2) by (simp_all add: TCPSender_send_empty_segment_def s2_def bare_segment_def TCPSender_next_seqno_def)
  have "syn_acked isn s2" using s(1) by (simp add: s2_def syn_acked_def)
  moreover have "cn_sender c' = s2" "cn_receiver c' = r" "cn_active c'" "cn_linger_after_streams_finish c'"
      "cn_segments_out c' = [stamp_ack r (bare_segment s2)]"
    using r c(2-) unfolding c'_def segment_received_eq [OF refl refl refl]
    by (simp_all add: syn_segment_simps r_def [symmetric] s_def [symmetric] s1 e syn_received_def)
  ultimately show ?thesis using r by blast
qed

lemma handshake_told:
  assumes st: "syn_sent isn (cn_sender c)" "sn_segments_out (cn_sender c) = []"
    and c: "syn_received isn' (cn_receiver c)" "cn_linger_after_streams_finish c" "cn_active c" "cn_segments_out c = []"
    and r': "syn_received isn r'" and s': "syn_acked isn' s'"
  defines "c' \<equiv> TCPConnection_segment_received c (stamp_ack r' (bare_segment s'))"
  shows "syn_acked isn (cn_sender c') \<and> syn_received isn' (cn_receiver c') \<and> cn_active c'
     \<and> cn_linger_after_streams_finish c' \<and> cn_segments_out c' = []"
proof -
  let ?seg = "stamp_ack r' (bare_segment s')"
  have ack: "th_ack (seg_header ?seg)" "th_ackno (seg_header ?seg) = wrap 1 isn"
    using r' stamp_ack_known(1) unfolding syn_received_def by blast+
  have len: "TCPSegment_length_in_sequence_space ?seg = 0"
    by (simp add: segment_length_simp bare_segment_simps)
  define r where "r = TCPReceiver_segment_received (cn_receiver c) ?seg"
  have r: "syn_received isn' r"
    unfolding r_def by (rule syn_received_nothing [OF c(1) len]) (simp_all add: bare_segment_simps)
  define s where "s = after_ack ?seg (cn_sender c)"
  note s = syn_acked_after_ack [OF st(1) ack, folded s_def]
  have "WrappingInt32_minus (wrap 1 isn') 1 = isn'"
    by (cases isn') (simp add: wrap_ucast WrappingInt32_plus_def WrappingInt32_minus_def)
  moreover have "wrap 1 isn' \<noteq> isn'"
    using wrap_eq_iff [of 1 isn' 0] by simp
  ultimately have s1: "after_probe r ?seg (after_reply ?seg s) = s"
    using r s' by (simp add: after_probe_def after_reply_def len syn_received_def bare_segment_simps syn_acked_def)
  have "cn_sender c' = s\<lparr>sn_segments_out := []\<rparr>" "cn_receiver c' = r" "cn_active c'" "cn_linger_after_streams_finish c'"
      "cn_segments_out c' = []"
    using r c(2-) s(2) st(2) unfolding c'_def segment_received_eq [OF refl refl refl]
    by (simp_all add: bare_segment_simps r_def [symmetric] s_def [symmetric] s1 syn_received_def)
  moreover have "syn_acked isn (s\<lparr>sn_segments_out := []\<rparr>)" using s(1) by (simp add: syn_acked_def)
  ultimately show ?thesis using r by simp
qed

section \<open>A reset connection\<close>

text \<open>No operation clears the error flag of a stream.\<close>

lemma error_write [simp]: "bs_error (fst (ByteStream_write bs data)) = bs_error bs"
  by (simp add: ByteStream_write_def Let_def fold_push_back)

lemma error_read [simp]: "bs_error (fst (ByteStream_read bs n)) = bs_error bs"
  by (simp add: ByteStream_read_def ByteStream_pop_output_def Let_def funpow_pop_front)

lemma error_push [simp]:
  "bs_error (sr_output (StreamReassembler_push_substring r data index eof)) = bs_error (sr_output r)"
  by (simp add: StreamReassembler_push_substring_def Let_def ByteStream_end_input_def split: prod.split)

lemma error_receive [simp]:
  "bs_error (TCPReceiver_stream_out (TCPReceiver_segment_received r seg)) = bs_error (TCPReceiver_stream_out r)"
  by (simp add: TCPReceiver_segment_received_def Let_def)

lemma error_make_segment:
  assumes "TCPSender_make_segment s = (s', segment)"
  shows "bs_error (sn_stream s') = bs_error (sn_stream s)"
proof -
  obtain bs data where rd: "ByteStream_read (sn_stream s) (min (sn_remaining s) MAX_PAYLOAD_SIZE) = (bs, data)"
    by fastforce
  then have "bs_error bs = bs_error (sn_stream s)" using error_read [of "sn_stream s"] by (metis fst_conv)
  with assms show ?thesis unfolding make_segment_eq [OF rd] by auto
qed

lemma error_fill_window [simp]: "bs_error (sn_stream (TCPSender_fill_window s)) = bs_error (sn_stream s)"
  by (rule fill_window_rule [where P = "\<lambda>s'. bs_error (sn_stream s') = bs_error (sn_stream s)"])
    (auto simp: error_make_segment TCPSender_push_segment_def)

text \<open>A connection that is over with both streams in error.\<close>

definition reset :: "TCPConnection \<Rightarrow> bool" where
  "reset c \<longleftrightarrow> \<not> cn_active c \<and> bs_error (sn_stream (cn_sender c)) \<and> bs_error (TCPConnection_inbound_stream c)"

lemma reset_state: "reset c \<Longrightarrow> TCPConnection_state c = TCPState_of_State RESET"
  by (simp add: reset_def TCPConnection_state_def TCPState_of_def TCPState_sender_summary_def
      TCPState_receiver_summary_def TCPState_init_def)

lemma reset_shutdown [simp]: "reset (TCPConnection_unclean_shutdown c)"
  by (simp add: reset_def TCPConnection_unclean_shutdown_def TCPReceiver_set_stream_out_def ByteStream_set_error_def)

lemma reset_abort: "TCPConnection_abort c = Inr c' \<Longrightarrow> reset c'"
  using reset_shutdown [of c] unfolding abort_eq by (auto simp: Let_def reset_def)

lemma reset_send_segments [simp]: "reset (TCPConnection_send_segments c) = reset c"
  by (simp add: send_segments_eq reset_def)

lemma error_send_empty [simp]: "sn_stream (TCPSender_send_empty_segment s) = sn_stream s"
  by (simp add: TCPSender_send_empty_segment_def)

lemma reset_segment_received:
  assumes "reset c \<or> th_rst (seg_header seg)"
  shows "reset (TCPConnection_segment_received c seg)"
proof -
  define c1 where "c1 = (if th_rst (seg_header seg) then TCPConnection_unclean_shutdown c else c)"
  have "reset c1" using assms by (auto simp: c1_def)
  moreover have "bs_error (sn_stream (after_probe r seg (after_reply seg (after_ack seg s)))) = bs_error (sn_stream s)" for r s
    by (simp add: after_probe_def after_reply_def after_ack_def Let_def)
  ultimately show ?thesis
    unfolding segment_received_eq [OF c1_def refl refl] by (simp add: reset_def)
qed

lemma reset_call:
  assumes "reset c" and "TCPConnection_call c x = Inr (c', w, d, out)"
  shows "reset c'"
proof (cases x)
  case (Send data)
  obtain bs n where "ByteStream_write (sn_stream (cn_sender c)) data = (bs, n)" by fastforce
  with error_write [of "sn_stream (cn_sender c)" data] assms Send show ?thesis
    by (auto simp: TCPConnection_write_def reset_def send_segments_eq split: if_splits)
next
  case (Elapse ms)
  then obtain s where t: "TCPSender_tick (cn_sender c) ms = Inr s"
    using assms(2) by (cases "TCPSender_tick (cn_sender c) ms") (simp_all add: TCPConnection_tick_def)
  with assms Elapse tick_frame(9) [OF t] show ?thesis
    by (auto simp: TCPConnection_tick_def Let_def result_map_Inr_iff reset_abort split: if_splits)
      (simp_all add: reset_def)
next
  case (Read n)
  obtain bs data where "ByteStream_read (TCPConnection_inbound_stream c) n = (bs, data)" by fastforce
  with error_read [of "TCPConnection_inbound_stream c" n] assms Read show ?thesis
    by (auto simp: TCPConnection_read_inbound_def reset_def TCPReceiver_set_stream_out_def)
next
  case (Receive seg)
  with assms show ?thesis by (auto intro: reset_segment_received)
qed (use assms in \<open>auto simp: reset_def TCPConnection_connect_def TCPConnection_end_input_stream_def Let_def
       send_segments_eq ByteStream_end_input_def\<close>)

lemma reset_run:
  "reset c \<Longrightarrow> TCPConnection_run c xs = Inr (c', w, d, out) \<Longrightarrow> reset c'"
  by (induction xs arbitrary: c w d out) (auto split: sum.splits prod.splits dest: reset_call)

section \<open>Finished streams\<close>

lemma fin_acked_frame: "TCPSender_is_fin_acked (s\<lparr>sn_segments_out := q\<rparr>) = TCPSender_is_fin_acked s"
  by (simp add: TCPSender_is_fin_acked_def)

lemma finished_tick:
  assumes inv: "TCPConnection_inv W c" and fin: "TCPConnection_streams_finished c"
    and retx: "sn_consecutive_retransmissions (cn_sender c) \<le> MAX_RETX_ATTEMPTS"
  defines "t \<equiv> cn_time_since_last_segment_received c"
  obtains c' where "TCPConnection_tick c ms = Inr c'" "TCPConnection_inv W c'" "TCPConnection_streams_finished c'"
    "sn_consecutive_retransmissions (cn_sender c') \<le> MAX_RETX_ATTEMPTS"
    "cn_time_since_last_segment_received c' = t + ms" "cn_cfg c' = cn_cfg c"
    "cn_linger_after_streams_finish c' = cn_linger_after_streams_finish c"
    "cn_active c' \<longleftrightarrow> cn_active c \<and> cn_linger_after_streams_finish c \<and> t + ms < 10 * ucast (cfg_rt_timeout (cn_cfg c))"
proof -
  have s: "TCPSender_inv W (cn_sender c)" using inv by (simp add: TCPConnection_inv_def)
  have "\<not> tm_if_run (sn_timer (cn_sender c))"
  proof (cases "sn_outstanding_segments (cn_sender c)")
    case Nil
    then show ?thesis using TCPSender_invD(5) [OF s] by simp
  next
    case (Cons seg segs)
    have "sn_bytes_in_flight (cn_sender c) = 0"
      using fin by (simp add: TCPConnection_streams_finished_def TCPConnection_bytes_in_flight_def)
    then have "seq_length seg = 0" using in_flight_sum [OF TCPSender_invD(4) [OF s]] Cons by simp
    then show ?thesis using TCPSender_invD(4) [OF s] Cons by (simp add: carries_def)
  qed
  then have tk: "TCPSender_tick (cn_sender c) ms = Inr (cn_sender c)" by (simp add: TCPSender_tick_def)
  define act where "act \<longleftrightarrow> cn_active c \<and> cn_linger_after_streams_finish c
      \<and> t + ms < 10 * ucast (cfg_rt_timeout (cn_cfg c))"
  define c1 where "c1 = c\<lparr>cn_time_since_last_segment_received := t + ms, cn_active := act\<rparr>"
  have f: "TCPConnection_streams_finished (c\<lparr>cn_time_since_last_segment_received := t + ms\<rparr>)"
    using fin by (simp add: TCPConnection_streams_finished_def TCPConnection_bytes_in_flight_def TCPConnection_unassembled_bytes_def)
  have "TCPConnection_tick c ms = Inr (TCPConnection_send_segments c1)"
  proof (cases "\<not> cn_linger_after_streams_finish c \<or> 10 * ucast (cfg_rt_timeout (cn_cfg c)) \<le> t + ms")
    case True
    then have "\<not> act" by (auto simp: act_def)
    with True retx f show ?thesis by (simp add: TCPConnection_tick_def tk t_def c1_def Let_def leD)
  next
    case False
    then have "act = cn_active c" by (auto simp: act_def)
    with False retx f show ?thesis by (simp add: TCPConnection_tick_def tk t_def c1_def Let_def leD)
  qed
  moreover have "TCPConnection_inv W c1" using inv by (simp add: TCPConnection_inv_def c1_def)
  then have "TCPConnection_inv W (TCPConnection_send_segments c1)"
    using conn_step_send_segments by (simp add: conn_step_def)
  moreover have "TCPConnection_streams_finished (TCPConnection_send_segments c1)"
    using fin unfolding TCPConnection_streams_finished_def TCPConnection_bytes_in_flight_def
      TCPConnection_unassembled_bytes_def send_segments_eq c1_def by (simp add: fin_acked_frame)
  ultimately show ?thesis
    by (rule that) (use retx in \<open>simp_all add: send_segments_eq c1_def act_def\<close>)
qed

section \<open>Properties\<close>

text \<open>
  C27. The three-way handshake: for any configurations and initial sequence numbers of two
  endpoints, when one connects and the segments each endpoint queues are delivered to the
  other, the client is in SYN_SENT after connecting, the server in SYN_RCVD after the SYN,
  and after the SYN+ACK and the final ACK both are ESTABLISHED, with nothing in flight and
  nothing more to send.
\<close>

theorem TCPConnection_handshake:
  "let deliver = fold (\<lambda>seg c. TCPConnection_segment_received c seg);
       a = TCPConnection_connect (TCPConnection_new rand_a cfg_a);
       b = deliver (cn_segments_out a) (TCPConnection_new rand_b cfg_b);
       a' = deliver (cn_segments_out b) (a\<lparr>cn_segments_out := []\<rparr>);
       b' = deliver (cn_segments_out a') (b\<lparr>cn_segments_out := []\<rparr>)
   in TCPConnection_state a = TCPState_of_State SYN_SENT \<and> TCPConnection_state b = TCPState_of_State SYN_RCVD
    \<and> TCPConnection_state a' = TCPState_of_State ESTABLISHED \<and> TCPConnection_state b' = TCPState_of_State ESTABLISHED
    \<and> TCPConnection_bytes_in_flight a' = 0 \<and> TCPConnection_bytes_in_flight b' = 0
    \<and> cn_segments_out b' = []"
proof -
  define ia where "ia = sn_isn (cn_sender (TCPConnection_new rand_a cfg_a))"
  define ib where "ib = sn_isn (cn_sender (TCPConnection_new rand_b cfg_b))"
  define a where "a = TCPConnection_connect (TCPConnection_new rand_a cfg_a)"
  obtain sa where a: "syn_sent ia sa" "sn_segments_out sa = []"
      "a = (TCPConnection_new rand_a cfg_a)\<lparr>cn_sender := sa, cn_segments_out := [syn_segment ia]\<rparr>"
    using handshake_open [OF refl ia_def] a_def by blast
  define b where "b = TCPConnection_segment_received (TCPConnection_new rand_b cfg_b) (syn_segment ia)"
  obtain sb rb where b: "syn_sent ib sb" "sn_segments_out sb = []" "syn_received ia rb"
      "b = (TCPConnection_new rand_b cfg_b)\<lparr>cn_receiver := rb, cn_sender := sb,
              cn_segments_out := [stamp_ack rb (syn_segment ib)]\<rparr>"
    using handshake_answer [OF refl ib_def] b_def by blast
  define a' where "a' = TCPConnection_segment_received (a\<lparr>cn_segments_out := []\<rparr>) (stamp_ack rb (syn_segment ib))"
  have ra: "cn_receiver a = TCPReceiver_new (cfg_recv_capacity cfg_a)" "cn_linger_after_streams_finish a" "cn_active a"
    by (simp_all add: a(3) TCPConnection_new_def)
  have "\<exists>r s. syn_acked ia s \<and> syn_received ib r \<and> cn_sender a' = s \<and> cn_receiver a' = r \<and> cn_active a'
      \<and> cn_linger_after_streams_finish a' \<and> cn_segments_out a' = [stamp_ack r (bare_segment s)]"
    unfolding a'_def by (rule handshake_confirm) (use a ra b(3) in simp_all)
  then obtain s2 r2 where a': "syn_acked ia s2" "syn_received ib r2" "cn_sender a' = s2" "cn_receiver a' = r2"
      "cn_active a'" "cn_linger_after_streams_finish a'" "cn_segments_out a' = [stamp_ack r2 (bare_segment s2)]"
    by blast
  define b' where "b' = TCPConnection_segment_received (b\<lparr>cn_segments_out := []\<rparr>) (stamp_ack r2 (bare_segment s2))"
  have rb: "cn_linger_after_streams_finish b" "cn_active b" by (simp_all add: b(4) TCPConnection_new_def)
  have b': "syn_acked ib (cn_sender b') \<and> syn_received ia (cn_receiver b') \<and> cn_active b'
      \<and> cn_linger_after_streams_finish b' \<and> cn_segments_out b' = []"
    unfolding b'_def by (rule handshake_told) (use b rb a'(1,2) in simp_all)
  have q: "cn_segments_out a = [syn_segment ia]" "cn_segments_out b = [stamp_ack rb (syn_segment ib)]"
    by (simp_all add: a(3) b(4))
  have "TCPConnection_state a = TCPState_of_State SYN_SENT" "TCPConnection_state b = TCPState_of_State SYN_RCVD"
    using state_half_open(1) [of ia a] state_half_open(2) [of ib b ia] a(1,3) b(1,3,4) ra rb by simp_all
  moreover have "TCPConnection_state a' = TCPState_of_State ESTABLISHED" "TCPConnection_state b' = TCPState_of_State ESTABLISHED"
    using state_established a' b' by blast+
  ultimately show ?thesis
    using a'(1,3) b' by (simp add: a_def [symmetric] q b_def [symmetric] a'_def [symmetric] a'(7) b'_def [symmetric]
        TCPConnection_bytes_in_flight_def syn_acked_def Let_def)
qed

text \<open>
  C28. How a connection ends cleanly: once both streams have finished and are acknowledged,
  whatever the clock ticks, no tick is undefined, and the connection is active afterwards
  exactly if it was before and it lingers and less than ten times the initial
  retransmission timeout has passed since the last segment; a connection that need not
  linger (the peer's stream ended first) is over at the first tick.
\<close>

theorem TCPConnection_closes:
  assumes "TCPConnection_run (TCPConnection_new rand cfg) xs = Inr (c, W, d, out)"
    and "unat (cfg_send_capacity cfg) < 2 ^ 31" and "sum_list (map call_bytes xs) + 2 ^ 32 \<le> 2 ^ 64"
    and "TCPConnection_streams_finished c" and "sn_consecutive_retransmissions (cn_sender c) \<le> MAX_RETX_ATTEMPTS"
    and "ms \<noteq> []" and "unat (cn_time_since_last_segment_received c) + sum_list (map unat ms) < 2 ^ 64"
  shows "\<exists>c'. TCPConnection_run c (map Elapse ms) = Inr (c', [], [], [])
     \<and> TCPConnection_streams_finished c'
     \<and> (cn_active c' \<longleftrightarrow> cn_active c \<and> cn_linger_after_streams_finish c
          \<and> unat (cn_time_since_last_segment_received c) + sum_list (map unat ms) < 10 * unat (cfg_rt_timeout (cn_cfg c)))"
proof -
  have ten: "unat (10 * ucast r :: u64) = 10 * unat r" for r :: u16
    using unsigned_less [of r, where ?'a = nat] by (simp add: unat_word_ariths unat_ucast_up)
  have "call_ok [] (TCPConnection_new rand cfg) (Inr (c, W, d, out))"
    unfolding assms(1) [symmetric] using assms(2,3) by (intro call_ok_run new_connection_inv) simp_all
  then have "TCPConnection_inv W c" by (simp add: call_ok_def)
  then show ?thesis
    using assms(4-)
  proof (induction ms arbitrary: c)
    case (Cons m ms)
    let ?t = "cn_time_since_last_segment_received c"
    obtain c1 where c1: "TCPConnection_tick c m = Inr c1" "TCPConnection_inv W c1" "TCPConnection_streams_finished c1"
        "sn_consecutive_retransmissions (cn_sender c1) \<le> MAX_RETX_ATTEMPTS"
        "cn_time_since_last_segment_received c1 = ?t + m" "cn_cfg c1 = cn_cfg c"
        "cn_linger_after_streams_finish c1 = cn_linger_after_streams_finish c"
        "cn_active c1 \<longleftrightarrow> cn_active c \<and> cn_linger_after_streams_finish c \<and> ?t + m < 10 * ucast (cfg_rt_timeout (cn_cfg c))"
      by (rule finished_tick [OF Cons.prems(1-3)])
    have t: "unat (?t + m) = unat ?t + unat m" using Cons.prems(5) by (simp add: unat_word_ariths)
    have lt: "?t + m < 10 * ucast (cfg_rt_timeout (cn_cfg c)) \<longleftrightarrow> unat ?t + unat m < 10 * unat (cfg_rt_timeout (cn_cfg c))"
      by (simp only: word_less_nat_alt t ten)
    show ?case
    proof (cases "ms = []")
      case True
      with c1 lt show ?thesis by simp
    next
      case False
      have "unat (cn_time_since_last_segment_received c1) + sum_list (map unat ms) < 2 ^ 64"
        using Cons.prems(5) t c1(5) by simp
      from Cons.IH [OF c1(2-4) False this] c1 lt t show ?thesis by (auto simp: add.assoc)
    qed
  qed simp
qed

text \<open>A connection that opens, closes first and receives the peer's FIN.\<close>

definition example_calls :: "cn_call list" where
  "example_calls =
     [Connect,
      Receive \<lparr>seg_header = TCPHeader_new\<lparr>th_seqno := WrappingInt32 50, th_syn := True, th_ack := True,
            th_ackno := WrappingInt32 8, th_win := 100\<rparr>, seg_payload = Buffer_new\<rparr>,
      Shutdown,
      Receive \<lparr>seg_header = TCPHeader_new\<lparr>th_seqno := WrappingInt32 51, th_fin := True, th_ack := True,
            th_ackno := WrappingInt32 9, th_win := 100\<rparr>, seg_payload = Buffer_new\<rparr>]"

theorem TCPConnection_closes_witness:
  "\<exists>c W d out c' c''. TCPConnection_run (TCPConnection_new 7 example_cfg) example_calls = Inr (c, W, d, out)
     \<and> TCPConnection_run c (map Elapse [4000, 5999]) = Inr (c', [], [], []) \<and> cn_active c'
     \<and> TCPConnection_run c (map Elapse [4000, 6000]) = Inr (c'', [], [], []) \<and> \<not> cn_active c''"
proof -
  let ?run = "TCPConnection_run (TCPConnection_new 7 example_cfg) example_calls"
  have f: "isl ?run = False" "TCPConnection_streams_finished (fst (projr ?run))"
      "sn_consecutive_retransmissions (cn_sender (fst (projr ?run))) = 0"
      "cn_time_since_last_segment_received (fst (projr ?run)) = 0" "cn_active (fst (projr ?run))"
      "cn_linger_after_streams_finish (fst (projr ?run))" "cfg_rt_timeout (cn_cfg (fst (projr ?run))) = 1000"
    by code_simp+
  obtain c W d out where r: "?run = Inr (c, W, d, out)"
    using f(1) by (metis prod_cases4 sum.collapse(2))
  note f = f(2-) [unfolded r, simplified]
  have "unat (cfg_send_capacity example_cfg) < 2 ^ 31" "sum_list (map call_bytes example_calls) + 2 ^ 32 \<le> 2 ^ 64"
      "sn_consecutive_retransmissions (cn_sender c) \<le> MAX_RETX_ATTEMPTS"
    using f(2) by (simp_all add: example_cfg_def example_calls_def MAX_RETX_ATTEMPTS_def)
  note T = TCPConnection_closes [OF r this(1,2) f(1) this(3)]
  have "\<exists>c'. TCPConnection_run c (map Elapse [4000, 5999]) = Inr (c', [], [], []) \<and> cn_active c'"
    using T [of "[4000, 5999]"] f by (auto simp del: TCPConnection_run.simps)
  moreover have "\<exists>c'. TCPConnection_run c (map Elapse [4000, 6000]) = Inr (c', [], [], []) \<and> \<not> cn_active c'"
    using T [of "[4000, 6000]"] f by (auto simp del: TCPConnection_run.simps)
  ultimately show ?thesis using r by blast
qed





end
