(* ===== verification/TCP_Network.thy ===== *)
theory TCP_Network
  imports Connection_Lifecycle
begin

text \<open>
  Two connections joined by a network that may lose, duplicate, delay and reorder segments:
  any segment that one endpoint ever handed out may be delivered to the other at any time,
  any number of times. Each endpoint is driven by an arbitrary owner (connecting, writing,
  reading, closing, letting time pass).
\<close>

section \<open>Endpoints and steps\<close>

record endpoint =
  ep_conn :: TCPConnection
  ep_written :: bytes
  ep_read :: bytes
  ep_sent :: "TCPSegment list"

definition endpoint_new :: "u32 \<Rightarrow> TCPConfig \<Rightarrow> endpoint" where
  "endpoint_new rand cfg = \<lparr>ep_conn = TCPConnection_new rand cfg, ep_written = [], ep_read = [], ep_sent = []\<rparr>"

definition endpoint_call :: "endpoint \<Rightarrow> cn_call \<Rightarrow> endpoint result" where
  "endpoint_call e x =
     (case TCPConnection_call (ep_conn e) x of
        Inl err \<Rightarrow> Inl err
      | Inr (c, w, d, out) \<Rightarrow>
          Inr \<lparr>ep_conn = c, ep_written = ep_written e @ w, ep_read = ep_read e @ d, ep_sent = ep_sent e @ out\<rparr>)"

text \<open>The calls of the owner; the string of one write is smaller than the address space.\<close>

fun local_call :: "cn_call \<Rightarrow> bool" where
  "local_call (Receive seg) = False"
| "local_call (Send data) = (int (length data) < 2 ^ 62)"
| "local_call _ = True"

inductive net_step :: "endpoint \<times> endpoint \<Rightarrow> endpoint \<times> endpoint \<Rightarrow> bool" where
  local_a: "local_call x \<Longrightarrow> endpoint_call e x = Inr e' \<Longrightarrow> net_step (e, f) (e', f)"
| local_b: "local_call x \<Longrightarrow> endpoint_call f x = Inr f' \<Longrightarrow> net_step (e, f) (e, f')"
| to_a: "seg \<in> set (ep_sent f) \<Longrightarrow> endpoint_call e (Receive seg) = Inr e' \<Longrightarrow> net_step (e, f) (e', f)"
| to_b: "seg \<in> set (ep_sent e) \<Longrightarrow> endpoint_call f (Receive seg) = Inr f' \<Longrightarrow> net_step (e, f) (e, f')"

inductive_cases net_stepE: "net_step (e, f) (e', f')"

section \<open>A receiver of genuine segments\<close>

definition receiver_safe :: "bytes \<Rightarrow> WrappingInt32 \<Rightarrow> bytes \<Rightarrow> TCPReceiver \<Rightarrow> bool" where
  "receiver_safe W isn d r \<longleftrightarrow>
     StreamReassembler_inv W (rv_reassembler r) \<and> written_prefix W d (rv_reassembler r)
     \<and> (rv_if_syn_set r \<longrightarrow> rv_isn r = isn) \<and> unat (rv_abs_checkpoint r) \<le> length W + 1"

lemma receiver_safe_grow:
  assumes safe: "receiver_safe W isn d r" and "length (W @ zs) + 2 ^ 32 \<le> 2 ^ 64"
  shows "receiver_safe (W @ zs) isn d r"
proof -
  let ?ra = "rv_reassembler r"
  have inv: "StreamReassembler_inv W ?ra" using safe by (simp add: receiver_safe_def)
  then have "holds_stream (W @ zs) (unat (sr_next_index ?ra)) (sr_unassembled ?ra)"
    by (fastforce simp: StreamReassembler_inv_def holds_stream_def nth_append)
  then have "StreamReassembler_inv (W @ zs) ?ra" using inv assms(2) by (simp add: StreamReassembler_inv_def)
  moreover have "written_prefix (W @ zs) d ?ra"
    using safe inv by (fastforce simp: receiver_safe_def written_prefix_def StreamReassembler_inv_def)
  ultimately show ?thesis using safe by (simp add: receiver_safe_def)
qed

lemma receive_fields:
  fixes r :: TCPReceiver
  assumes "TCPSegment_length_in_sequence_space seg \<noteq> 0"
  defines "isn \<equiv> if rv_if_syn_set r then rv_isn r else if th_syn (seg_header seg) then th_seqno (seg_header seg) else rv_isn r"
    and "r' \<equiv> TCPReceiver_segment_received r seg"
  shows "rv_reassembler r' =
      (if rv_if_syn_set r \<or> th_syn (seg_header seg) then
         StreamReassembler_push_substring (rv_reassembler r) (Buffer_str (seg_payload seg))
           (if th_syn (seg_header seg) then unwrap (th_seqno (seg_header seg)) isn (rv_abs_checkpoint r)
            else unwrap (th_seqno (seg_header seg)) isn (rv_abs_checkpoint r) - 1)
           (th_fin (seg_header seg))
       else rv_reassembler r)"
    and "rv_isn r' = isn"
    and "rv_if_syn_set r' \<longleftrightarrow> rv_if_syn_set r \<or> th_syn (seg_header seg)"
    and "rv_abs_checkpoint r' =
      (if rv_if_syn_set r \<or> th_syn (seg_header seg) then unwrap (th_seqno (seg_header seg)) isn (rv_abs_checkpoint r)
       else rv_abs_checkpoint r)"
proof -
  let ?h = "seg_header seg"
  define r1 where "r1 = r\<lparr>rv_syn_flag := th_syn ?h, rv_fin_flag := th_fin ?h\<rparr>"
  define r2 where "r2 = (if \<not> rv_if_syn_set r1 \<and> rv_syn_flag r1
      then r1\<lparr>rv_isn := th_seqno ?h, rv_if_syn_set := True\<rparr> else r1)"
  define r3 where "r3 = (if \<not> rv_if_fin_set r2 \<and> rv_fin_flag r2
      then r2\<lparr>rv_abs_seqno_fin :=
                unwrap (WrappingInt32_minus
                          (WrappingInt32_plus (th_seqno ?h) (ucast (TCPSegment_length_in_sequence_space seg))) 1)
                  (rv_isn r2) (rv_abs_checkpoint r2),
              rv_if_fin_set := True\<rparr>
      else r2)"
  have 2: "rv_reassembler r2 = rv_reassembler r" "rv_abs_checkpoint r2 = rv_abs_checkpoint r"
      "rv_syn_flag r2 = th_syn ?h" "rv_fin_flag r2 = th_fin ?h" "rv_isn r2 = isn"
      "rv_if_syn_set r2 \<longleftrightarrow> rv_if_syn_set r \<or> th_syn ?h"
    by (simp_all add: r2_def r1_def isn_def)
  have 3: "rv_reassembler r3 = rv_reassembler r" "rv_abs_checkpoint r3 = rv_abs_checkpoint r"
      "rv_syn_flag r3 = th_syn ?h" "rv_fin_flag r3 = th_fin ?h" "rv_isn r3 = isn"
      "rv_if_syn_set r3 \<longleftrightarrow> rv_if_syn_set r \<or> th_syn ?h"
    using 2 by (simp_all add: r3_def)
  have "r' = (if \<not> rv_if_syn_set r3 then r3
      else r3\<lparr>rv_reassembler :=
               StreamReassembler_push_substring (rv_reassembler r3) (Buffer_str (seg_payload seg))
                 (if \<not> rv_syn_flag r3 then unwrap (th_seqno ?h) (rv_isn r3) (rv_abs_checkpoint r3) - 1
                  else unwrap (th_seqno ?h) (rv_isn r3) (rv_abs_checkpoint r3)) (rv_fin_flag r3),
             rv_abs_checkpoint := unwrap (th_seqno ?h) (rv_isn r3) (rv_abs_checkpoint r3)\<rparr>)"
    using assms(1) unfolding r'_def TCPReceiver_segment_received_def Let_def r3_def r2_def r1_def by (simp only: simp_thms)
  with 3 show "rv_reassembler r' =
      (if rv_if_syn_set r \<or> th_syn ?h then
         StreamReassembler_push_substring (rv_reassembler r) (Buffer_str (seg_payload seg))
           (if th_syn ?h then unwrap (th_seqno ?h) isn (rv_abs_checkpoint r)
            else unwrap (th_seqno ?h) isn (rv_abs_checkpoint r) - 1)
           (th_fin ?h)
       else rv_reassembler r)" "rv_isn r' = isn" "rv_if_syn_set r' \<longleftrightarrow> rv_if_syn_set r \<or> th_syn ?h"
    "rv_abs_checkpoint r' = (if rv_if_syn_set r \<or> th_syn ?h then unwrap (th_seqno ?h) isn (rv_abs_checkpoint r)
       else rv_abs_checkpoint r)"
    by simp_all
qed

lemma receiver_safe_receive:
  assumes safe: "receiver_safe W isn d r" and em: "emitted W fs isn seg" and len: "length W + 2 < 2 ^ 31"
  shows "receiver_safe W isn d (TCPReceiver_segment_received r seg)"
proof (cases "seq_length seg = 0")
  case True
  then have "TCPSegment_length_in_sequence_space seg = 0" "\<not> th_syn (seg_header seg)" "\<not> th_fin (seg_header seg)"
    by (auto simp: seq_length_def TCPSegment_length_in_sequence_space_def split: if_splits)
  from receive_nothing [OF this] safe show ?thesis by (simp add: receiver_safe_def)
next
  case False
  then obtain a where a: "a \<le> length W + 1" "carries W fs isn a seg" using em by (auto simp: emitted_def)
  let ?data = "Buffer_str (seg_payload seg)" and ?h = "seg_header seg"
  have c: "th_seqno ?h = wrap (of_nat a) isn" "th_syn ?h \<longleftrightarrow> a = 0" "excerpt_at W (a - 1) ?data" "length ?data \<le> 1000"
    using a(2) by (simp_all add: carries_def)
  have nz: "TCPSegment_length_in_sequence_space seg \<noteq> 0"
    using seq_length_unat(2) [of seg] c(4) False by simp
  define isn' where "isn' = (if rv_if_syn_set r then rv_isn r else if th_syn ?h then th_seqno ?h else rv_isn r)"
  have isn': "isn' = isn" if "rv_if_syn_set r \<or> th_syn ?h"
    using that safe c(1,2) by (auto simp: isn'_def receiver_safe_def)
  let ?chk = "rv_abs_checkpoint r"
  define idx where "idx = (if th_syn ?h then of_nat a else of_nat a - 1 :: u64)"
  have u: "unwrap (th_seqno ?h) isn ?chk = of_nat a"
    unfolding c(1) using safe a(1) len by (intro unwrap_near_nat) (simp_all add: receiver_safe_def)
  have na: "unat (of_nat a :: u64) = a" using a(1) len by (simp add: unat_of_nat take_bit_nat_eq_self)
  have "unat idx = a - 1"
    using c(2) na by (cases "a = 0") (simp_all add: idx_def unat_le_diff word_le_nat_alt)
  then have con: "consistent W ?data idx" using c(3) by (simp add: consistent_def)
  have "rv_reassembler (TCPReceiver_segment_received r seg) =
        (if rv_if_syn_set r \<or> th_syn ?h then StreamReassembler_push_substring (rv_reassembler r) ?data idx (th_fin ?h)
         else rv_reassembler r)"
      "rv_isn (TCPReceiver_segment_received r seg) = isn'"
      "rv_abs_checkpoint (TCPReceiver_segment_received r seg) = (if rv_if_syn_set r \<or> th_syn ?h then of_nat a else ?chk)"
    using isn' u unfolding receive_fields [OF nz] isn'_def [symmetric] idx_def by auto
  note receive_fields(3) [OF nz] this
  then show ?thesis
    using safe isn' push_inv [OF _ con] push_written_prefix [OF _ con] na a(1)
    by (simp add: receiver_safe_def)
qed

lemma receiver_safe_error:
  assumes "receiver_safe W isn d r"
  shows "receiver_safe W isn d (TCPReceiver_set_stream_out (ByteStream_set_error (TCPReceiver_stream_out r)) r)"
proof -
  have "ByteStream_inv (ByteStream_set_error bs) = ByteStream_inv bs" for bs
    by (simp add: ByteStream_set_error_def ByteStream_inv_def)
  with assms show ?thesis
    by (simp add: receiver_safe_def TCPReceiver_set_stream_out_def StreamReassembler_inv_def written_prefix_def)
      (simp add: ByteStream_set_error_def)
qed

lemma receiver_safe_abort:
  assumes "receiver_safe W isn d (cn_receiver c)" and "TCPConnection_abort c = Inr c'"
  shows "receiver_safe W isn d (cn_receiver c')"
  using assms receiver_safe_error unfolding abort_eq by (auto simp: Let_def TCPConnection_unclean_shutdown_def)

lemma receiver_safe_local:
  assumes safe: "receiver_safe W isn d (cn_receiver c)" and "local_call x"
    and call: "TCPConnection_call c x = Inr (c', w, d', out)"
  shows "receiver_safe W isn (d @ d') (cn_receiver c')"
proof (cases x)
  case (Send data)
  with safe call show ?thesis by (auto simp: TCPConnection_write_def send_segments_eq split: if_splits prod.splits)
next
  case (Elapse ms)
  then have t: "TCPConnection_tick c ms = Inr c'" "d' = []" using call by (auto simp: result_map_Inr_iff)
  obtain s where "TCPSender_tick (cn_sender c) ms = Inr s"
    using t(1) by (cases "TCPSender_tick (cn_sender c) ms") (simp_all add: TCPConnection_tick_def)
  with t safe show ?thesis
    by (auto simp: TCPConnection_tick_def Let_def send_segments_eq split: if_splits
        elim!: receiver_safe_abort [rotated])
next
  case (Read n)
  obtain bs data where rd: "ByteStream_read (TCPConnection_inbound_stream c) n = (bs, data)" by fastforce
  then have c': "cn_receiver c' = TCPReceiver_set_stream_out bs (cn_receiver c)" "d' = data"
    using call Read by (auto simp: TCPConnection_read_inbound_def)
  have inv: "StreamReassembler_inv W (rv_reassembler (cn_receiver c))" using safe by (simp add: receiver_safe_def)
  have "written_prefix W (d @ data) ((rv_reassembler (cn_receiver c))\<lparr>sr_output := bs\<rparr>)"
    using safe drain_facts [OF inv rd] by (simp add: receiver_safe_def written_prefix_def)
  then show ?thesis
    using safe drain_inv [OF inv rd] by (simp add: receiver_safe_def c' TCPReceiver_set_stream_out_def)
next
  case (Receive seg)
  with assms(2) show ?thesis by simp
qed (use safe call in \<open>auto simp: TCPConnection_connect_def TCPConnection_end_input_stream_def send_segments_eq Let_def
       split: if_splits\<close>)

lemma receiver_safe_arrival:
  assumes safe: "receiver_safe W isn d (cn_receiver c)" and "emitted W fs isn seg" and "length W + 2 < 2 ^ 31"
  shows "receiver_safe W isn d (cn_receiver (TCPConnection_segment_received c seg))"
proof -
  have "receiver_safe W isn d (cn_receiver (if th_rst (seg_header seg) then TCPConnection_unclean_shutdown c else c))"
    using safe receiver_safe_error by (simp add: TCPConnection_unclean_shutdown_def)
  from receiver_safe_receive [OF this assms(2,3)] show ?thesis
    unfolding segment_received_eq [OF refl refl refl] by simp
qed

section \<open>The invariant of the network\<close>

text \<open>The stream from \<open>e\<close> to \<open>f\<close>.\<close>

definition link :: "endpoint \<Rightarrow> endpoint \<Rightarrow> bool" where
  "link e f \<longleftrightarrow>
     (let s = cn_sender (ep_conn e); W = ep_written e
      in TCPConnection_inv W (ep_conn e) \<and> list_all (emitted W (sn_is_fin_set s) (sn_isn s)) (ep_sent e)
       \<and> receiver_safe W (sn_isn s) (ep_read f) (cn_receiver (ep_conn f)))"

lemma endpoint_callE:
  assumes "endpoint_call e x = Inr e'"
  obtains c w d out where "TCPConnection_call (ep_conn e) x = Inr (c, w, d, out)"
    "e' = \<lparr>ep_conn = c, ep_written = ep_written e @ w, ep_read = ep_read e @ d, ep_sent = ep_sent e @ out\<rparr>"
  using assms by (auto simp: endpoint_call_def split: sum.splits prod.splits)

lemma link_source:
  assumes l: "link e f" and call: "endpoint_call e x = Inr e'" and x: "call_bytes x < 2 ^ 62"
    and len: "length (ep_written e') + 2 < 2 ^ 31"
  shows "link e' f"
proof -
  let ?W = "ep_written e"
  obtain c w d out where c: "TCPConnection_call (ep_conn e) x = Inr (c, w, d, out)"
      "e' = \<lparr>ep_conn = c, ep_written = ?W @ w, ep_read = ep_read e @ d, ep_sent = ep_sent e @ out\<rparr>"
    by (rule endpoint_callE [OF call])
  note l = l [unfolded link_def Let_def]
  have bd: "length ?W + call_bytes x + 2 ^ 32 \<le> 2 ^ 64" "length (?W @ w) + 2 ^ 32 \<le> 2 ^ 64" using x len c(2) by simp_all
  have "call_ok ?W (ep_conn e) (Inr (c, w, d, out))"
    unfolding c(1) [symmetric] by (rule call_ok_call [OF _ bd(1)]) (use l in simp)
  then have k: "TCPConnection_inv (?W @ w) c" "sn_isn (cn_sender c) = sn_isn (cn_sender (ep_conn e))"
      "sn_is_fin_set (cn_sender (ep_conn e)) \<longrightarrow> w = [] \<and> sn_is_fin_set (cn_sender c)"
      "list_all (emitted (?W @ w) (sn_is_fin_set (cn_sender c)) (sn_isn (cn_sender (ep_conn e)))) out"
    by (simp_all add: call_ok_def)
  moreover have "list_all (emitted (?W @ w) (sn_is_fin_set (cn_sender c)) (sn_isn (cn_sender (ep_conn e)))) (ep_sent e)"
    by (rule list_all_emitted_grow [of ?W "sn_is_fin_set (cn_sender (ep_conn e))"]) (use l k(3) in auto)
  moreover have "receiver_safe (?W @ w) (sn_isn (cn_sender (ep_conn e))) (ep_read f) (cn_receiver (ep_conn f))"
    by (rule receiver_safe_grow [OF _ bd(2)]) (use l in simp)
  ultimately show ?thesis by (simp add: link_def c(2) k(2) Let_def)
qed

lemma link_target:
  assumes l: "link e f" and call: "endpoint_call f x = Inr f'"
    and x: "local_call x \<or> (\<exists>seg\<in>set (ep_sent e). x = Receive seg)" and len: "length (ep_written e) + 2 < 2 ^ 31"
  shows "link e f'"
proof -
  obtain c w d out where c: "TCPConnection_call (ep_conn f) x = Inr (c, w, d, out)"
      "f' = \<lparr>ep_conn = c, ep_written = ep_written f @ w, ep_read = ep_read f @ d, ep_sent = ep_sent f @ out\<rparr>"
    by (rule endpoint_callE [OF call])
  let ?s = "cn_sender (ep_conn e)"
  note l = l [unfolded link_def Let_def]
  have "receiver_safe (ep_written e) (sn_isn ?s) (ep_read f @ d) (cn_receiver c)"
    using x
  proof
    assume "local_call x"
    with receiver_safe_local [OF _ this c(1)] l show ?thesis by simp
  next
    assume "\<exists>seg\<in>set (ep_sent e). x = Receive seg"
    then obtain seg where seg: "seg \<in> set (ep_sent e)" "x = Receive seg" by blast
    have "emitted (ep_written e) (sn_is_fin_set ?s) (sn_isn ?s) seg" using l seg(1) by (simp add: list_all_iff)
    from receiver_safe_arrival [OF _ this len] l seg(2) c(1) show ?thesis by auto
  qed
  then show ?thesis using l by (simp add: link_def c(2) Let_def)
qed

lemma endpoint_call_grows: "endpoint_call e x = Inr e' \<Longrightarrow> length (ep_written e) \<le> length (ep_written e')"
  by (erule endpoint_callE) simp

lemma local_call_bytes: "local_call x \<Longrightarrow> call_bytes x < 2 ^ 62"
  by (cases x) simp_all

lemma net_step_links:
  assumes "net_step (e, f) (e', f')" and "link e f" and "link f e"
    and "length (ep_written e') + 2 < 2 ^ 31" and "length (ep_written f') + 2 < 2 ^ 31"
  shows "link e' f' \<and> link f' e'"
  using assms(1)
  by (cases rule: net_stepE)
    (use assms(2-) in \<open>auto intro: link_source link_target local_call_bytes dest: endpoint_call_grows\<close>)

lemma net_reachable_links:
  assumes "net_step\<^sup>*\<^sup>* (e0, f0) (e, f)" and "link e0 f0" and "link f0 e0"
    and "length (ep_written e) + 2 < 2 ^ 31" and "length (ep_written f) + 2 < 2 ^ 31"
  shows "link e f \<and> link f e"
  using assms(1,4,5)
proof (induction "(e, f)" arbitrary: e f rule: rtranclp_induct)
  case base
  then show ?case using assms(2,3) by simp
next
  case (step y)
  obtain e1 f1 where y: "y = (e1, f1)" by fastforce
  have "length (ep_written e1) \<le> length (ep_written e)" "length (ep_written f1) \<le> length (ep_written f)"
    using step(2) unfolding y by (auto elim!: net_stepE dest: endpoint_call_grows)
  with step.prems have "link e1 f1 \<and> link f1 e1" by (intro step.hyps(3) [OF y]) simp_all
  then show ?case using net_step_links step.hyps(2) [unfolded y] step.prems by blast
qed

lemma link_new:
  assumes "unat (cfg_send_capacity cfg) < 2 ^ 31" and "unat (cfg_recv_capacity cfg') < 2 ^ 31"
  shows "link (endpoint_new rand cfg) (endpoint_new rand' cfg')"
  using new_connection_inv [OF assms(1), of rand] new_inv [OF assms(2), of "[]"]
  by (simp add: link_def endpoint_new_def receiver_safe_def TCPConnection_new_def TCPReceiver_new_def)

section \<open>Properties\<close>

text \<open>
  C31. End-to-end safety: however two connections are driven by their owners, and however the
  network between them loses, duplicates, delays and reorders the segments they exchange,
  the bytes one application has read, followed by the bytes waiting for it, are a prefix of
  the bytes the other application has written, in both directions, as long as each has
  written less than \<open>2 ^ 31 - 2\<close> bytes; no byte is invented, lost from the middle, repeated
  or reordered. Moreover no call of either owner ever reaches an undefined operation.
\<close>

theorem TCP_end_to_end_safe:
  assumes "unat (cfg_send_capacity cfg_a) < 2 ^ 31" "unat (cfg_recv_capacity cfg_a) < 2 ^ 31"
    and "unat (cfg_send_capacity cfg_b) < 2 ^ 31" "unat (cfg_recv_capacity cfg_b) < 2 ^ 31"
    and "net_step\<^sup>*\<^sup>* (endpoint_new rand_a cfg_a, endpoint_new rand_b cfg_b) (a, b)"
    and "length (ep_written a) + 2 < 2 ^ 31" "length (ep_written b) + 2 < 2 ^ 31"
  shows "prefix (ep_read b @ bs_buffer (TCPConnection_inbound_stream (ep_conn b))) (ep_written a)
     \<and> prefix (ep_read a @ bs_buffer (TCPConnection_inbound_stream (ep_conn a))) (ep_written b)
     \<and> (\<forall>x. local_call x \<longrightarrow> (\<exists>a'. endpoint_call a x = Inr a') \<and> (\<exists>b'. endpoint_call b x = Inr b'))"
proof -
  have links: "link a b" "link b a"
    using net_reachable_links [OF assms(5) link_new link_new] assms by simp_all
  have pre: "prefix (ep_read f @ bs_buffer (TCPConnection_inbound_stream (ep_conn f))) (ep_written e)" if "link e f" for e f
    using that by (auto simp: link_def Let_def receiver_safe_def written_prefix_def take_is_prefix)
  have "\<exists>e'. endpoint_call e x = Inr e'" if "link e f" "local_call x" "length (ep_written e) + 2 < 2 ^ 31" for e f x
  proof -
    have "length (ep_written e) + call_bytes x + 2 ^ 32 \<le> 2 ^ 64" using that(3) local_call_bytes [OF that(2)] by simp
    then have "call_ok (ep_written e) (ep_conn e) (TCPConnection_call (ep_conn e) x)"
      using that(1) by (intro call_ok_call) (simp_all add: link_def Let_def)
    then show ?thesis by (auto simp: call_ok_def endpoint_call_def)
  qed
  with links pre assms(6,7) show ?thesis by blast
qed

text \<open>Schedules: what happens next, and which of the segments sent so far is delivered.\<close>

datatype net_action = At_a cn_call | At_b cn_call | To_a nat | To_b nat

fun net_act :: "net_action \<Rightarrow> endpoint \<times> endpoint \<Rightarrow> endpoint \<times> endpoint" where
  "net_act (At_a x) (e, f) =
     (if local_call x then case endpoint_call e x of Inr e' \<Rightarrow> (e', f) | Inl err \<Rightarrow> (e, f) else (e, f))"
| "net_act (At_b x) (e, f) =
     (if local_call x then case endpoint_call f x of Inr f' \<Rightarrow> (e, f') | Inl err \<Rightarrow> (e, f) else (e, f))"
| "net_act (To_a i) (e, f) =
     (if i < length (ep_sent f) then
        case endpoint_call e (Receive (ep_sent f ! i)) of Inr e' \<Rightarrow> (e', f) | Inl err \<Rightarrow> (e, f) else (e, f))"
| "net_act (To_b i) (e, f) =
     (if i < length (ep_sent e) then
        case endpoint_call f (Receive (ep_sent e ! i)) of Inr f' \<Rightarrow> (e, f') | Inl err \<Rightarrow> (e, f) else (e, f))"

fun net_run :: "endpoint \<times> endpoint \<Rightarrow> net_action list \<Rightarrow> endpoint \<times> endpoint" where
  "net_run p [] = p"
| "net_run p (x # xs) = net_run (net_act x p) xs"

lemma net_act_step: "net_step\<^sup>*\<^sup>* p (net_act x p)"
  by (cases "(x, p)" rule: net_act.cases)
    (auto simp del: TCPConnection_call.simps split: sum.split
      intro!: r_into_rtranclp [where r = net_step] intro: net_step.intros nth_mem)

lemma net_run_reachable: "net_step\<^sup>*\<^sup>* p (net_run p xs)"
proof (induction xs arbitrary: p)
  case (Cons x xs)
  have "net_step\<^sup>*\<^sup>* p (net_act x p)" by (rule net_act_step)
  also have "net_step\<^sup>*\<^sup>* (net_act x p) (net_run (net_act x p) xs)" by (rule Cons.IH)
  finally show ?case by simp
qed simp

text \<open>A handshake, then two segments of data that arrive in the wrong order, one of them twice.\<close>

definition example_schedule :: "net_action list" where
  "example_schedule =
     [At_a Connect, At_a Dequeue, To_b 0, At_b Dequeue, To_a 0, At_a Dequeue, To_b 1,
      At_a (Send [1, 2]), At_a (Send [3]), At_a Dequeue, To_b 3, To_b 2, At_b (Read 2), To_b 3]"

theorem TCP_end_to_end_safe_witness:
  "\<exists>a b. net_step\<^sup>*\<^sup>* (endpoint_new 7 example_cfg, endpoint_new 9 example_cfg) (a, b)
     \<and> ep_written a = [1, 2, 3] \<and> ep_read b = [1, 2] \<and> bs_buffer (TCPConnection_inbound_stream (ep_conn b)) = [3]
     \<and> prefix (ep_read b @ bs_buffer (TCPConnection_inbound_stream (ep_conn b))) (ep_written a)"
proof -
  let ?p = "(endpoint_new 7 example_cfg, endpoint_new 9 example_cfg)"
  let ?run = "net_run ?p example_schedule"
  obtain a b where r: "?run = (a, b)" by fastforce
  have "(case ?run of (a, b) \<Rightarrow> (ep_written a, ep_read b, ep_written b,
      bs_buffer (TCPConnection_inbound_stream (ep_conn b)))) = ([1, 2, 3], [1, 2], [], [3])"
    by code_simp
  note f = this [unfolded r, simplified]
  have "net_step\<^sup>*\<^sup>* ?p (a, b)" using net_run_reachable [of ?p example_schedule] r by simp
  moreover from TCP_end_to_end_safe [OF _ _ _ _ this] f
  have "prefix (ep_read b @ bs_buffer (TCPConnection_inbound_stream (ep_conn b))) (ep_written a)"
    by (simp add: example_cfg_def)
  ultimately show ?thesis using f by blast
qed

end
