(* ===== verification/Text_Format.thy ===== *)
theory Text_Format
  imports Prelude
begin

text \<open>
  What the printing functions of the sources use of the C++ streams and the C library:
  integers in decimal and hexadecimal, \<open>boolalpha\<close>, a width of two filled with zeros, and
  the dotted form of an IPv4 address that \<open>inet_ntoa\<close> returns.
\<close>

definition digit_char :: "nat \<Rightarrow> char" where
  "digit_char d = ''0123456789abcdef'' ! d"

fun print_base :: "nat \<Rightarrow> nat \<Rightarrow> string" where
  "print_base b n =
     (if b < 2 \<or> n < b then [digit_char n] else print_base b (n div b) @ [digit_char (n mod b)])"

declare print_base.simps [simp del]

definition print_dec :: "nat \<Rightarrow> string" where
  "print_dec n = print_base 10 n"

definition print_hex :: "nat \<Rightarrow> string" where
  "print_hex n = print_base 16 n"

definition print_boolalpha :: "bool \<Rightarrow> string" where
  "print_boolalpha b = (if b then ''true'' else ''false'')"

text \<open>\<open>setfill('0')\<close> with a width of \<open>w\<close>.\<close>

definition fill_zeros :: "nat \<Rightarrow> string \<Rightarrow> string" where
  "fill_zeros w s = replicate (w - length s) (CHR ''0'') @ s"

text \<open>\<open>inet_ntoa({htobe32(addr)})\<close>.\<close>

definition inet_ntoa :: "u32 \<Rightarrow> string" where
  "inet_ntoa addr =
     print_dec (unat (drop_bit 24 addr)) @ ''.'' @ print_dec (unat (take_bit 8 (drop_bit 16 addr)))
     @ ''.'' @ print_dec (unat (take_bit 8 (drop_bit 8 addr))) @ ''.'' @ print_dec (unat (take_bit 8 addr))"

section \<open>Printed numbers can be read back\<close>

definition digit_value :: "char \<Rightarrow> nat" where
  "digit_value c = length (takeWhile (\<lambda>x. x \<noteq> c) ''0123456789abcdef'')"

definition read_base :: "nat \<Rightarrow> string \<Rightarrow> nat" where
  "read_base b s = foldl (\<lambda>v c. b * v + digit_value c) 0 s"

lemma digit_value_char: "d < 16 \<Longrightarrow> digit_value (digit_char d) = d"
proof -
  have "list_all (\<lambda>d. digit_value (digit_char d) = d) [0..<16]" by code_simp
  then show "d < 16 \<Longrightarrow> digit_value (digit_char d) = d" by (simp add: list_all_iff)
qed

lemma read_print_base: "2 \<le> b \<Longrightarrow> b \<le> 16 \<Longrightarrow> read_base b (print_base b n) = n"
proof (induction b n rule: print_base.induct)
  case (1 b n)
  show ?case
  proof (cases "n < b")
    case True
    with 1 show ?thesis by (subst print_base.simps) (simp add: read_base_def digit_value_char)
  next
    case False
    moreover have "n mod b < 16" using 1(2,3) mod_less_divisor [of b n] by linarith
    ultimately show ?thesis
      using 1 by (subst print_base.simps) (simp add: read_base_def digit_value_char)
  qed
qed

lemma print_inj: "print_dec m = print_dec n \<longleftrightarrow> m = n" "print_hex m = print_hex n \<longleftrightarrow> m = n"
proof -
  have "m = n" if "print_base b m = print_base b n" "2 \<le> b" "b \<le> 16" for b
    using arg_cong [OF that(1), of "read_base b"] read_print_base [OF that(2,3)] by simp
  from this [of 10] this [of 16]
  show "print_dec m = print_dec n \<longleftrightarrow> m = n" "print_hex m = print_hex n \<longleftrightarrow> m = n"
    by (auto simp: print_dec_def print_hex_def)
qed

end
