(* ===== verification/TCP_Benchmark.thy ===== *)
theory TCP_Benchmark
  imports TCP_Network Text_Format
begin

text \<open>
  \<open>apps/tcp_benchmark.cc\<close>: two connections in one process that exchange their segments, in order
  or with every batch reversed, while one sends a string to the other. The string and the initial
  sequence numbers are parameters; the measured time and the line that reports it are left out.
  The lemmas show that the loop is an instance of the network of \<open>TCP_Network\<close>.
\<close>

section \<open>The program\<close>

primrec receive_all :: "TCPConnection \<Rightarrow> TCPSegment list \<Rightarrow> TCPConnection" where
  "receive_all y [] = y"
| "receive_all y (seg # segments) = receive_all (TCPConnection_segment_received y seg) segments"

text \<open>The vector is cleared at the end, so it is not part of the result.\<close>

definition move_segments ::
  "TCPConnection \<Rightarrow> TCPConnection \<Rightarrow> TCPSegment list \<Rightarrow> bool \<Rightarrow> TCPConnection \<times> TCPConnection" where
  "move_segments x y segments reorder =
     (let segments = segments @ cn_segments_out x
      in (x\<lparr>cn_segments_out := []\<rparr>, receive_all y (if reorder then rev segments else segments)))"

lemma Buffer_remove_shrinks:
  assumes "Buffer_remove_prefix b n = Inr b'" and "n \<noteq> 0"
  shows "length (Buffer_str b') < length (Buffer_str b)"
proof -
  have n: "\<not> Buffer_size b < n" using assms(1) by (auto simp: Buffer_remove_prefix_def split: if_splits)
  then obtain s where s: "buf_storage b = Some s"
    using assms(2) by (cases "buf_storage b") (auto simp: Buffer_size_def Buffer_str_def word_neq_0_conv)
  define off where "off = buf_starting_offset b"
  have str: "Buffer_str b = take (unat (list_size s - off)) (drop (unat off) s)" by (simp add: Buffer_str_def s off_def)
  have "unat n \<le> unat (Buffer_size b)" using n by (simp add: word_le_nat_alt not_less)
  also have "\<dots> \<le> length (Buffer_str b)" by (simp add: Buffer_size_def list_size_def unat_of_nat take_bit_nat_less_eq_self)
  finally have l: "unat n \<le> length (Buffer_str b)" .
  moreover have n0: "0 < unat n" using assms(2) by (simp add: unat_gt_0)
  ultimately have pos: "0 < length (Buffer_str b)" by linarith
  show ?thesis
  proof (cases "off + n = list_size s")
    case True
    then have "Buffer_str b' = []"
      using assms(1) n by (auto simp: Buffer_remove_prefix_def s off_def Buffer_str_def Let_def not_less)
    with pos show ?thesis by simp
  next
    case False
    then have b': "Buffer_str b' = take (unat (list_size s - (off + n))) (drop (unat (off + n)) s)"
      using assms(1) n by (auto simp: Buffer_remove_prefix_def s off_def Buffer_str_def Let_def not_less)
    have le: "unat n \<le> unat (list_size s - off)" using l by (simp add: str)
    then have "unat (list_size s - (off + n)) = unat (list_size s - off) - unat n"
      by (simp add: diff_diff_eq [symmetric] unat_le_diff word_le_nat_alt)
    moreover have "length (Buffer_str b) = unat (list_size s - off)"
    proof -
      have "unat off < length s" using pos by (simp add: str)
      moreover from this have "list_size s - off = of_nat (length s - unat off)"
        by (simp add: list_size_def of_nat_diff)
      then have "unat (list_size s - off) \<le> length s - unat off"
        by (simp add: unat_of_nat take_bit_nat_less_eq_self)
      ultimately show ?thesis by (simp add: str)
    qed
    ultimately show ?thesis using n0 le by (simp add: b')
  qed
qed


text \<open>Writing input into \<open>x\<close>.\<close>

function benchmark_write :: "Buffer \<Rightarrow> TCPConnection \<Rightarrow> (Buffer \<times> TCPConnection) result" where
  "benchmark_write bytes_to_send x =
     (if Buffer_size bytes_to_send \<noteq> 0 \<and> TCPConnection_remaining_outbound_capacity x \<noteq> 0
      then
        let want = min (TCPConnection_remaining_outbound_capacity x) (Buffer_size bytes_to_send);
            (x', written) = TCPConnection_write x (take (unat want) (Buffer_str bytes_to_send))
        in if want \<noteq> written
           then Inl (Runtime_error (''want = '' @ print_dec (unat want) @ '', written = '' @ print_dec (unat written)))
           else (case Buffer_remove_prefix bytes_to_send written of
                   Inl e \<Rightarrow> Inl e
                 | Inr bytes_to_send' \<Rightarrow> benchmark_write bytes_to_send' x')
      else Inr (bytes_to_send, x))"
  by pat_completeness auto
termination
proof (relation "measure (\<lambda>(b, x). length (Buffer_str b))", goal_cases)
  case (2 b x want p x' written b')
  then have "written \<noteq> 0" by (auto simp: min_def split: if_splits)
  with 2(6) show ?case by (simp add: Buffer_remove_shrinks)
qed simp

declare benchmark_write.simps [simp del]

record benchmark =
  bm_x :: TCPConnection
  bm_y :: TCPConnection
  bm_bytes_to_send :: Buffer
  bm_x_closed :: bool
  bm_string_received :: bytes

definition benchmark_new :: "u32 \<Rightarrow> u32 \<Rightarrow> bytes \<Rightarrow> benchmark" where
  "benchmark_new rand_x rand_y string_to_send =
     \<lparr>bm_x = TCPConnection_connect (TCPConnection_new rand_x TCPConfig_new),
      bm_y = TCPConnection_end_input_stream (TCPConnection_new rand_y TCPConfig_new),
      bm_bytes_to_send = Buffer_of string_to_send, bm_x_closed = False, bm_string_received = []\<rparr>"

text \<open>One round of \<open>loop\<close>.\<close>

definition benchmark_loop :: "bool \<Rightarrow> benchmark \<Rightarrow> benchmark result" where
  "benchmark_loop reorder b =
     result_bind (benchmark_write (bm_bytes_to_send b) (bm_x b)) (\<lambda>(bytes_to_send, x).
     let (x, x_closed) = (if Buffer_size bytes_to_send = 0 \<and> \<not> bm_x_closed b
                          then (TCPConnection_end_input_stream x, True) else (x, bm_x_closed b));
         (x, y) = move_segments x (bm_y b) [] reorder;
         (y, x) = move_segments y x [] False;
         available_output = ByteStream_buffer_size (TCPConnection_inbound_stream y);
         (y, data_read) = (if 0 < available_output then TCPConnection_read_inbound y available_output else (y, []))
     in result_bind (TCPConnection_tick x 1000) (\<lambda>x.
        result_map (\<lambda>y.
            \<lparr>bm_x = x, bm_y = y, bm_bytes_to_send = bytes_to_send, bm_x_closed = x_closed,
             bm_string_received = bm_string_received b @ data_read\<rparr>)
          (TCPConnection_tick y 1000)))"

text \<open>A number of rounds, and the two loops of \<open>main_loop\<close>; \<open>None\<close> is a loop that does not end.\<close>

primrec benchmark_rounds :: "bool \<Rightarrow> nat \<Rightarrow> benchmark \<Rightarrow> benchmark result" where
  "benchmark_rounds reorder 0 b = Inr b"
| "benchmark_rounds reorder (Suc n) b = result_bind (benchmark_loop reorder b) (benchmark_rounds reorder n)"

partial_function (option) benchmark_while ::
  "bool \<Rightarrow> (benchmark \<Rightarrow> bool) \<Rightarrow> benchmark \<Rightarrow> benchmark result option" where
  "benchmark_while reorder condition b =
     (if \<not> condition b then Some (Inr b)
      else case benchmark_loop reorder b of
             Inl e \<Rightarrow> Some (Inl e)
           | Inr b' \<Rightarrow> benchmark_while reorder condition b')"

definition benchmark_main_loop :: "bool \<Rightarrow> u32 \<Rightarrow> u32 \<Rightarrow> bytes \<Rightarrow> benchmark result option" where
  "benchmark_main_loop reorder rand_x rand_y string_to_send =
     (case benchmark_while reorder (\<lambda>b. \<not> ByteStream_eof (TCPConnection_inbound_stream (bm_y b)))
             (benchmark_new rand_x rand_y string_to_send) of
        None \<Rightarrow> None
      | Some (Inl e) \<Rightarrow> Some (Inl e)
      | Some (Inr b) \<Rightarrow>
          if bm_string_received b \<noteq> string_to_send
          then Some (Inl (Runtime_error ''strings sent vs. received don't match''))
          else benchmark_while reorder (\<lambda>b. cn_active (bm_x b) \<or> cn_active (bm_y b)) b)"


section \<open>The outbound stream is open until it is ended\<close>

abbreviation outbound_ended :: "TCPConnection \<Rightarrow> bool" where
  "outbound_ended c \<equiv> bs_input_ended (sn_stream (cn_sender c))"

lemma read_ended: "bs_input_ended (fst (ByteStream_read bs n)) = bs_input_ended bs"
  by (simp add: ByteStream_read_def ByteStream_pop_output_def Let_def funpow_pop_front)

lemma fill_window_ended [simp]: "bs_input_ended (sn_stream (TCPSender_fill_window s)) = bs_input_ended (sn_stream s)"
proof -
  have "bs_input_ended (sn_stream s') = bs_input_ended (sn_stream s)" if "TCPSender_make_segment s = (s', segment)" for s s' segment
    using that read_ended [of "sn_stream s"]
    by (auto simp: TCPSender_make_segment_def Let_def split: prod.splits if_splits) (metis fst_conv)+
  then show ?thesis
    by (intro fill_window_rule [where P = "\<lambda>s'. bs_input_ended (sn_stream s') = bs_input_ended (sn_stream s)"])
      (auto simp: TCPSender_push_segment_def)
qed

lemma after_ended [simp]:
  "bs_input_ended (sn_stream (after_ack seg s)) = bs_input_ended (sn_stream s)"
  "bs_input_ended (sn_stream (after_reply seg s)) = bs_input_ended (sn_stream s)"
  "bs_input_ended (sn_stream (after_probe r seg s)) = bs_input_ended (sn_stream s)"
  by (simp_all add: after_ack_def after_reply_def after_probe_def Let_def TCPSender_send_empty_segment_def split: option.split)

lemma shutdown_ended [simp]: "outbound_ended (TCPConnection_unclean_shutdown c) = outbound_ended c"
  by (simp add: TCPConnection_unclean_shutdown_def ByteStream_set_error_def)

lemma abort_ended: "TCPConnection_abort c = Inr c' \<Longrightarrow> outbound_ended c' = outbound_ended c"
  unfolding abort_eq by (auto simp: Let_def)

lemma tick_ended:
  assumes "TCPConnection_tick c ms = Inr c'"
  shows "outbound_ended c' = outbound_ended c"
proof -
  obtain s where "TCPSender_tick (cn_sender c) ms = Inr s"
    using assms by (cases "TCPSender_tick (cn_sender c) ms") (simp_all add: TCPConnection_tick_def)
  note s = this
  define c1 where "c1 = c\<lparr>cn_time_since_last_segment_received := cn_time_since_last_segment_received c + ms, cn_sender := s\<rparr>"
  have "outbound_ended c1 = outbound_ended c" using tick_frame(9) [OF s] by (simp add: c1_def)
  moreover have "TCPConnection_abort c1 = Inr c' \<or> (\<exists>b. c' = TCPConnection_send_segments (c1\<lparr>cn_active := b\<rparr>))"
    using assms unfolding TCPConnection_tick_def Let_def
    by (simp add: s c1_def split: if_splits) (metis TCPConnection.surjective TCPConnection.update_convs(6))+
  ultimately show ?thesis using abort_ended [of c1 c'] by (auto simp: send_segments_eq)
qed

lemma write_ended: "outbound_ended (fst (TCPConnection_write c data)) = outbound_ended c"
proof -
  have "bs_input_ended (fold ByteStream_push_back xs bs) = bs_input_ended bs" for xs bs
    by (induction xs arbitrary: bs) (simp_all add: ByteStream_push_back_def)
  then show ?thesis
    by (simp add: TCPConnection_write_def ByteStream_write_def Let_def send_segments_eq split: prod.split)
qed

lemma received_ended: "outbound_ended (TCPConnection_segment_received c seg) = outbound_ended c"
  unfolding segment_received_eq [OF refl refl refl] by (cases "th_rst (seg_header seg)") simp_all

lemma call_keeps_open:
  assumes "TCPConnection_call c x = Inr (c', w, d, out)" and "x \<noteq> Shutdown"
  shows "outbound_ended c' = outbound_ended c"
proof (cases x)
  case (Send data)
  then show ?thesis using assms(1) write_ended [of c data] by (auto split: prod.splits)
next
  case (Receive seg)
  then show ?thesis using assms(1) received_ended by auto
next
  case (Elapse ms)
  then show ?thesis using assms(1) by (auto simp: result_map_Inr_iff dest: tick_ended)
qed (use assms in \<open>auto simp: TCPConnection_connect_def send_segments_eq TCPConnection_read_inbound_def Let_def
       split: if_splits prod.splits\<close>)

section \<open>Two endpoints\<close>

definition pair_ok :: "endpoint \<Rightarrow> endpoint \<Rightarrow> bool" where
  "pair_ok e f \<longleftrightarrow> link e f \<and> link f e \<and> length (ep_written e) + 2 < 2 ^ 31 \<and> length (ep_written f) + 2 < 2 ^ 31"

lemma pair_sym: "pair_ok e f \<Longrightarrow> pair_ok f e"
  by (simp add: pair_ok_def)

lemma pair_call:
  assumes ok: "pair_ok e f" and x: "local_call x \<or> (\<exists>seg\<in>set (ep_sent f). x = Receive seg)"
    and len: "length (ep_written e) + call_bytes x + 2 < 2 ^ 31"
  obtains e' w d out where "TCPConnection_call (ep_conn e) x = Inr (ep_conn e', w, d, out)" "pair_ok e' f"
    "ep_written e' = ep_written e @ w" "ep_read e' = ep_read e @ d" "ep_sent e' = ep_sent e @ out"
proof -
  have bytes: "call_bytes x < 2 ^ 62" using x local_call_bytes by auto
  have "call_ok (ep_written e) (ep_conn e) (TCPConnection_call (ep_conn e) x)"
    using ok len bytes by (intro call_ok_call) (simp_all add: pair_ok_def link_def Let_def)
  then obtain c w d out where c: "TCPConnection_call (ep_conn e) x = Inr (c, w, d, out)" by (auto simp: call_ok_def)
  define e' where "e' = \<lparr>ep_conn = c, ep_written = ep_written e @ w, ep_read = ep_read e @ d, ep_sent = ep_sent e @ out\<rparr>"
  have call: "endpoint_call e x = Inr e'" by (simp add: endpoint_call_def c e'_def)
  have "length w \<le> call_bytes x"
    using c by (cases x) (auto simp: result_map_Inr_iff split: prod.splits)
  then have l: "length (ep_written e') + 2 < 2 ^ 31" using len by (simp add: e'_def)
  have "link e' f" by (rule link_source [OF _ call bytes l]) (use ok in \<open>simp add: pair_ok_def\<close>)
  moreover have "link f e'" by (rule link_target [OF _ call x]) (use ok in \<open>simp_all add: pair_ok_def\<close>)
  ultimately have "pair_ok e' f" using ok l by (simp add: pair_ok_def)
  then show thesis by (rule that [rotated]) (simp_all add: e'_def c)
qed


text \<open>What a call that neither writes nor reads nor ends the stream leaves alone.\<close>

definition quiet :: "endpoint \<Rightarrow> endpoint \<Rightarrow> bool" where
  "quiet e e' \<longleftrightarrow> ep_written e' = ep_written e \<and> ep_read e' = ep_read e
     \<and> outbound_ended (ep_conn e') = outbound_ended (ep_conn e)"

lemma endpoint_quiet_trans [trans]: "quiet e e' \<Longrightarrow> quiet e' e'' \<Longrightarrow> quiet e e''"
  by (simp add: quiet_def)

lemma receive_all_ok:
  assumes "pair_ok e f" and "set segs \<subseteq> set (ep_sent e)"
  shows "\<exists>f'. ep_conn f' = receive_all (ep_conn f) segs \<and> quiet f f' \<and> pair_ok e f'"
  using assms
proof (induction segs arbitrary: f)
  case Nil
  then show ?case by (auto simp: quiet_def)
next
  case (Cons seg segs)
  have x: "local_call (Receive seg) \<or> (\<exists>seg'\<in>set (ep_sent e). Receive seg = Receive seg')" using Cons.prems(2) by simp
  obtain f1 w d out where "TCPConnection_call (ep_conn f) (Receive seg) = Inr (ep_conn f1, w, d, out)" "pair_ok f1 e"
      "ep_written f1 = ep_written f @ w" "ep_read f1 = ep_read f @ d"
    by (rule pair_call [OF pair_sym [OF Cons.prems(1)] x]) (use Cons.prems(1) in \<open>simp add: pair_ok_def\<close>)
  then have f1: "ep_conn f1 = TCPConnection_segment_received (ep_conn f) seg" "pair_ok e f1" "quiet f f1"
    using received_ended [of "ep_conn f" seg] by (auto simp: quiet_def intro: pair_sym)
  from Cons.IH [OF f1(2)] Cons.prems(2) obtain f' where
    "ep_conn f' = receive_all (ep_conn f1) segs" "quiet f1 f'" "pair_ok e f'" by auto
  with f1(1,3) show ?case by (intro exI [of _ f']) (auto intro: endpoint_quiet_trans)
qed

lemma move_segments_ok:
  assumes "pair_ok e f"
  shows "\<exists>e' f'. move_segments (ep_conn e) (ep_conn f) [] reorder = (ep_conn e', ep_conn f')
     \<and> quiet e e' \<and> quiet f f' \<and> pair_ok e' f'"
proof -
  let ?segs = "cn_segments_out (ep_conn e)"
  obtain e' w d out where "TCPConnection_call (ep_conn e) Dequeue = Inr (ep_conn e', w, d, out)" and e': "pair_ok e' f"
      and c: "ep_written e' = ep_written e @ w" "ep_read e' = ep_read e @ d" "ep_sent e' = ep_sent e @ out"
    by (rule pair_call [OF assms, of Dequeue]) (use assms in \<open>simp_all add: pair_ok_def\<close>)
  then have c': "ep_conn e' = (ep_conn e)\<lparr>cn_segments_out := []\<rparr>" "w = []" "d = []" "out = ?segs" by simp_all
  then have "quiet e e'" using c by (simp add: quiet_def)
  moreover have "set (if reorder then rev ?segs else ?segs) \<subseteq> set (ep_sent e')" by (simp add: c(3) c'(4))
  from receive_all_ok [OF e' this] obtain f' where
    "ep_conn f' = receive_all (ep_conn f) (if reorder then rev ?segs else ?segs)" "quiet f f'" "pair_ok e' f'" by blast
  ultimately show ?thesis using c'(1) by (intro exI [of _ e'] exI [of _ f']) (simp add: move_segments_def)
qed

text \<open>The writing loop: the check on the number of bytes never fails.\<close>

lemma write_wants:
  assumes ok: "pair_ok e f" and "\<not> outbound_ended (ep_conn e)"
    and data: "0 < length data" "length data \<le> unat (TCPConnection_remaining_outbound_capacity (ep_conn e))"
    and len: "length (ep_written e) + length data + 2 < 2 ^ 31"
  shows "\<exists>e'. TCPConnection_write (ep_conn e) data = (ep_conn e', list_size data) \<and> pair_ok e' f
     \<and> ep_written e' = ep_written e @ data \<and> ep_read e' = ep_read e
     \<and> outbound_ended (ep_conn e') = outbound_ended (ep_conn e)"
proof -
  let ?bs = "sn_stream (cn_sender (ep_conn e))"
  have inv: "ByteStream_inv ?bs"
    using ok by (auto simp: pair_ok_def link_def Let_def TCPConnection_inv_def dest: TCPSender_invD)
  have size: "unat (list_size data) = length data" "list_size data \<noteq> 0"
    using len data(1) by (auto simp: unat_list_size dest!: arg_cong [where f = unat])
  have "ByteStream_room ?bs data = length data"
    using data(2) remaining_capacity_unat [OF inv]
    by (simp add: ByteStream_room_def TCPConnection_remaining_outbound_capacity_def size)
  then have "snd (TCPConnection_write (ep_conn e) data) = list_size data"
    using ByteStream_write_open [OF inv assms(2), of data] size(2)
    by (simp add: TCPConnection_write_def Let_def list_size_def)
  then obtain c where wr: "TCPConnection_write (ep_conn e) data = (c, list_size data)" by (metis prod.collapse)
  obtain e' w d out where "TCPConnection_call (ep_conn e) (Send data) = Inr (ep_conn e', w, d, out)" "pair_ok e' f"
      "ep_written e' = ep_written e @ w" "ep_read e' = ep_read e @ d"
    by (rule pair_call [OF ok, of "Send data"]) (use len in simp_all)
  moreover have "outbound_ended c = outbound_ended (ep_conn e)" using write_ended [of "ep_conn e" data] wr by simp
  ultimately show ?thesis using wr by (intro exI [of _ e']) (auto simp: size(1))
qed

lemma benchmark_write_ok:
  assumes "pair_ok e f" and "Buffer_inv b" and "ep_written e @ Buffer_str b = S" and len: "length S + 2 < 2 ^ 31"
    and "Buffer_str b \<noteq> [] \<longrightarrow> \<not> outbound_ended (ep_conn e)"
  shows "\<exists>b' e'. benchmark_write b (ep_conn e) = Inr (b', ep_conn e') \<and> pair_ok e' f \<and> Buffer_inv b'
     \<and> ep_written e' @ Buffer_str b' = S \<and> ep_read e' = ep_read e
     \<and> outbound_ended (ep_conn e') = outbound_ended (ep_conn e) \<and> (Buffer_str b = [] \<longrightarrow> Buffer_str b' = [])"
  using assms(1-3,5)
proof (induction "length (Buffer_str b)" arbitrary: b e rule: less_induct)
  case less
  let ?x = "ep_conn e" and ?str = "Buffer_str b"
  have size: "unat (Buffer_size b) = length ?str" using less.prems(2) by (rule buf.size_unat)
  show ?case
  proof (cases "Buffer_size b \<noteq> 0 \<and> TCPConnection_remaining_outbound_capacity ?x \<noteq> 0")
    case True
    define want where "want = min (TCPConnection_remaining_outbound_capacity ?x) (Buffer_size b)"
    have w: "0 < unat want" "unat want \<le> length ?str" "unat want \<le> unat (TCPConnection_remaining_outbound_capacity ?x)"
      using True size unat_eq_0 [of "Buffer_size b"] by (auto simp: want_def min_unat unat_gt_0)
    have nonempty: "?str \<noteq> []" using w by auto
    let ?data = "take (unat want) ?str"
    have data: "length ?data = unat want" "list_size ?data = want" using w(2) by (simp_all add: list_size_def)
    have "length (ep_written e) + length ?data + 2 < 2 ^ 31" using len arg_cong [OF less.prems(3), of length] w(2) by simp
    then obtain e1 where e1: "TCPConnection_write ?x ?data = (ep_conn e1, want)" "pair_ok e1 f"
        "ep_written e1 = ep_written e @ ?data" "ep_read e1 = ep_read e" "outbound_ended (ep_conn e1) = outbound_ended ?x"
      using write_wants [OF less.prems(1), of ?data] less.prems(4) nonempty w(1,3) data by auto
    obtain b1 where b1: "Buffer_remove_prefix b want = Inr b1" "Buffer_inv b1" "Buffer_str b1 = drop (unat want) ?str"
      using Buffer_remove_prefix_ok [OF less.prems(2) w(2)] by blast
    have "benchmark_write b ?x = benchmark_write b1 (ep_conn e1)"
      by (subst benchmark_write.simps) (simp add: True want_def [symmetric] e1(1) b1(1))
    moreover have "length (Buffer_str b1) < length ?str" using w b1(3) by simp
    from less.hyps [OF this e1(2) b1(2)] obtain b' e' where "benchmark_write b1 (ep_conn e1) = Inr (b', ep_conn e')"
        "pair_ok e' f" "Buffer_inv b'" "ep_written e' @ Buffer_str b' = S" "ep_read e' = ep_read e1"
        "outbound_ended (ep_conn e') = outbound_ended (ep_conn e1)"
      using less.prems(3,4) nonempty e1(3,5) b1(3) by auto
    ultimately show ?thesis using e1(4,5) nonempty by auto
  next
    case False
    then have "benchmark_write b ?x = Inr (b, ?x)" by (subst benchmark_write.simps) auto
    with less.prems show ?thesis by blast
  qed
qed


text \<open>The state of the benchmark as two endpoints of the network.\<close>

definition bench_rel :: "bytes \<Rightarrow> benchmark \<Rightarrow> endpoint \<Rightarrow> endpoint \<Rightarrow> bool" where
  "bench_rel S b e f \<longleftrightarrow>
     bm_x b = ep_conn e \<and> bm_y b = ep_conn f \<and> bm_string_received b = ep_read f \<and> pair_ok e f
     \<and> Buffer_inv (bm_bytes_to_send b) \<and> ep_written e @ Buffer_str (bm_bytes_to_send b) = S
     \<and> (if bm_x_closed b then Buffer_str (bm_bytes_to_send b) = [] else \<not> outbound_ended (ep_conn e))"

lemma pair_shutdown:
  assumes "pair_ok e f"
  shows "\<exists>e'. ep_conn e' = TCPConnection_end_input_stream (ep_conn e) \<and> ep_written e' = ep_written e
     \<and> ep_read e' = ep_read e \<and> pair_ok e' f"
proof -
  have len: "length (ep_written e) + call_bytes Shutdown + 2 < 2 ^ 31" using assms by (simp add: pair_ok_def)
  show ?thesis by (rule pair_call [OF assms _ len]) auto
qed

lemma pair_tick:
  assumes "pair_ok e f"
  shows "\<exists>e'. TCPConnection_tick (ep_conn e) ms = Inr (ep_conn e') \<and> quiet e e' \<and> pair_ok e' f"
proof -
  have len: "length (ep_written e) + call_bytes (Elapse ms) + 2 < 2 ^ 31" using assms by (simp add: pair_ok_def)
  show ?thesis by (rule pair_call [OF assms _ len]) (auto simp: result_map_Inr_iff quiet_def dest: tick_ended)
qed

lemma pair_read:
  assumes "pair_ok e f" and "TCPConnection_read_inbound (ep_conn f) n = (c, data_read)"
  shows "\<exists>f'. ep_conn f' = c \<and> ep_read f' = ep_read f @ data_read \<and> pair_ok e f'"
proof -
  have len: "length (ep_written f) + call_bytes (Read n) + 2 < 2 ^ 31" using assms by (simp add: pair_ok_def)
  show ?thesis
    by (rule pair_call [OF pair_sym [OF assms(1)] _ len]) (use assms(2) in \<open>auto intro: pair_sym\<close>)
qed

lemma benchmark_loop_ok:
  assumes rel: "bench_rel S b e f" and len: "length S + 2 < 2 ^ 31"
  shows "\<exists>b' e' f'. benchmark_loop reorder b = Inr b' \<and> bench_rel S b' e' f'"
proof -
  note r = rel [unfolded bench_rel_def]
  have "Buffer_str (bm_bytes_to_send b) \<noteq> [] \<longrightarrow> \<not> outbound_ended (ep_conn e)" using r by (simp split: if_splits)
  then obtain bytes e1 where wr: "benchmark_write (bm_bytes_to_send b) (bm_x b) = Inr (bytes, ep_conn e1)" "pair_ok e1 f"
      "Buffer_inv bytes" "ep_written e1 @ Buffer_str bytes = S" "outbound_ended (ep_conn e1) = outbound_ended (ep_conn e)"
      "Buffer_str (bm_bytes_to_send b) = [] \<longrightarrow> Buffer_str bytes = []"
    using benchmark_write_ok [of e f "bm_bytes_to_send b" S] r len by auto
  have size: "Buffer_size bytes = 0 \<longleftrightarrow> Buffer_str bytes = []"
    using buf.size_unat [OF wr(3)] by (metis length_0_conv unat_eq_0)
  define close where "close \<longleftrightarrow> Buffer_size bytes = 0 \<and> \<not> bm_x_closed b"
  obtain e2 where e2: "ep_conn e2 = (if close then TCPConnection_end_input_stream (ep_conn e1) else ep_conn e1)"
      "ep_written e2 = ep_written e1" "pair_ok e2 f"
    using pair_shutdown [OF wr(2)] wr(2) by (cases close) auto
  have closed: "if close \<or> bm_x_closed b then Buffer_str bytes = [] else \<not> outbound_ended (ep_conn e2)"
    using r wr(5,6) size e2(1) by (auto simp: close_def)
  obtain e3 f3 where m3: "move_segments (ep_conn e2) (ep_conn f) [] reorder = (ep_conn e3, ep_conn f3)"
      "quiet e2 e3" "quiet f f3" "pair_ok e3 f3"
    using move_segments_ok [OF e2(3)] by blast
  obtain e4 f4 where m4: "move_segments (ep_conn f3) (ep_conn e3) [] False = (ep_conn f4, ep_conn e4)"
      "quiet f3 f4" "quiet e3 e4" "pair_ok f4 e4"
    using move_segments_ok [OF pair_sym [OF m3(4)]] by blast
  let ?n = "ByteStream_buffer_size (TCPConnection_inbound_stream (ep_conn f4))"
  obtain y data_read where y: "(if 0 < ?n then TCPConnection_read_inbound (ep_conn f4) ?n else (ep_conn f4, [])) = (y, data_read)"
    by fastforce
  obtain f5 where f5: "ep_conn f5 = y" "ep_read f5 = ep_read f4 @ data_read" "pair_ok e4 f5"
    using pair_read [OF pair_sym [OF m4(4)], of ?n y data_read] y pair_sym [OF m4(4)] by (cases "0 < ?n") auto
  obtain e5 where e5: "TCPConnection_tick (ep_conn e4) 1000 = Inr (ep_conn e5)" "quiet e4 e5" "pair_ok e5 f5"
    using pair_tick [OF f5(3)] by blast
  obtain f6 where f6: "TCPConnection_tick y 1000 = Inr (ep_conn f6)" "quiet f5 f6" "pair_ok e5 f6"
    using pair_tick [OF pair_sym [OF e5(3)]] f5(1) pair_sym by blast
  define b' where "b' = \<lparr>bm_x = ep_conn e5, bm_y = ep_conn f6, bm_bytes_to_send = bytes,
      bm_x_closed = close \<or> bm_x_closed b, bm_string_received = bm_string_received b @ data_read\<rparr>"
  have "benchmark_loop reorder b = Inr b'"
    unfolding benchmark_loop_def wr(1) result_bind.simps prod.case Let_def close_def [symmetric]
    using e2(1) m3(1) m4(1) y e5(1) f6(1) r by (cases close) (simp_all add: b'_def)
  moreover have "bench_rel S b' e5 f6"
    using r wr(3,4) e2(2) closed m3(2,3) m4(2,3) f5(2) e5(2) f6(2,3) by (simp add: bench_rel_def b'_def quiet_def)
  ultimately show ?thesis by blast
qed

lemma benchmark_new_rel:
  assumes "length S + 2 < 2 ^ 31"
  shows "\<exists>e f. bench_rel S (benchmark_new rand_x rand_y S) e f"
proof -
  let ?e = "endpoint_new rand_x TCPConfig_new" and ?f = "endpoint_new rand_y TCPConfig_new"
  have cap: "unat (cfg_send_capacity TCPConfig_new) < 2 ^ 31" "unat (cfg_recv_capacity TCPConfig_new) < 2 ^ 31"
    by (simp_all add: TCPConfig_new_def DEFAULT_CAPACITY_def)
  have ok: "pair_ok ?e ?f"
    using link_new [OF cap, of rand_x rand_y] link_new [OF cap, of rand_y rand_x] by (simp add: pair_ok_def endpoint_new_def)
  obtain f1 where f1: "ep_conn f1 = TCPConnection_end_input_stream (ep_conn ?f)" "ep_read f1 = []" "pair_ok f1 ?e"
    using pair_shutdown [OF pair_sym [OF ok]] by (auto simp: endpoint_new_def)
  obtain e1 w d out where e1: "TCPConnection_call (ep_conn ?e) Connect = Inr (ep_conn e1, w, d, out)" "pair_ok e1 f1"
      "ep_written e1 = ep_written ?e @ w"
    by (rule pair_call [OF pair_sym [OF f1(3)], of Connect]) (simp_all add: endpoint_new_def)
  have "\<not> outbound_ended (ep_conn ?e)"
    by (simp add: endpoint_new_def TCPConnection_new_def TCPSender_new_def ByteStream_new_def)
  with call_keeps_open [OF e1(1)] have "\<not> outbound_ended (ep_conn e1)" by simp
  then have "bench_rel S (benchmark_new rand_x rand_y S) e1 f1"
    using assms e1 f1(1,2) by (auto simp: bench_rel_def benchmark_new_def endpoint_new_def Buffer_inv_of Buffer_str_of)
  then show ?thesis by blast
qed

lemma benchmark_rounds_ok:
  "bench_rel S b e f \<Longrightarrow> length S + 2 < 2 ^ 31 \<Longrightarrow> \<exists>b' e' f'. benchmark_rounds reorder n b = Inr b' \<and> bench_rel S b' e' f'"
proof (induction n arbitrary: b e f)
  case (Suc n)
  from benchmark_loop_ok [OF Suc.prems, of reorder] obtain b1 e1 f1 where
    "benchmark_loop reorder b = Inr b1" "bench_rel S b1 e1 f1" by blast
  with Suc.IH [OF this(2) Suc.prems(2)] show ?case by simp
qed auto

lemma bench_rel_prefix:
  "bench_rel S b e f \<Longrightarrow> prefix (bm_string_received b @ bs_buffer (TCPConnection_inbound_stream (bm_y b))) S"
  by (auto simp: bench_rel_def pair_ok_def link_def Let_def receiver_safe_def written_prefix_def take_is_prefix
      intro: prefix_prefix [OF take_is_prefix])

lemma benchmark_while_ok:
  assumes "benchmark_while reorder condition b = Some res" and "bench_rel S b e f" and "length S + 2 < 2 ^ 31"
  shows "\<exists>b' e' f'. res = Inr b' \<and> bench_rel S b' e' f'"
proof -
  have "\<forall>e f. bench_rel S b e f \<longrightarrow> (\<exists>b' e' f'. res = Inr b' \<and> bench_rel S b' e' f')"
    using assms(1)
  proof (rule benchmark_while.raw_induct [rotated], goal_cases)
    case (1 while reorder condition b res)
    show ?case
    proof (intro allI impI)
      fix e f assume rel: "bench_rel S b e f"
      from benchmark_loop_ok [OF rel assms(3), of reorder] obtain b1 e1 f1 where
        "benchmark_loop reorder b = Inr b1" "bench_rel S b1 e1 f1" by blast
      with 1(1) [of reorder condition b1 res] 1(2) rel show "\<exists>b' e' f'. res = Inr b' \<and> bench_rel S b' e' f'" by (auto split: if_splits)
    qed
  qed
  with assms(2) show ?thesis by blast
qed

section \<open>Properties\<close>

text \<open>
  C18. The benchmark is sound: for every string of less than \<open>2 ^ 31 - 2\<close> bytes, all initial
  sequence numbers, with the segments of a round in order or reversed, and after any number
  of rounds, no round has thrown (in particular \<open>x\<close> accepted exactly the bytes it advertised), and
  what \<open>y\<close> delivered, followed by what waits in its inbound stream, is a prefix of the string. The
  only exception \<open>main_loop\<close> can throw is the one for a string that was not received completely.
\<close>

theorem TCP_benchmark_sound:
  assumes "length string_to_send + 2 < 2 ^ 31"
  shows "(\<exists>b. benchmark_rounds reorder n (benchmark_new rand_x rand_y string_to_send) = Inr b
       \<and> prefix (bm_string_received b @ bs_buffer (TCPConnection_inbound_stream (bm_y b))) string_to_send)
     \<and> (benchmark_main_loop reorder rand_x rand_y string_to_send = Some (Inl err) \<longrightarrow>
        err = Runtime_error ''strings sent vs. received don't match'')"
proof -
  obtain e f where rel: "bench_rel string_to_send (benchmark_new rand_x rand_y string_to_send) e f"
    using benchmark_new_rel [OF assms] by blast
  have main: "err = Runtime_error ''strings sent vs. received don't match''"
    if "benchmark_main_loop reorder rand_x rand_y string_to_send = Some (Inl err)"
    using that benchmark_while_ok [OF _ rel assms, of reorder] benchmark_while_ok [OF _ _ assms, of reorder]
    by (fastforce simp: benchmark_main_loop_def split: option.splits sum.splits if_splits)
  then show ?thesis using benchmark_rounds_ok [OF rel assms, of reorder n] bench_rel_prefix by blast
qed

theorem TCP_benchmark_sound_witness:
  "\<exists>b. benchmark_rounds True 5 (benchmark_new 7 9 [1, 2, 3]) = Inr b \<and> bm_string_received b = [1, 2, 3]
     \<and> prefix (bm_string_received b @ bs_buffer (TCPConnection_inbound_stream (bm_y b))) [1, 2, 3]"
proof -
  obtain b where b: "benchmark_rounds True 5 (benchmark_new 7 9 [1, 2, 3]) = Inr b"
      "prefix (bm_string_received b @ bs_buffer (TCPConnection_inbound_stream (bm_y b))) [1, 2, 3]"
    using TCP_benchmark_sound [of "[1, 2, 3]" True 5 7 9] by auto
  have "result_map bm_string_received (benchmark_rounds True 5 (benchmark_new 7 9 [1, 2, 3])) = Inr [1, 2, 3]"
    by code_simp
  with b show ?thesis by simp
qed

end
