(* ===== verification/IPv4.thy ===== *)
theory IPv4
  imports Internet_Checksum Text_Format
begin

text \<open>
  IPv4 headers and datagrams: \<open>libsponge/tcp_helpers/ipv4_header.hh\<close>, \<open>ipv4_header.cc\<close>,
  \<open>ipv4_datagram.hh\<close> and \<open>ipv4_datagram.cc\<close>. A parse that fails early leaves the header as
  it was, so the parser takes the header it assigns to.
\<close>

section \<open>Headers\<close>

record IPv4Header =
  ip_ver :: u8
  ip_hlen :: u8
  ip_tos :: u8
  ip_len :: u16
  ip_id :: u16
  ip_df :: bool
  ip_mf :: bool
  ip_offset :: u16
  ip_ttl :: u8
  ip_proto :: u8
  ip_cksum :: u16
  ip_src :: u32
  ip_dst :: u32

definition IPv4Header_LENGTH :: size_t where
  "IPv4Header_LENGTH = 20"

definition DEFAULT_TTL :: u8 where
  "DEFAULT_TTL = 128"

definition PROTO_TCP :: u8 where
  "PROTO_TCP = 6"

definition IPv4Header_new :: IPv4Header where
  "IPv4Header_new =
     \<lparr>ip_ver = 4, ip_hlen = ucast (IPv4Header_LENGTH div 4), ip_tos = 0, ip_len = 0, ip_id = 0,
      ip_df = True, ip_mf = False, ip_offset = 0, ip_ttl = DEFAULT_TTL, ip_proto = PROTO_TCP,
      ip_cksum = 0, ip_src = 0, ip_dst = 0\<rparr>"

text \<open>The checks and the options that follow the twenty fixed bytes.\<close>

definition IPv4Header_parse_rest ::
  "Buffer \<Rightarrow> size_t \<Rightarrow> IPv4Header \<Rightarrow> (ParseResult \<times> IPv4Header) parser" where
  "IPv4Header_parse_rest original data_size h =
     (if data_size < 4 * ucast (ip_hlen h) then parser_return (PacketTooShort, h)
      else if ip_ver h \<noteq> 4 then parser_return (WrongIPVersion, h)
      else if ip_hlen h < 5 then parser_return (HeaderTooShort, h)
      else if data_size \<noteq> ucast (ip_len h) then parser_return (TruncatedPacket, h)
      else
        parser_bind (NetParser_remove_prefix (ucast (ip_hlen h) * 4 - IPv4Header_LENGTH)) (\<lambda>_.
        parser_bind NetParser_get_error (\<lambda>e.
          if e \<noteq> NoError then parser_return (e, h)
          else
            let check = InternetChecksum_add (InternetChecksum_new 0)
                          (take (4 * unat (ip_hlen h)) (Buffer_str original))
            in if InternetChecksum_value check \<noteq> 0 then parser_return (BadChecksum, h)
               else parser_return (NoError, h))))"

definition IPv4Header_parse :: "IPv4Header \<Rightarrow> (ParseResult \<times> IPv4Header) parser" where
  "IPv4Header_parse h0 = (\<lambda>p.
     let original_serialized_version = np_buffer p;
         data_size = Buffer_size (np_buffer p)
     in if data_size < IPv4Header_LENGTH then Inr ((PacketTooShort, h0), p)
        else
          parser_bind NetParser_u8 (\<lambda>first_byte.
          parser_bind NetParser_u8 (\<lambda>tos.
          parser_bind NetParser_u16 (\<lambda>len.
          parser_bind NetParser_u16 (\<lambda>id.
          parser_bind NetParser_u16 (\<lambda>fo_val.
          parser_bind NetParser_u8 (\<lambda>ttl.
          parser_bind NetParser_u8 (\<lambda>proto.
          parser_bind NetParser_u16 (\<lambda>cksum.
          parser_bind NetParser_u32 (\<lambda>src.
          parser_bind NetParser_u32 (\<lambda>dst.
            IPv4Header_parse_rest original_serialized_version data_size
              \<lparr>ip_ver = drop_bit 4 first_byte, ip_hlen = first_byte AND 0x0f, ip_tos = tos,
               ip_len = len, ip_id = id, ip_df = (fo_val AND 0x4000 \<noteq> 0), ip_mf = (fo_val AND 0x2000 \<noteq> 0),
               ip_offset = fo_val AND 0x1fff, ip_ttl = ttl, ip_proto = proto, ip_cksum = cksum,
               ip_src = src, ip_dst = dst\<rparr>)))))))))) p)"

definition IPv4Header_serialize :: "IPv4Header \<Rightarrow> bytes result" where
  "IPv4Header_serialize h =
     (if ip_ver h \<noteq> 4 then Inl (Runtime_error ''wrong IP version'')
      else if 4 * ucast (ip_hlen h) < IPv4Header_LENGTH then Inl (Runtime_error ''IP header too short'')
      else
        let first_byte = push_bit 4 (ip_ver h) OR (ip_hlen h AND 0xf);
            ret = NetUnparser_u8 [] first_byte;
            ret = NetUnparser_u8 ret (ip_tos h);
            ret = NetUnparser_u16 ret (ip_len h);
            ret = NetUnparser_u16 ret (ip_id h);
            fo_val = (if ip_df h then 0x4000 else 0) OR (if ip_mf h then 0x2000 else 0) OR (ip_offset h AND 0x1fff);
            ret = NetUnparser_u16 ret fo_val;
            ret = NetUnparser_u8 ret (ip_ttl h);
            ret = NetUnparser_u8 ret (ip_proto h);
            ret = NetUnparser_u16 ret (ip_cksum h);
            ret = NetUnparser_u32 ret (ip_src h);
            ret = NetUnparser_u32 ret (ip_dst h)
        in Inr (string_resize (4 * unat (ip_hlen h)) ret))"

definition IPv4Header_payload_length :: "IPv4Header \<Rightarrow> u16" where
  "IPv4Header_payload_length h = ip_len h - 4 * ucast (ip_hlen h)"

definition IPv4Header_pseudo_cksum :: "IPv4Header \<Rightarrow> u32" where
  "IPv4Header_pseudo_cksum h =
     (let pcksum = drop_bit 16 (ip_src h) + (ip_src h AND 0xffff);
          pcksum = pcksum + (drop_bit 16 (ip_dst h) + (ip_dst h AND 0xffff));
          pcksum = pcksum + ucast (ip_proto h)
      in pcksum + ucast (IPv4Header_payload_length h))"

definition IPv4Header_to_string :: "IPv4Header \<Rightarrow> string" where
  "IPv4Header_to_string h =
     ''IP version: '' @ print_hex (unat (ip_ver h)) @ [CHR 0x0A]
     @ ''IP hdr len: '' @ print_hex (unat (ip_hlen h)) @ [CHR 0x0A]
     @ ''IP tos: '' @ print_hex (unat (ip_tos h)) @ [CHR 0x0A]
     @ ''IP dgram len: '' @ print_hex (unat (ip_len h)) @ [CHR 0x0A]
     @ ''IP id: '' @ print_hex (unat (ip_id h)) @ [CHR 0x0A]
     @ ''Flags: df: '' @ print_boolalpha (ip_df h) @ '' mf: '' @ print_boolalpha (ip_mf h) @ [CHR 0x0A]
     @ ''Offset: '' @ print_hex (unat (ip_offset h)) @ [CHR 0x0A]
     @ ''TTL: '' @ print_hex (unat (ip_ttl h)) @ [CHR 0x0A]
     @ ''Protocol: '' @ print_hex (unat (ip_proto h)) @ [CHR 0x0A]
     @ ''Checksum: '' @ print_hex (unat (ip_cksum h)) @ [CHR 0x0A]
     @ ''Src addr: '' @ print_hex (unat (ip_src h)) @ [CHR 0x0A]
     @ ''Dst addr: '' @ print_hex (unat (ip_dst h)) @ [CHR 0x0A]"

definition IPv4Header_summary :: "IPv4Header \<Rightarrow> string" where
  "IPv4Header_summary h =
     ''IPv'' @ print_hex (unat (ip_ver h)) @ '', ''
     @ ''len='' @ print_hex (unat (ip_len h)) @ '', ''
     @ ''protocol='' @ print_hex (unat (ip_proto h)) @ '', ''
     @ (if 10 \<le> ip_ttl h then [] else ''ttl='' @ print_dec (unat (ip_ttl h)) @ '', '')
     @ ''src='' @ inet_ntoa (ip_src h) @ '', ''
     @ ''dst='' @ inet_ntoa (ip_dst h)"

section \<open>Datagrams\<close>

record IPv4Datagram =
  dg_header :: IPv4Header
  dg_payload :: BufferList

definition IPv4Datagram_new :: IPv4Datagram where
  "IPv4Datagram_new = \<lparr>dg_header = IPv4Header_new, dg_payload = []\<rparr>"

text \<open>The result of \<open>_header.parse(p)\<close> is discarded.\<close>

definition IPv4Datagram_parse :: "IPv4Datagram \<Rightarrow> Buffer \<Rightarrow> (ParseResult \<times> IPv4Datagram) result" where
  "IPv4Datagram_parse dg buffer =
     result_map (\<lambda>((_, header), p).
         let dg' = \<lparr>dg_header = header, dg_payload = [np_buffer p]\<rparr>
         in (if BufferList_size (dg_payload dg') \<noteq> ucast (IPv4Header_payload_length header)
             then PacketTooShort else np_error p, dg'))
       (IPv4Header_parse (dg_header dg) (NetParser_new buffer))"

definition IPv4Datagram_serialize :: "IPv4Datagram \<Rightarrow> BufferList result" where
  "IPv4Datagram_serialize dg =
     (if BufferList_size (dg_payload dg) \<noteq> ucast (IPv4Header_payload_length (dg_header dg))
      then Inl (Runtime_error ''IPv4Datagram::serialize: payload is wrong size'')
      else
        let header_out = (dg_header dg)\<lparr>ip_cksum := 0\<rparr>
        in result_bind (IPv4Header_serialize header_out) (\<lambda>header_zero_checksum.
           let check = InternetChecksum_add (InternetChecksum_new 0) header_zero_checksum;
               header_out = header_out\<lparr>ip_cksum := InternetChecksum_value check\<rparr>
           in result_map (\<lambda>hs. BufferList_append (BufferList_append [] (BufferList_of hs)) (dg_payload dg))
                (IPv4Header_serialize header_out)))"

section \<open>Headers on the wire\<close>

definition IPv4Header_valid :: "IPv4Header \<Rightarrow> bool" where
  "IPv4Header_valid h \<longleftrightarrow> ip_ver h = 4 \<and> 5 \<le> ip_hlen h \<and> ip_hlen h < 16 \<and> ip_offset h < 0x2000"

definition IPv4Header_fo :: "IPv4Header \<Rightarrow> u16" where
  "IPv4Header_fo h = (if ip_df h then 0x4000 else 0) OR (if ip_mf h then 0x2000 else 0) OR (ip_offset h AND 0x1fff)"

definition IPv4Header_front :: "IPv4Header \<Rightarrow> bytes" where
  "IPv4Header_front h =
     [push_bit 4 (ip_ver h) OR (ip_hlen h AND 0xf), ip_tos h] @ be_bytes (ip_len h) @ be_bytes (ip_id h)
     @ be_bytes (IPv4Header_fo h) @ [ip_ttl h, ip_proto h]"

definition IPv4Header_back :: "IPv4Header \<Rightarrow> bytes" where
  "IPv4Header_back h = be_bytes (ip_src h) @ be_bytes (ip_dst h) @ replicate (4 * unat (ip_hlen h) - 20) 0"

lemma and_mask_small: "unat (x :: 'a::len word) < 2 ^ n \<Longrightarrow> x AND mask n = x"
  by (simp add: take_bit_eq_mask [symmetric] word_unat_eq_iff unsigned_take_bit_eq take_bit_nat_eq_self)

lemma hlen_byte:
  assumes "(d :: u8) < 16"
  shows "drop_bit 4 (push_bit 4 4 OR (d AND 0xf)) = (4 :: u8)" "(push_bit 4 4 OR (d AND 0xf)) AND 0xf = d"
proof -
  have "d AND 0xf = d" using and_mask_small [of d 4] assms by (simp add: mask_numeral word_less_nat_alt)
  then show "(push_bit 4 4 OR (d AND 0xf)) AND 0xf = d" by (simp add: bit.conj_disj_distrib2)
  have "drop_bit 4 d = 0" using assms by (simp add: drop_bit_eq_div word_less_nat_alt word_unat_eq_iff unat_div_distrib)
  with \<open>d AND 0xf = d\<close> show "drop_bit 4 (push_bit 4 4 OR (d AND 0xf)) = (4 :: u8)" by (simp add: drop_bit_or)
qed

lemma IPv4Header_fo_bits:
  assumes "ip_offset h < 0x2000"
  shows "(IPv4Header_fo h AND 0x4000 \<noteq> 0) = ip_df h" "(IPv4Header_fo h AND 0x2000 \<noteq> 0) = ip_mf h"
    "IPv4Header_fo h AND 0x1fff = ip_offset h"
proof -
  have o: "ip_offset h AND 0x1fff = ip_offset h"
    using and_mask_small [of "ip_offset h" 13] assms by (simp add: mask_numeral word_less_nat_alt)
  have "(ip_offset h AND 0x1fff) AND 0x4000 = 0" "(ip_offset h AND 0x1fff) AND 0x2000 = 0"
    unfolding and.assoc by simp_all
  then have z: "ip_offset h AND 0x4000 = 0" "ip_offset h AND 0x2000 = 0" unfolding o .
  show "(IPv4Header_fo h AND 0x4000 \<noteq> 0) = ip_df h" "(IPv4Header_fo h AND 0x2000 \<noteq> 0) = ip_mf h"
    "IPv4Header_fo h AND 0x1fff = ip_offset h"
    unfolding IPv4Header_fo_def o
    by (cases "ip_df h"; cases "ip_mf h"; simp only: bit.conj_disj_distrib2 z o; simp)+
qed

lemma IPv4Header_serialize_eq:
  assumes "IPv4Header_valid h"
  shows "IPv4Header_serialize h = Inr (IPv4Header_front h @ be_bytes (ip_cksum h) @ IPv4Header_back h)"
proof -
  have "20 \<le> 4 * unat (ip_hlen h)" "unat (4 * ucast (ip_hlen h) :: size_t) = 4 * unat (ip_hlen h)"
    using assms unsigned_less [of "ip_hlen h", where ?'a = nat]
    by (simp_all add: IPv4Header_valid_def word_le_nat_alt unat_word_ariths unat_ucast_up)
  then show ?thesis
    using assms by (simp add: IPv4Header_serialize_def IPv4Header_valid_def Let_def unparse_simps string_resize_def
        IPv4Header_front_def IPv4Header_back_def IPv4Header_fo_def word_less_nat_alt IPv4Header_LENGTH_def)
qed

lemma length_IPv4Header_front: "length (IPv4Header_front h) = 10"
  by (simp add: IPv4Header_front_def)

lemma length_IPv4Header_back: "IPv4Header_valid h \<Longrightarrow> length (IPv4Header_back h) + 12 = 4 * unat (ip_hlen h)"
  by (auto simp: IPv4Header_back_def IPv4Header_valid_def word_le_nat_alt)

lemma IPv4Header_eta:
  "\<lparr>ip_ver = ip_ver h, ip_hlen = ip_hlen h, ip_tos = ip_tos h, ip_len = ip_len h, ip_id = ip_id h, ip_df = ip_df h,
    ip_mf = ip_mf h, ip_offset = ip_offset h, ip_ttl = ip_ttl h, ip_proto = ip_proto h, ip_cksum = ip_cksum h,
    ip_src = ip_src h, ip_dst = ip_dst h\<rparr> = h"
  by simp

text \<open>A complete datagram whose header has the right shape: only its checksum decides.\<close>

lemma parses_IPv4Header_rest:
  assumes "IPv4Header_valid h" and "4 * unat (ip_hlen h) \<le> unat n" and "n = ucast (ip_len h)"
  shows "parses (IPv4Header_parse_rest b n h) (replicate (4 * unat (ip_hlen h) - 20) 0)
     (if inet_cksum 0 (take (4 * unat (ip_hlen h)) (Buffer_str b)) = 0 then NoError else BadChecksum, h)"
proof -
  have v: "ip_ver h = 4" "\<not> ip_hlen h < 5" "ip_hlen h < 16" using assms(1) by (auto simp: IPv4Header_valid_def)
  have l: "unat (4 * ucast (ip_hlen h) :: size_t) = 4 * unat (ip_hlen h)"
    using v(3) by (simp add: unat_word_ariths unat_ucast_up word_less_nat_alt)
  have "unat (ucast (ip_hlen h) * 4 - IPv4Header_LENGTH) = 4 * unat (ip_hlen h) - 20"
    using v l by (subst unat_le_diff) (simp_all add: IPv4Header_LENGTH_def word_le_nat_alt word_less_nat_alt mult.commute)
  then have opt: "parses (NetParser_remove_prefix (ucast (ip_hlen h) * 4 - IPv4Header_LENGTH))
      (replicate (4 * unat (ip_hlen h) - 20) 0) ()"
    by (intro parses_remove_prefix) simp
  have "\<not> n < 4 * ucast (ip_hlen h)" using assms(2) l by (simp add: word_less_nat_alt)
  moreover define res where "res = (\<lambda>e. if e \<noteq> NoError then parser_return (e, h)
      else if inet_cksum 0 (take (4 * unat (ip_hlen h)) (Buffer_str b)) \<noteq> 0 then parser_return (BadChecksum, h)
           else parser_return (NoError, h))"
  have "parses (res NoError) [] (if inet_cksum 0 (take (4 * unat (ip_hlen h)) (Buffer_str b)) = 0 then NoError else BadChecksum, h)"
    by (simp add: res_def parses_return)
  from parses_bind [where f = "\<lambda>_. parser_bind NetParser_get_error res", OF opt
      parses_bind [where f = res, OF parses_get_error this]]
  have "parses (parser_bind (NetParser_remove_prefix (ucast (ip_hlen h) * 4 - IPv4Header_LENGTH))
      (\<lambda>_. parser_bind NetParser_get_error res)) (replicate (4 * unat (ip_hlen h) - 20) 0)
      (if inet_cksum 0 (take (4 * unat (ip_hlen h)) (Buffer_str b)) = 0 then NoError else BadChecksum, h)"
    by simp
  ultimately show ?thesis
    using v assms(3) unfolding IPv4Header_parse_rest_def Let_def res_def by simp
qed

lemma IPv4Header_parse_bytes:
  assumes v: "IPv4Header_valid h"
    and bs: "bs = IPv4Header_front h @ be_bytes (ip_cksum h) @ IPv4Header_back h @ data"
    and len: "length bs = unat (ip_len h)" and buf: "Buffer_inv b" "Buffer_str b = bs"
  shows "\<exists>p. IPv4Header_parse h0 (NetParser_new b) =
       Inr ((if inet_cksum 0 (take (4 * unat (ip_hlen h)) bs) = 0 then NoError else BadChecksum, h), p)
     \<and> np_error p = NoError \<and> NetParser_rest p = data \<and> NetParser_inv p"
proof -
  have l16: "length bs < 2 ^ 16" unfolding len using unsigned_less [of "ip_len h", where ?'a = nat] by simp
  let ?p = "NetParser_new b"
  have b: "Buffer_size (np_buffer ?p) = of_nat (length bs)" "Buffer_str (np_buffer ?p) = bs" "np_error ?p = NoError"
      "NetParser_inv ?p"
    using buf by (simp_all add: NetParser_new_def Buffer_size_def list_size_def NetParser_inv_def)
  have un: "unat (of_nat (length bs) :: size_t) = length bs" using l16 by (simp add: unat_of_nat take_bit_nat_eq_self)
  have n: "of_nat (length bs) = (ucast (ip_len h) :: size_t)"
    using len un by (simp add: word_unat_eq_iff unat_ucast_up)
  have l4: "4 * unat (ip_hlen h) \<le> length bs" "20 \<le> length bs"
    using length_IPv4Header_back [OF v] v
    by (simp_all add: bs length_IPv4Header_front IPv4Header_back_def IPv4Header_valid_def word_le_nat_alt)
  have ge: "\<not> of_nat (length bs) < IPv4Header_LENGTH" using l4 un by (simp add: IPv4Header_LENGTH_def word_less_nat_alt)
  have ver: "ip_ver h = 4" "ip_hlen h < 16" "ip_offset h < 0x2000" using v by (simp_all add: IPv4Header_valid_def)
  note rest = parses_IPv4Header_rest [OF v _ n, of "np_buffer ?p", unfolded un b(2), OF l4(1)]
  define m where "m = parser_bind NetParser_u8 (\<lambda>first_byte.
          parser_bind NetParser_u8 (\<lambda>tos.
          parser_bind NetParser_u16 (\<lambda>len.
          parser_bind NetParser_u16 (\<lambda>id.
          parser_bind NetParser_u16 (\<lambda>fo_val.
          parser_bind NetParser_u8 (\<lambda>ttl.
          parser_bind NetParser_u8 (\<lambda>proto.
          parser_bind NetParser_u16 (\<lambda>cksum.
          parser_bind NetParser_u32 (\<lambda>src.
          parser_bind NetParser_u32 (\<lambda>dst.
            IPv4Header_parse_rest (np_buffer ?p) (of_nat (length bs))
              \<lparr>ip_ver = drop_bit 4 first_byte, ip_hlen = first_byte AND 0x0f, ip_tos = tos,
               ip_len = len, ip_id = id, ip_df = (fo_val AND 0x4000 \<noteq> 0), ip_mf = (fo_val AND 0x2000 \<noteq> 0),
               ip_offset = fo_val AND 0x1fff, ip_ttl = ttl, ip_proto = proto, ip_cksum = cksum,
               ip_src = src, ip_dst = dst\<rparr>))))))))))"
  have "parses m (IPv4Header_front h @ be_bytes (ip_cksum h) @ IPv4Header_back h)
      (if inet_cksum 0 (take (4 * unat (ip_hlen h)) bs) = 0 then NoError else BadChecksum, h)"
    unfolding m_def IPv4Header_front_def IPv4Header_back_def append_assoc append_Cons append_Nil
    by (intro parses_chain)
      (unfold ver(1) hlen_byte [OF ver(2)] IPv4Header_fo_bits [OF ver(3)], unfold ver(1) [symmetric] IPv4Header_eta, rule rest)
  from parsesD [OF this, of ?p data] b bs
  obtain p where "m ?p = Inr ((if inet_cksum 0 (take (4 * unat (ip_hlen h)) bs) = 0 then NoError else BadChecksum, h), p)"
      "np_error p = NoError" "NetParser_rest p = data" "NetParser_inv p"
    by auto
  then show ?thesis using ge by (simp add: IPv4Header_parse_def Let_def b(1) m_def)
qed

lemma IPv4Datagram_parse_bytes:
  assumes v: "IPv4Header_valid h"
    and bs: "bs = IPv4Header_front h @ be_bytes (ip_cksum h) @ IPv4Header_back h @ data"
    and len: "length bs = unat (ip_len h)" and buf: "Buffer_inv b0" "Buffer_str b0 = bs"
  shows "\<exists>b. IPv4Datagram_parse dg b0 = Inr (NoError, \<lparr>dg_header = h, dg_payload = [b]\<rparr>) \<and> Buffer_str b = data
     \<and> Buffer_inv b"
proof -
  obtain e p where p: "IPv4Header_parse (dg_header dg) (NetParser_new b0) = Inr ((e, h), p)"
      "np_error p = NoError" "NetParser_rest p = data" "NetParser_inv p"
    using IPv4Header_parse_bytes [OF assms] by blast
  have l: "length bs = 4 * unat (ip_hlen h) + length data"
    using length_IPv4Header_back [OF v] by (simp add: bs length_IPv4Header_front)
  have "unat (ip_len h) < 2 ^ 16" using unsigned_less [of "ip_len h", where ?'a = nat] by simp
  moreover have "unat (4 * ucast (ip_hlen h) :: u16) = 4 * unat (ip_hlen h)"
    using v by (simp add: IPv4Header_valid_def unat_word_ariths unat_ucast_up word_less_nat_alt)
  ultimately have "unat (ucast (IPv4Header_payload_length h) :: size_t) = length data"
    unfolding IPv4Header_payload_length_def using l len
    by (simp add: unat_ucast_up) (subst unat_le_diff, simp_all add: word_le_nat_alt)
  moreover have "unat (list_size data) = length data" using l len unsigned_less [of "ip_len h", where ?'a = nat]
    by (intro unat_list_size) simp
  ultimately have "list_size data = ucast (IPv4Header_payload_length h)" by (simp add: word_unat_eq_iff)
  then show ?thesis using p by (simp add: NetParser_inv_def IPv4Datagram_parse_def BufferList_size_def Buffer_size_def)
qed

lemma parser_total_IPv4Header [parser_intros]: "parser_total (IPv4Header_parse h0)"
proof -
  have rest: "parser_total (IPv4Header_parse_rest b n h)" for b n h
  proof -
    have "parser_total (if e \<noteq> NoError then parser_return (e, h) else Let c (\<lambda>check. if Q check
        then parser_return x else parser_return y))" for e x y Q and c :: InternetChecksum
      by (simp add: parser_intros Let_def)
    note body = parser_total_bind [OF parser_total_remove_prefix parser_total_bind [OF parser_total_get_error this]]
    show ?thesis unfolding IPv4Header_parse_rest_def by (simp add: parser_intros body)
  qed
  show ?thesis
    unfolding parser_total_def
  proof (intro allI impI)
    fix p
    assume p: "NetParser_inv p"
    let ?b = "np_buffer p"
    have "parser_total (\<lambda>q. if Buffer_size (np_buffer q) < IPv4Header_LENGTH then Inr ((PacketTooShort, h0), q)
        else (parser_bind NetParser_u8 (\<lambda>first_byte.
          parser_bind NetParser_u8 (\<lambda>tos.
          parser_bind NetParser_u16 (\<lambda>len.
          parser_bind NetParser_u16 (\<lambda>id.
          parser_bind NetParser_u16 (\<lambda>fo_val.
          parser_bind NetParser_u8 (\<lambda>ttl.
          parser_bind NetParser_u8 (\<lambda>proto.
          parser_bind NetParser_u16 (\<lambda>cksum.
          parser_bind NetParser_u32 (\<lambda>src.
          parser_bind NetParser_u32 (\<lambda>dst.
            IPv4Header_parse_rest ?b (Buffer_size ?b)
              \<lparr>ip_ver = drop_bit 4 first_byte, ip_hlen = first_byte AND 0x0f, ip_tos = tos,
               ip_len = len, ip_id = id, ip_df = (fo_val AND 0x4000 \<noteq> 0), ip_mf = (fo_val AND 0x2000 \<noteq> 0),
               ip_offset = fo_val AND 0x1fff, ip_ttl = ttl, ip_proto = proto, ip_cksum = cksum,
               ip_src = src, ip_dst = dst\<rparr>))))))))))) q)"
      by (intro parser_total_checked parser_intros rest)
    then show "\<exists>x p'. IPv4Header_parse h0 p = Inr (x, p') \<and> NetParser_inv p'
           \<and> (\<exists>n. NetParser_rest p' = drop n (NetParser_rest p))
           \<and> (NetParser_error p \<longrightarrow> NetParser_error p' \<and> NetParser_rest p' = NetParser_rest p)"
      using p unfolding parser_total_def IPv4Header_parse_def Let_def by blast
  qed
qed

lemma IPv4Datagram_parse_total:
  assumes "Buffer_inv b"
  shows "\<exists>e dg'. IPv4Datagram_parse dg b = Inr (e, dg')"
proof -
  have "NetParser_inv (NetParser_new b)" using assms by (simp add: NetParser_inv_def NetParser_new_def)
  with parser_total_IPv4Header obtain x p where "IPv4Header_parse (dg_header dg) (NetParser_new b) = Inr (x, p)"
    unfolding parser_total_def by blast
  then show ?thesis by (simp add: IPv4Datagram_parse_def Let_def split: prod.split)
qed

text \<open>The datagrams that can be put on the wire, and what comes off it.\<close>

definition IPv4Datagram_valid :: "IPv4Datagram \<Rightarrow> bool" where
  "IPv4Datagram_valid dg \<longleftrightarrow> IPv4Header_valid (dg_header dg)
     \<and> unat (ip_len (dg_header dg)) = 4 * unat (ip_hlen (dg_header dg)) + length (BufferList_concatenate (dg_payload dg))"

lemma IPv4Datagram_wire:
  assumes "IPv4Datagram_valid dg"
  shows "\<exists>bl c. IPv4Datagram_serialize dg = Inr bl
     \<and> length (BufferList_concatenate bl) = unat (ip_len (dg_header dg))
     \<and> inet_cksum 0 (take (4 * unat (ip_hlen (dg_header dg))) (BufferList_concatenate bl)) = 0
     \<and> (\<forall>b0 dg'. Buffer_inv b0 \<and> Buffer_str b0 = BufferList_concatenate bl \<longrightarrow>
          (\<exists>b. IPv4Datagram_parse dg' b0 =
             Inr (NoError, \<lparr>dg_header = (dg_header dg)\<lparr>ip_cksum := c\<rparr>, dg_payload = [b]\<rparr>)
           \<and> Buffer_str b = BufferList_concatenate (dg_payload dg) \<and> Buffer_inv b))"
proof -
  have v: "IPv4Header_valid (dg_header dg)" and len: "unat (ip_len (dg_header dg)) =
      4 * unat (ip_hlen (dg_header dg)) + length (BufferList_concatenate (dg_payload dg))"
    using assms by (simp_all add: IPv4Datagram_valid_def)
  define h where "h = dg_header dg"
  define pl where "pl = BufferList_concatenate (dg_payload dg)"
  have upd: "IPv4Header_valid (h\<lparr>ip_cksum := c\<rparr>)" "IPv4Header_front (h\<lparr>ip_cksum := c\<rparr>) = IPv4Header_front h"
      "IPv4Header_back (h\<lparr>ip_cksum := c\<rparr>) = IPv4Header_back h" for c
    using v by (simp_all add: h_def IPv4Header_valid_def IPv4Header_front_def IPv4Header_fo_def IPv4Header_back_def)
  note len = len [folded h_def pl_def]
  have l16: "unat (ip_len h) < 2 ^ 16" using unsigned_less [of "ip_len h", where ?'a = nat] by simp
  have lb: "length (IPv4Header_back h) + 12 = 4 * unat (ip_hlen h)" using length_IPv4Header_back v h_def by simp
  define c where "c = inet_cksum 0 (IPv4Header_front h @ [0, 0] @ IPv4Header_back h)"
  define hb where "hb = IPv4Header_front h @ be_bytes c @ IPv4Header_back h"
  have hl: "length hb = 4 * unat (ip_hlen h)" using lb by (simp add: hb_def length_IPv4Header_front)
  have "unat (4 * ucast (ip_hlen h) :: u16) = 4 * unat (ip_hlen h)"
    using v by (simp add: h_def IPv4Header_valid_def unat_word_ariths unat_ucast_up word_less_nat_alt)
  then have "unat (ucast (IPv4Header_payload_length h) :: size_t) = length pl"
    unfolding IPv4Header_payload_length_def using len
    by (simp add: unat_ucast_up) (subst unat_le_diff, simp_all add: word_le_nat_alt)
  moreover have "unat (list_size pl) = length pl" using len l16 by (intro unat_list_size) simp
  ultimately have sz: "BufferList_size (dg_payload dg) = ucast (IPv4Header_payload_length h)"
    by (simp add: word_unat_eq_iff pl_def BufferList_size_def Buffer_size_def fold_list_size BufferList_concatenate_eq)
  have z: "IPv4Header_serialize (h\<lparr>ip_cksum := 0\<rparr>) = Inr (IPv4Header_front h @ [0, 0] @ IPv4Header_back h)"
      "IPv4Header_serialize (h\<lparr>ip_cksum := c\<rparr>) = Inr hb"
    using IPv4Header_serialize_eq upd by (simp_all add: be_bytes_zero_u16 hb_def)
  have ser: "IPv4Datagram_serialize dg = Inr (BufferList_of hb @ dg_payload dg)"
    using sz z by (simp add: IPv4Datagram_serialize_def h_def [symmetric] Let_def c_def)
  have cat: "BufferList_concatenate (BufferList_of hb @ dg_payload dg) = hb @ pl"
    using hl len l16 by (simp add: BufferList_concatenate_of pl_def)
  have "\<exists>b. IPv4Datagram_parse dg' b0 =
      Inr (NoError, \<lparr>dg_header = h\<lparr>ip_cksum := c\<rparr>, dg_payload = [b]\<rparr>) \<and> Buffer_str b = pl \<and> Buffer_inv b"
    if "Buffer_inv b0" "Buffer_str b0 = hb @ pl" for b0 dg'
    by (rule IPv4Datagram_parse_bytes) (use upd hl len that in \<open>simp_all add: hb_def\<close>)
  moreover have "inet_cksum 0 (take (4 * unat (ip_hlen h)) (hb @ pl)) = 0"
    using checksum_fill [of "IPv4Header_front h" 0 "IPv4Header_back h"] hl lb len l16
    by (simp add: c_def hb_def length_IPv4Header_front checksum_fits_def)
  moreover have "length (hb @ pl) = unat (ip_len h)" using hl len by simp
  ultimately show ?thesis using ser cat unfolding h_def pl_def by metis
qed

section \<open>Properties\<close>

text \<open>
  C32. Datagrams survive the wire: a datagram whose header has version 4, a length of five to
  fifteen words and a total length that is the header's plus the payload's is serialized,
  the checksum over the serialized header verifies, and the concatenated bytes are parsed
  back with no error into the same payload and the same header but for the checksum that
  was filled in.
\<close>

theorem IPv4Datagram_roundtrip:
  assumes v: "IPv4Header_valid (dg_header dg)"
    and len: "unat (ip_len (dg_header dg)) = 4 * unat (ip_hlen (dg_header dg)) + length (BufferList_concatenate (dg_payload dg))"
  shows "\<exists>bl c b. IPv4Datagram_serialize dg = Inr bl
     \<and> inet_cksum 0 (take (4 * unat (ip_hlen (dg_header dg))) (BufferList_concatenate bl)) = 0
     \<and> IPv4Datagram_parse dg' (Buffer_of (BufferList_concatenate bl)) =
         Inr (NoError, \<lparr>dg_header = (dg_header dg)\<lparr>ip_cksum := c\<rparr>, dg_payload = [b]\<rparr>)
     \<and> Buffer_str b = BufferList_concatenate (dg_payload dg)"
proof -
  have "IPv4Datagram_valid dg" using assms by (simp add: IPv4Datagram_valid_def)
  from IPv4Datagram_wire [OF this] obtain bl c where bl: "IPv4Datagram_serialize dg = Inr bl"
      "length (BufferList_concatenate bl) = unat (ip_len (dg_header dg))"
      "inet_cksum 0 (take (4 * unat (ip_hlen (dg_header dg))) (BufferList_concatenate bl)) = 0"
      and parse: "\<And>b0 dg'. Buffer_inv b0 \<Longrightarrow> Buffer_str b0 = BufferList_concatenate bl \<Longrightarrow>
          (\<exists>b. IPv4Datagram_parse dg' b0 =
             Inr (NoError, \<lparr>dg_header = (dg_header dg)\<lparr>ip_cksum := c\<rparr>, dg_payload = [b]\<rparr>)
           \<and> Buffer_str b = BufferList_concatenate (dg_payload dg) \<and> Buffer_inv b)"
    by blast
  have "length (BufferList_concatenate bl) < 2 ^ 64"
    using bl(2) unsigned_less [of "ip_len (dg_header dg)", where ?'a = nat] by simp
  from parse [OF Buffer_inv_of [OF this] Buffer_str_of [OF this], of dg'] bl(1,3) show ?thesis by blast
qed

theorem IPv4Datagram_roundtrip_witness:
  "\<exists>bl c b. IPv4Datagram_serialize \<lparr>dg_header = IPv4Header_new\<lparr>ip_len := 23, ip_src := 1\<rparr>, dg_payload = [Buffer_of [1, 2, 3]]\<rparr> = Inr bl
     \<and> IPv4Datagram_parse IPv4Datagram_new (Buffer_of (BufferList_concatenate bl)) =
         Inr (NoError, \<lparr>dg_header = IPv4Header_new\<lparr>ip_len := 23, ip_src := 1, ip_cksum := c\<rparr>, dg_payload = [b]\<rparr>)
     \<and> Buffer_str b = [1, 2, 3]"
proof -
  let ?dg = "\<lparr>dg_header = IPv4Header_new\<lparr>ip_len := 23, ip_src := 1\<rparr>, dg_payload = [Buffer_of [1, 2, 3]]\<rparr>"
  have "IPv4Header_valid (dg_header ?dg)" "BufferList_concatenate (dg_payload ?dg) = [1, 2, 3]"
      "ip_hlen (dg_header ?dg) = 5"
    by code_simp+
  then show ?thesis using IPv4Datagram_roundtrip [of ?dg IPv4Datagram_new] by auto
qed

text \<open>
  C33. \<open>IPv4Datagram::parse\<close> discards the result of \<open>IPv4Header::parse\<close>: a datagram whose
  header checksum is wrong makes the header parser answer \<open>BadChecksum\<close>, and yet the datagram
  is accepted with no error, corrupted header included.
\<close>

theorem IPv4Datagram_accepts_bad_checksum:
  assumes "IPv4Header_valid h"
    and "bs = IPv4Header_front h @ be_bytes (ip_cksum h) @ IPv4Header_back h @ data"
    and "length bs = unat (ip_len h)" and "inet_cksum 0 (take (4 * unat (ip_hlen h)) bs) \<noteq> 0"
  shows "(\<exists>p. IPv4Header_parse h0 (NetParser_new (Buffer_of bs)) = Inr ((BadChecksum, h), p))
     \<and> (\<exists>b. IPv4Datagram_parse dg (Buffer_of bs) = Inr (NoError, \<lparr>dg_header = h, dg_payload = [b]\<rparr>) \<and> Buffer_str b = data)"
proof -
  have "length bs < 2 ^ 64" using assms(3) unsigned_less [of "ip_len h", where ?'a = nat] by simp
  note b = Buffer_inv_of [OF this] Buffer_str_of [OF this]
  show ?thesis
    using IPv4Header_parse_bytes [OF assms(1-3) b, of h0] IPv4Datagram_parse_bytes [OF assms(1-3) b, of dg] assms(4) by auto
qed

theorem IPv4Datagram_accepts_bad_checksum_witness:
  "\<exists>b. IPv4Datagram_parse IPv4Datagram_new
       (Buffer_of [69, 0, 0, 22, 0, 0, 64, 0, 128, 6, 0, 0, 0, 0, 0, 1, 0, 0, 0, 2, 7, 8]) =
       Inr (NoError, \<lparr>dg_header = IPv4Header_new\<lparr>ip_len := 22, ip_src := 1, ip_dst := 2\<rparr>, dg_payload = [b]\<rparr>)
     \<and> Buffer_str b = [7, 8]"
proof -
  let ?h = "IPv4Header_new\<lparr>ip_len := 22, ip_src := 1, ip_dst := 2\<rparr>"
  let ?bs = "[69, 0, 0, 22, 0, 0, 64, 0, 128, 6, 0, 0, 0, 0, 0, 1, 0, 0, 0, 2, 7, 8] :: bytes"
  have "IPv4Header_valid ?h" "?bs = IPv4Header_front ?h @ be_bytes (ip_cksum ?h) @ IPv4Header_back ?h @ [7, 8]"
      "length ?bs = unat (ip_len ?h)" "inet_cksum 0 (take (4 * unat (ip_hlen ?h)) ?bs) \<noteq> 0"
    by code_simp+
  from IPv4Datagram_accepts_bad_checksum [OF this, of IPv4Header_new IPv4Datagram_new] show ?thesis by blast
qed

end
