(* ===== verification/Ethernet.thy ===== *)
theory Ethernet
  imports IPv4
begin

text \<open>
  Ethernet frames and ARP messages: \<open>libsponge/tcp_helpers/ethernet_header.hh\<close>,
  \<open>ethernet_header.cc\<close>, \<open>ethernet_frame.hh\<close>, \<open>ethernet_frame.cc\<close>, \<open>arp_message.hh\<close> and
  \<open>arp_message.cc\<close>. An Ethernet address, an array of six bytes, is a list whose length the
  lemmas require to be six.
\<close>

section \<open>Addresses and headers\<close>

type_synonym EthernetAddress = bytes

definition ETHERNET_BROADCAST :: EthernetAddress where
  "ETHERNET_BROADCAST = [0xff, 0xff, 0xff, 0xff, 0xff, 0xff]"

record EthernetHeader =
  eh_dst :: EthernetAddress
  eh_src :: EthernetAddress
  eh_type :: u16

definition EthernetHeader_LENGTH :: size_t where
  "EthernetHeader_LENGTH = 14"

definition TYPE_IPv4 :: u16 where
  "TYPE_IPv4 = 0x800"

definition TYPE_ARP :: u16 where
  "TYPE_ARP = 0x806"

text \<open>The value initialization \<open>EthernetHeader _header{}\<close>.\<close>

definition EthernetHeader_new :: EthernetHeader where
  "EthernetHeader_new = \<lparr>eh_dst = replicate 6 0, eh_src = replicate 6 0, eh_type = 0\<rparr>"

text \<open>The loop that reads (or writes) the bytes of an array one by one.\<close>

fun read_bytes :: "nat \<Rightarrow> bytes parser" where
  "read_bytes 0 = parser_return []"
| "read_bytes (Suc n) = parser_bind NetParser_u8 (\<lambda>b. parser_bind (read_bytes n) (\<lambda>bs. parser_return (b # bs)))"

definition write_bytes :: "bytes \<Rightarrow> bytes \<Rightarrow> bytes" where
  "write_bytes ret bs = fold (\<lambda>b ret. NetUnparser_u8 ret b) bs ret"

definition EthernetHeader_parse :: "EthernetHeader \<Rightarrow> (ParseResult \<times> EthernetHeader) parser" where
  "EthernetHeader_parse h0 = (\<lambda>p.
     if Buffer_size (np_buffer p) < EthernetHeader_LENGTH then Inr ((PacketTooShort, h0), p)
     else
       parser_bind (read_bytes 6) (\<lambda>dst.
       parser_bind (read_bytes 6) (\<lambda>src.
       parser_bind NetParser_u16 (\<lambda>type.
       parser_bind NetParser_get_error (\<lambda>e.
         parser_return (e, \<lparr>eh_dst = dst, eh_src = src, eh_type = type\<rparr>))))) p)"

definition EthernetHeader_serialize :: "EthernetHeader \<Rightarrow> bytes" where
  "EthernetHeader_serialize h =
     (let ret = write_bytes [] (eh_dst h);
          ret = write_bytes ret (eh_src h)
      in NetUnparser_u16 ret (eh_type h))"

fun EthernetAddress_to_string :: "EthernetAddress \<Rightarrow> string" where
  "EthernetAddress_to_string [] = []"
| "EthernetAddress_to_string [b] = fill_zeros 2 (print_hex (unat b))"
| "EthernetAddress_to_string (b # bs) = fill_zeros 2 (print_hex (unat b)) @ '':'' @ EthernetAddress_to_string bs"

definition EthernetHeader_to_string :: "EthernetHeader \<Rightarrow> string" where
  "EthernetHeader_to_string h =
     ''dst='' @ EthernetAddress_to_string (eh_dst h) @ '', src='' @ EthernetAddress_to_string (eh_src h) @ '', type=''
     @ (if eh_type h = TYPE_IPv4 then ''IPv4''
        else if eh_type h = TYPE_ARP then ''ARP''
        else ''[unknown type '' @ print_hex (unat (eh_type h)) @ ''!]'')"

section \<open>Frames\<close>

record EthernetFrame =
  ef_header :: EthernetHeader
  ef_payload :: BufferList

definition EthernetFrame_new :: EthernetFrame where
  "EthernetFrame_new = \<lparr>ef_header = EthernetHeader_new, ef_payload = []\<rparr>"

definition EthernetFrame_parse :: "EthernetFrame \<Rightarrow> Buffer \<Rightarrow> (ParseResult \<times> EthernetFrame) result" where
  "EthernetFrame_parse fr buffer =
     result_map (\<lambda>((_, header), p). (np_error p, \<lparr>ef_header = header, ef_payload = [np_buffer p]\<rparr>))
       (EthernetHeader_parse (ef_header fr) (NetParser_new buffer))"

definition EthernetFrame_serialize :: "EthernetFrame \<Rightarrow> BufferList" where
  "EthernetFrame_serialize fr =
     BufferList_append (BufferList_append [] (BufferList_of (EthernetHeader_serialize (ef_header fr)))) (ef_payload fr)"

section \<open>ARP messages\<close>

record ARPMessage =
  arp_hardware_type :: u16
  arp_protocol_type :: u16
  arp_hardware_address_size :: u8
  arp_protocol_address_size :: u8
  arp_opcode :: u16
  arp_sender_ethernet_address :: EthernetAddress
  arp_sender_ip_address :: u32
  arp_target_ethernet_address :: EthernetAddress
  arp_target_ip_address :: u32

definition ARPMessage_LENGTH :: size_t where
  "ARPMessage_LENGTH = 28"

definition TYPE_ETHERNET :: u16 where
  "TYPE_ETHERNET = 1"

definition OPCODE_REQUEST :: u16 where
  "OPCODE_REQUEST = 1"

definition OPCODE_REPLY :: u16 where
  "OPCODE_REPLY = 2"

definition ARPMessage_new :: ARPMessage where
  "ARPMessage_new =
     \<lparr>arp_hardware_type = TYPE_ETHERNET, arp_protocol_type = TYPE_IPv4, arp_hardware_address_size = 6,
      arp_protocol_address_size = 4, arp_opcode = 0, arp_sender_ethernet_address = replicate 6 0,
      arp_sender_ip_address = 0, arp_target_ethernet_address = replicate 6 0, arp_target_ip_address = 0\<rparr>"

definition ARPMessage_supported :: "ARPMessage \<Rightarrow> bool" where
  "ARPMessage_supported m \<longleftrightarrow>
     arp_hardware_type m = TYPE_ETHERNET \<and> arp_protocol_type m = TYPE_IPv4
     \<and> arp_hardware_address_size m = 6 \<and> arp_protocol_address_size m = 4
     \<and> (arp_opcode m = OPCODE_REQUEST \<or> arp_opcode m = OPCODE_REPLY)"

text \<open>The early return of \<open>parse\<close> keeps the address fields the message had.\<close>

definition ARPMessage_parse_addresses :: "ARPMessage \<Rightarrow> (ParseResult \<times> ARPMessage) parser" where
  "ARPMessage_parse_addresses m =
     parser_bind (read_bytes 6) (\<lambda>sender_ethernet_address.
     parser_bind NetParser_u32 (\<lambda>sender_ip_address.
     parser_bind (read_bytes 6) (\<lambda>target_ethernet_address.
     parser_bind NetParser_u32 (\<lambda>target_ip_address.
     parser_bind NetParser_get_error (\<lambda>e.
       parser_return (e, m\<lparr>arp_sender_ethernet_address := sender_ethernet_address,
                           arp_sender_ip_address := sender_ip_address,
                           arp_target_ethernet_address := target_ethernet_address,
                           arp_target_ip_address := target_ip_address\<rparr>))))))"

definition ARPMessage_parse_fields :: "ARPMessage \<Rightarrow> (ParseResult \<times> ARPMessage) parser" where
  "ARPMessage_parse_fields m0 =
     parser_bind NetParser_u16 (\<lambda>hardware_type.
     parser_bind NetParser_u16 (\<lambda>protocol_type.
     parser_bind NetParser_u8 (\<lambda>hardware_address_size.
     parser_bind NetParser_u8 (\<lambda>protocol_address_size.
     parser_bind NetParser_u16 (\<lambda>opcode.
       let m = m0\<lparr>arp_hardware_type := hardware_type, arp_protocol_type := protocol_type,
                  arp_hardware_address_size := hardware_address_size,
                  arp_protocol_address_size := protocol_address_size, arp_opcode := opcode\<rparr>
       in if \<not> ARPMessage_supported m then parser_return (Unsupported, m)
          else ARPMessage_parse_addresses m)))))"

definition ARPMessage_parse :: "ARPMessage \<Rightarrow> Buffer \<Rightarrow> (ParseResult \<times> ARPMessage) result" where
  "ARPMessage_parse m0 buffer =
     (let p = NetParser_new buffer
      in if Buffer_size (np_buffer p) < ARPMessage_LENGTH then Inr (PacketTooShort, m0)
         else result_map fst (ARPMessage_parse_fields m0 p))"

definition ARPMessage_serialize :: "ARPMessage \<Rightarrow> bytes result" where
  "ARPMessage_serialize m =
     (if \<not> ARPMessage_supported m then
        Inl (Runtime_error
          ''ARPMessage::serialize(): unsupported field combination (must be Ethernet/IP, and request or reply)'')
      else
        let ret = NetUnparser_u16 [] (arp_hardware_type m);
            ret = NetUnparser_u16 ret (arp_protocol_type m);
            ret = NetUnparser_u8 ret (arp_hardware_address_size m);
            ret = NetUnparser_u8 ret (arp_protocol_address_size m);
            ret = NetUnparser_u16 ret (arp_opcode m);
            ret = write_bytes ret (arp_sender_ethernet_address m);
            ret = NetUnparser_u32 ret (arp_sender_ip_address m);
            ret = write_bytes ret (arp_target_ethernet_address m);
            ret = NetUnparser_u32 ret (arp_target_ip_address m)
        in Inr ret)"

definition ARPMessage_to_string :: "ARPMessage \<Rightarrow> string" where
  "ARPMessage_to_string m =
     (let opcode_str = ''(unknown type)'';
          opcode_str = (if arp_opcode m = OPCODE_REQUEST then ''REQUEST'' else opcode_str);
          opcode_str = (if arp_opcode m = OPCODE_REPLY then ''REPLY'' else opcode_str)
      in ''opcode='' @ opcode_str @ '', sender='' @ EthernetAddress_to_string (arp_sender_ethernet_address m) @ ''/''
         @ inet_ntoa (arp_sender_ip_address m) @ '', target=''
         @ EthernetAddress_to_string (arp_target_ethernet_address m) @ ''/'' @ inet_ntoa (arp_target_ip_address m))"

section \<open>Codecs\<close>

lemma write_bytes_eq: "write_bytes ret bs = ret @ bs"
  unfolding write_bytes_def by (induction bs arbitrary: ret) (simp_all add: unparse_simps)

lemma parser_total_read_bytes [parser_intros]: "parser_total (read_bytes n)"
  by (induction n) (auto intro!: parser_intros)

lemma parses_read_bytes: "parses (read_bytes (length bs)) bs bs"
proof (induction bs)
  case Nil
  then show ?case by (simp add: parses_return)
next
  case (Cons b bs)
  have "parses (parser_bind (read_bytes (length bs)) (\<lambda>xs. parser_return (b # xs))) (bs @ []) (b # bs)"
    by (rule parses_bind [OF Cons]) (rule parses_return)
  then show ?case by (simp add: parses_chain)
qed

lemma parses_bytes_chain:
  "parses (f bs) rest y \<Longrightarrow> length bs = n \<Longrightarrow> parses (parser_bind (read_bytes n) f) (bs @ rest) y"
  using parses_bind [OF parses_read_bytes [of bs], of f rest y] by simp

lemma parses_return_eq: "x = y \<Longrightarrow> parses (parser_return x) [] y"
  by (simp add: parses_return)

lemma parses_error_chain:
  "parses (f NoError) rest y \<Longrightarrow> parses (parser_bind NetParser_get_error f) rest y"
  using parses_bind [OF parses_get_error, of f rest y] by simp

definition EthernetHeader_valid :: "EthernetHeader \<Rightarrow> bool" where
  "EthernetHeader_valid h \<longleftrightarrow> length (eh_dst h) = 6 \<and> length (eh_src h) = 6"

lemma EthernetHeader_serialize_eq:
  "EthernetHeader_serialize h = eh_dst h @ eh_src h @ be_bytes (eh_type h)"
  by (simp add: EthernetHeader_serialize_def Let_def write_bytes_eq unparse_simps)

lemma parses_EthernetHeader:
  assumes "EthernetHeader_valid h"
  shows "parses (EthernetHeader_parse h0) (EthernetHeader_serialize h) (NoError, h)"
proof -
  have "parses (parser_bind (read_bytes 6) (\<lambda>dst. parser_bind (read_bytes 6) (\<lambda>src.
       parser_bind NetParser_u16 (\<lambda>type. parser_bind NetParser_get_error (\<lambda>e.
         parser_return (e, \<lparr>eh_dst = dst, eh_src = src, eh_type = type\<rparr>))))))
      (eh_dst h @ eh_src h @ be_bytes (eh_type h) @ []) (NoError, h)"
    using assms by (intro parses_bytes_chain parses_chain parses_error_chain)
      (simp_all add: EthernetHeader_valid_def parses_return_eq)
  then have "parses (parser_bind (read_bytes 6) (\<lambda>dst. parser_bind (read_bytes 6) (\<lambda>src.
       parser_bind NetParser_u16 (\<lambda>type. parser_bind NetParser_get_error (\<lambda>e.
         parser_return (e, \<lparr>eh_dst = dst, eh_src = src, eh_type = type\<rparr>))))))
      (EthernetHeader_serialize h) (NoError, h)"
    by (simp add: EthernetHeader_serialize_eq)
  then show ?thesis
    unfolding EthernetHeader_parse_def
    by (rule parses_checked) (use assms in \<open>simp add: EthernetHeader_valid_def EthernetHeader_serialize_eq EthernetHeader_LENGTH_def\<close>)
qed

interpretation eth_header: codec EthernetHeader_valid "\<lambda>h. Inr (EthernetHeader_serialize h)" "EthernetHeader_parse h0" "Pair NoError"
proof (unfold_locales, goal_cases)
  case (1 h)
  then show ?case by (simp add: parses_EthernetHeader)
next
  case 3
  then show ?case
    unfolding EthernetHeader_parse_def by (intro parser_total_checked parser_intros)
qed simp

definition ARPMessage_valid :: "ARPMessage \<Rightarrow> bool" where
  "ARPMessage_valid m \<longleftrightarrow> ARPMessage_supported m
     \<and> length (arp_sender_ethernet_address m) = 6 \<and> length (arp_target_ethernet_address m) = 6"

lemma ARPMessage_serialize_eq:
  "ARPMessage_supported m \<Longrightarrow> ARPMessage_serialize m = Inr (
     be_bytes (arp_hardware_type m) @ be_bytes (arp_protocol_type m)
     @ [arp_hardware_address_size m, arp_protocol_address_size m] @ be_bytes (arp_opcode m)
     @ arp_sender_ethernet_address m @ be_bytes (arp_sender_ip_address m)
     @ arp_target_ethernet_address m @ be_bytes (arp_target_ip_address m))"
  by (simp add: ARPMessage_serialize_def Let_def write_bytes_eq unparse_simps)

lemma parser_total_ARPMessage_parse_addresses [parser_intros]: "parser_total (ARPMessage_parse_addresses m)"
  unfolding ARPMessage_parse_addresses_def by (intro parser_intros)

lemma parses_ARPMessage_addresses:
  assumes "length sa = 6" and "length ta = 6"
  shows "parses (ARPMessage_parse_addresses m) (sa @ be_bytes si @ ta @ be_bytes ti @ [])
     (NoError, m\<lparr>arp_sender_ethernet_address := sa, arp_sender_ip_address := si,
                 arp_target_ethernet_address := ta, arp_target_ip_address := ti\<rparr>)"
  unfolding ARPMessage_parse_addresses_def
  by (intro parses_bytes_chain parses_chain parses_error_chain parses_return_eq refl assms)

lemma parses_ARPMessage:
  assumes "ARPMessage_valid m" and "ARPMessage_serialize m = Inr bs"
  shows "parses (ARPMessage_parse_fields m0) bs (NoError, m)" and "length bs = 28"
proof -
  have sup: "ARPMessage_supported m" and len: "length (arp_sender_ethernet_address m) = 6"
      "length (arp_target_ethernet_address m) = 6"
    using assms(1) by (simp_all add: ARPMessage_valid_def)
  have bs: "bs = be_bytes (arp_hardware_type m) @ be_bytes (arp_protocol_type m)
     @ [arp_hardware_address_size m, arp_protocol_address_size m] @ be_bytes (arp_opcode m)
     @ arp_sender_ethernet_address m @ be_bytes (arp_sender_ip_address m)
     @ arp_target_ethernet_address m @ be_bytes (arp_target_ip_address m) @ []"
    using ARPMessage_serialize_eq [OF sup] assms(2) by simp
  show "length bs = 28" using len by (simp add: bs)
  let ?m1 = "m0\<lparr>arp_hardware_type := arp_hardware_type m, arp_protocol_type := arp_protocol_type m,
      arp_hardware_address_size := arp_hardware_address_size m,
      arp_protocol_address_size := arp_protocol_address_size m, arp_opcode := arp_opcode m\<rparr>"
  have sup1: "ARPMessage_supported ?m1" using sup by (simp add: ARPMessage_supported_def)
  have "?m1\<lparr>arp_sender_ethernet_address := arp_sender_ethernet_address m, arp_sender_ip_address := arp_sender_ip_address m,
      arp_target_ethernet_address := arp_target_ethernet_address m, arp_target_ip_address := arp_target_ip_address m\<rparr> = m"
    by (rule ARPMessage.equality) simp_all
  with parses_ARPMessage_addresses [OF len, of ?m1]
  have "parses (ARPMessage_parse_addresses ?m1) (arp_sender_ethernet_address m @ be_bytes (arp_sender_ip_address m)
     @ arp_target_ethernet_address m @ be_bytes (arp_target_ip_address m) @ []) (NoError, m)"
    by metis
  then have *: "parses (if \<not> ARPMessage_supported ?m1 then parser_return (Unsupported, ?m1)
          else ARPMessage_parse_addresses ?m1) (arp_sender_ethernet_address m @ be_bytes (arp_sender_ip_address m)
     @ arp_target_ethernet_address m @ be_bytes (arp_target_ip_address m) @ []) (NoError, m)"
    using sup1 by (simp only: not_True_eq_False if_False)
  show "parses (ARPMessage_parse_fields m0) bs (NoError, m)"
    unfolding ARPMessage_parse_fields_def bs append_Cons append_Nil Let_def
    by (rule parses_chain *)+
qed

interpretation arp_message: codec ARPMessage_valid ARPMessage_serialize "ARPMessage_parse_fields m0" "Pair NoError"
proof (unfold_locales, goal_cases)
  case (1 m)
  then show ?case
    using ARPMessage_serialize_eq [of m] parses_ARPMessage(1) [of m] by (auto simp: ARPMessage_valid_def)
next
  case 3
  have "parser_total (if P then parser_return x else ARPMessage_parse_addresses m)" for P x m
    by (simp add: parser_intros)
  then show ?case
    unfolding ARPMessage_parse_fields_def Let_def by (intro parser_intros)
qed simp

lemma ARPMessage_parse_buffer:
  assumes "ARPMessage_valid m" and "ARPMessage_serialize m = Inr bs" and "Buffer_inv b" and "Buffer_str b = bs"
  shows "ARPMessage_parse m0 b = Inr (NoError, m)"
proof -
  note p = parses_ARPMessage [OF assms(1,2)]
  have "Buffer_size b = 28" using p(2) assms(4) by (simp add: Buffer_size_def list_size_def)
  then have "\<not> Buffer_size b < ARPMessage_LENGTH" by (simp add: ARPMessage_LENGTH_def)
  moreover have "NetParser_inv (NetParser_new b)" "np_error (NetParser_new b) = NoError"
      "NetParser_rest (NetParser_new b) = bs @ []"
    using assms(3,4) by (simp_all add: NetParser_new_def NetParser_inv_def)
  from parsesD [OF p(1) this] obtain p' where "ARPMessage_parse_fields m0 (NetParser_new b) = Inr ((NoError, m), p')"
    by blast
  moreover have "np_buffer (NetParser_new b) = b" by (simp add: NetParser_new_def)
  ultimately show ?thesis by (simp add: ARPMessage_parse_def)
qed

lemma EthernetFrame_parse_bytes:
  assumes "EthernetHeader_valid (ef_header fr)" and "length (BufferList_concatenate (EthernetFrame_serialize fr)) < 2 ^ 64"
  shows "\<exists>b. EthernetFrame_parse fr0 (Buffer_of (BufferList_concatenate (EthernetFrame_serialize fr)))
       = Inr (NoError, \<lparr>ef_header = ef_header fr, ef_payload = [b]\<rparr>)
     \<and> Buffer_str b = BufferList_concatenate (ef_payload fr) \<and> Buffer_inv b"
proof -
  let ?hb = "EthernetHeader_serialize (ef_header fr)"
  have "length ?hb = 14" using assms(1) by (simp add: EthernetHeader_serialize_eq EthernetHeader_valid_def)
  then have cat: "BufferList_concatenate (EthernetFrame_serialize fr) = ?hb @ BufferList_concatenate (ef_payload fr)"
    by (simp add: EthernetFrame_serialize_def BufferList_concatenate_of)
  from eth_header.decode_buffer [OF assms(1) refl, of "BufferList_concatenate (ef_payload fr)" "ef_header fr0"] assms(2)
  show ?thesis unfolding cat by (auto simp: EthernetFrame_parse_def NetParser_inv_def)
qed

section \<open>Properties\<close>

text \<open>
  C34. ARP messages survive encapsulation: a request or reply with six-byte hardware
  addresses, serialized into the payload of a frame, is recovered unchanged by parsing the
  bytes of the frame and then its payload, with the frame's header.
\<close>

theorem ARP_in_frame_roundtrip:
  assumes "ARPMessage_supported m" and "length (arp_sender_ethernet_address m) = 6" "length (arp_target_ethernet_address m) = 6"
    and "length (eh_dst h) = 6" "length (eh_src h) = 6"
  shows "\<exists>bs b. ARPMessage_serialize m = Inr bs
     \<and> EthernetFrame_parse fr0 (Buffer_of (BufferList_concatenate
           (EthernetFrame_serialize \<lparr>ef_header = h, ef_payload = BufferList_of bs\<rparr>)))
         = Inr (NoError, \<lparr>ef_header = h, ef_payload = [b]\<rparr>)
     \<and> BufferList_to_Buffer [b] = Inr b
     \<and> ARPMessage_parse m0 b = Inr (NoError, m)"
proof -
  have v: "ARPMessage_valid m" using assms(1-3) by (simp add: ARPMessage_valid_def)
  obtain bs where bs: "ARPMessage_serialize m = Inr bs" using ARPMessage_serialize_eq [OF assms(1)] by blast
  have l: "length bs = 28" by (rule parses_ARPMessage(2) [OF v bs])
  let ?fr = "\<lparr>ef_header = h, ef_payload = BufferList_of bs\<rparr>"
  have e: "EthernetHeader_valid (ef_header ?fr)" using assms(4,5) by (simp add: EthernetHeader_valid_def)
  have "length (EthernetHeader_serialize h) = 14" using assms(4,5) by (simp add: EthernetHeader_serialize_eq)
  then have "length (BufferList_concatenate (EthernetFrame_serialize ?fr)) < 2 ^ 64"
    using l by (simp add: EthernetFrame_serialize_def BufferList_concatenate_of)
  from EthernetFrame_parse_bytes [OF e this, of fr0] obtain b where b:
      "EthernetFrame_parse fr0 (Buffer_of (BufferList_concatenate (EthernetFrame_serialize ?fr)))
       = Inr (NoError, \<lparr>ef_header = h, ef_payload = [b]\<rparr>)" "Buffer_str b = bs" "Buffer_inv b"
    using l by (auto simp: BufferList_concatenate_of)
  from ARPMessage_parse_buffer [OF v bs b(3,2)] b bs show ?thesis by (auto simp: BufferList_to_Buffer_def)
qed

theorem ARP_in_frame_roundtrip_witness:
  "\<exists>bs b. ARPMessage_serialize (ARPMessage_new\<lparr>arp_opcode := 1, arp_sender_ip_address := 5\<rparr>) = Inr bs
     \<and> EthernetFrame_parse EthernetFrame_new (Buffer_of (BufferList_concatenate
           (EthernetFrame_serialize \<lparr>ef_header = EthernetHeader_new, ef_payload = BufferList_of bs\<rparr>)))
         = Inr (NoError, \<lparr>ef_header = EthernetHeader_new, ef_payload = [b]\<rparr>)
     \<and> ARPMessage_parse ARPMessage_new b = Inr (NoError, ARPMessage_new\<lparr>arp_opcode := 1, arp_sender_ip_address := 5\<rparr>)"
  using ARP_in_frame_roundtrip [of "ARPMessage_new\<lparr>arp_opcode := 1, arp_sender_ip_address := 5\<rparr>" EthernetHeader_new
      EthernetFrame_new ARPMessage_new]
  by (auto simp: ARPMessage_new_def ARPMessage_supported_def OPCODE_REQUEST_def EthernetHeader_new_def)

end
