(* ===== verification/Address.thy ===== *)
theory Address
  imports Net_Parser Text_Format
begin

text \<open>
  \<open>libsponge/util/address.cc\<close>: socket addresses as the bytes of a \<open>sockaddr_storage\<close> and
  the size in use, with the layout of \<open>sockaddr_in\<close> on Linux (family in host order, which
  is little-endian, then port and address in network order, then padding). The resolver calls
  \<open>getaddrinfo\<close>, \<open>getnameinfo\<close> and \<open>gai_strerror\<close> of the C library are parameters.
\<close>

section \<open>Data\<close>

record Address =
  ad_size :: u32
  ad_storage :: bytes

definition sizeof_sockaddr_storage :: nat where
  "sizeof_sockaddr_storage = 128"

definition sizeof_sockaddr_in :: u32 where
  "sizeof_sockaddr_in = 16"

definition AF_INET :: int where
  "AF_INET = 2"

text \<open>\<open>ss_family\<close> is the first field of the storage.\<close>

definition ss_family :: "bytes \<Rightarrow> int" where
  "ss_family storage = uint (storage ! 0) + 256 * uint (storage ! 1)"

text \<open>The fields of \<open>addrinfo\<close> that \<open>make_hints\<close> sets; the others are zero.\<close>

record addrinfo =
  ai_flags :: int
  ai_family :: int

text \<open>
  \<open>getaddrinfo\<close> returns a code and the entries it resolved (address bytes and
  \<open>ai_addrlen\<close>), \<open>getnameinfo\<close> a code, a host and a service.
\<close>

type_synonym getaddrinfo_fun = "string \<Rightarrow> string \<Rightarrow> addrinfo \<Rightarrow> int \<times> (bytes \<times> u32) list"
type_synonym getnameinfo_fun = "bytes \<Rightarrow> u32 \<Rightarrow> int \<times> string \<times> string"

section \<open>Construction\<close>

definition Address_of_sockaddr :: "bytes \<Rightarrow> size_t \<Rightarrow> Address result" where
  "Address_of_sockaddr addr sz =
     (if unat sz > sizeof_sockaddr_storage then Inl (Runtime_error ''invalid sockaddr size'')
      else if length addr < unat sz then Inl Undefined_behaviour
      else Inr \<lparr>ad_size = ucast sz,
               ad_storage = take (unat sz) addr @ replicate (sizeof_sockaddr_storage - unat sz) 0\<rparr>)"

text \<open>What \<open>tagged_error::what\<close> returns.\<close>

definition tagged_error :: "(int \<Rightarrow> string) \<Rightarrow> string \<Rightarrow> int \<Rightarrow> cpp_error" where
  "tagged_error message attempt error_code = Runtime_error (attempt @ '': '' @ message error_code)"

definition c_str :: "string \<Rightarrow> string" where
  "c_str s = takeWhile (\<lambda>c. c \<noteq> CHR 0x00) s"

definition Address_resolve ::
  "getaddrinfo_fun \<Rightarrow> (int \<Rightarrow> string) \<Rightarrow> string \<Rightarrow> string \<Rightarrow> addrinfo \<Rightarrow> Address result" where
  "Address_resolve getaddrinfo gai_strerror node service hints =
     (let (gai_ret, resolved_address) = getaddrinfo (c_str node) (c_str service) hints
      in if gai_ret \<noteq> 0
         then Inl (tagged_error gai_strerror (''getaddrinfo('' @ node @ '', '' @ service @ '')'') gai_ret)
         else case resolved_address of
             [] \<Rightarrow> Inl (Runtime_error ''getaddrinfo returned successfully but with no results'')
           | (ai_addr, ai_addrlen) # _ \<Rightarrow> Address_of_sockaddr ai_addr (ucast ai_addrlen))"

definition make_hints :: "int \<Rightarrow> int \<Rightarrow> addrinfo" where
  "make_hints flags family = \<lparr>ai_flags = flags, ai_family = family\<rparr>"

definition AI_ALL :: int where
  "AI_ALL = 0x10"

definition AI_NUMERICHOST :: int where
  "AI_NUMERICHOST = 4"

definition AI_NUMERICSERV :: int where
  "AI_NUMERICSERV = 0x400"

definition Address_of_hostname ::
  "getaddrinfo_fun \<Rightarrow> (int \<Rightarrow> string) \<Rightarrow> string \<Rightarrow> string \<Rightarrow> Address result" where
  "Address_of_hostname getaddrinfo gai_strerror hostname service =
     Address_resolve getaddrinfo gai_strerror hostname service (make_hints AI_ALL AF_INET)"

definition Address_of_ip ::
  "getaddrinfo_fun \<Rightarrow> (int \<Rightarrow> string) \<Rightarrow> string \<Rightarrow> u16 \<Rightarrow> Address result" where
  "Address_of_ip getaddrinfo gai_strerror ip port =
     Address_resolve getaddrinfo gai_strerror ip (print_dec (unat port))
       (make_hints (or AI_NUMERICHOST AI_NUMERICSERV) AF_INET)"

section \<open>Accessors\<close>

text \<open>
  \<open>std::stoi\<close>: white space, an optional sign, then as many decimal digits as there are;
  it throws \<open>invalid_argument\<close> without a digit and \<open>out_of_range\<close> outside \<open>int\<close>.
\<close>

definition is_digit :: "char \<Rightarrow> bool" where
  "is_digit c \<longleftrightarrow> c \<in> set ''0123456789''"

definition is_space :: "char \<Rightarrow> bool" where
  "is_space c \<longleftrightarrow> c \<in> set [CHR '' '', CHR 0x09, CHR 0x0A, CHR 0x0B, CHR 0x0C, CHR 0x0D]"

definition stoi :: "string \<Rightarrow> int result" where
  "stoi str =
     (let s = dropWhile is_space str;
          neg = (s \<noteq> [] \<and> hd s = CHR ''-'');
          s = (if s \<noteq> [] \<and> (hd s = CHR ''-'' \<or> hd s = CHR ''+'') then tl s else s);
          digits = takeWhile is_digit s;
          v = int (read_base 10 digits);
          v = (if neg then - v else v)
      in if digits = [] then Inl Invalid_argument
         else if v < - 0x80000000 \<or> v > 0x7fffffff then Inl Out_of_range
         else Inr v)"

definition Address_ip_port ::
  "getnameinfo_fun \<Rightarrow> (int \<Rightarrow> string) \<Rightarrow> Address \<Rightarrow> (string \<times> u16) result" where
  "Address_ip_port getnameinfo gai_strerror a =
     (let (gni_ret, ip, port) = getnameinfo (ad_storage a) (ad_size a)
      in if gni_ret \<noteq> 0 then Inl (tagged_error gai_strerror ''getnameinfo'' gni_ret)
         else result_map (\<lambda>n. (c_str ip, word_of_int n)) (stoi (c_str port)))"

definition Address_ip :: "getnameinfo_fun \<Rightarrow> (int \<Rightarrow> string) \<Rightarrow> Address \<Rightarrow> string result" where
  "Address_ip getnameinfo gai_strerror a = result_map fst (Address_ip_port getnameinfo gai_strerror a)"

definition Address_port :: "getnameinfo_fun \<Rightarrow> (int \<Rightarrow> string) \<Rightarrow> Address \<Rightarrow> u16 result" where
  "Address_port getnameinfo gai_strerror a = result_map snd (Address_ip_port getnameinfo gai_strerror a)"

definition Address_to_string :: "getnameinfo_fun \<Rightarrow> (int \<Rightarrow> string) \<Rightarrow> Address \<Rightarrow> string result" where
  "Address_to_string getnameinfo gai_strerror a =
     result_map (\<lambda>(ip, port). ip @ '':'' @ print_dec (unat port)) (Address_ip_port getnameinfo gai_strerror a)"

text \<open>\<open>sin_addr\<close> is bytes 4 to 7 of the storage.\<close>

definition Address_ipv4_numeric :: "Address \<Rightarrow> u32 result" where
  "Address_ipv4_numeric a =
     (if ss_family (ad_storage a) \<noteq> AF_INET \<or> ad_size a \<noteq> sizeof_sockaddr_in
      then Inl (Runtime_error ''ipv4_numeric called on non-IPV4 address'')
      else Inr (be_value (take 4 (drop 4 (ad_storage a)))))"

definition Address_from_ipv4_numeric :: "u32 \<Rightarrow> Address result" where
  "Address_from_ipv4_numeric ip_address =
     Address_of_sockaddr ([word_of_int AF_INET, 0] @ [0, 0] @ be_bytes ip_address @ replicate 8 0)
       (ucast sizeof_sockaddr_in)"

definition Address_eq :: "Address \<Rightarrow> Address \<Rightarrow> bool" where
  "Address_eq a other \<longleftrightarrow>
     (if ad_size a \<noteq> ad_size other then False
      else take (unat (ad_size a)) (ad_storage a) = take (unat (ad_size a)) (ad_storage other))"

section \<open>Addresses made from numbers\<close>

definition ipv4_address :: "u32 \<Rightarrow> Address" where
  "ipv4_address n = \<lparr>ad_size = 16, ad_storage = [2, 0, 0, 0] @ be_bytes n @ replicate 120 0\<rparr>"

lemma from_ipv4_numeric_eq: "Address_from_ipv4_numeric n = Inr (ipv4_address n)"
  by (simp add: Address_from_ipv4_numeric_def Address_of_sockaddr_def sizeof_sockaddr_storage_def
      sizeof_sockaddr_in_def AF_INET_def ipv4_address_def replicate_add [symmetric])

lemma ipv4_numeric_address [simp]: "Address_ipv4_numeric (ipv4_address n) = Inr n"
  by (simp add: Address_ipv4_numeric_def ipv4_address_def ss_family_def AF_INET_def sizeof_sockaddr_in_def
      be_value_bytes)

lemma ipv4_address_inject [simp]: "ipv4_address m = ipv4_address n \<longleftrightarrow> m = n"
proof
  assume "ipv4_address m = ipv4_address n"
  from arg_cong [OF this, of Address_ipv4_numeric] show "m = n" by simp
qed simp

lemma Address_eq_ipv4: "Address_eq (ipv4_address m) (ipv4_address n) \<longleftrightarrow> m = n"
proof -
  have "m = n" if "be_bytes m = be_bytes n"
    using arg_cong [OF that, of "be_value :: bytes \<Rightarrow> u32"] by (simp add: be_value_bytes)
  then show ?thesis by (auto simp: Address_eq_def ipv4_address_def)
qed

section \<open>Ports are printed and read\<close>

lemma print_dec_digits: "set (print_dec n) \<subseteq> Collect is_digit" "print_dec n \<noteq> []"
proof -
  have d: "is_digit (digit_char d)" if "d < 10" for d
  proof -
    have "list_all (\<lambda>d. is_digit (digit_char d)) [0..<10]" by code_simp
    with that show ?thesis by (simp add: list_all_iff)
  qed
  have "set (print_base 10 n) \<subseteq> Collect is_digit \<and> print_base 10 n \<noteq> []"
  proof (induction n rule: less_induct)
    case (less n)
    then show ?case by (subst (1 2) print_base.simps) (simp add: d)
  qed
  then show "set (print_dec n) \<subseteq> Collect is_digit" "print_dec n \<noteq> []" by (simp_all add: print_dec_def)
qed

lemma not_is_digit [simp]:
  "\<not> is_digit (CHR 0x00)" "\<not> is_digit (CHR ''-'')" "\<not> is_digit (CHR ''+'')" "is_space c \<Longrightarrow> \<not> is_digit c"
  by (auto simp: is_digit_def is_space_def)

lemma c_str_digits: "set s \<subseteq> Collect is_digit \<Longrightarrow> c_str s = s"
  unfolding c_str_def takeWhile_eq_all_conv by (metis CollectD not_is_digit(1) subsetD)

lemma stoi_print_dec:
  assumes "n \<le> 0x7fffffff"
  shows "stoi (print_dec n) = Inr (int n)"
proof -
  let ?s = "print_dec n"
  note d = print_dec_digits [of n]
  then have "is_digit (hd ?s)" using list.set_sel(1) [OF d(2)] by blast
  then have h: "\<not> is_space (hd ?s)" "hd ?s \<noteq> CHR ''-''" "hd ?s \<noteq> CHR ''+''" using not_is_digit by metis+
  have "dropWhile is_space ?s = ?s" using h(1) d(2) by (cases ?s) simp_all
  moreover have t: "takeWhile is_digit ?s = ?s" unfolding takeWhile_eq_all_conv using d(1) by blast
  moreover have "read_base 10 ?s = n" by (simp add: print_dec_def read_print_base)
  ultimately show ?thesis using assms d(2) h(2,3) by (simp add: stoi_def Let_def t)
qed

text \<open>An IPv4 address with a port, as the resolver builds it.\<close>

definition socket_address :: "u32 \<Rightarrow> u16 \<Rightarrow> Address" where
  "socket_address n port = \<lparr>ad_size = 16, ad_storage = [2, 0] @ be_bytes port @ be_bytes n @ replicate 120 0\<rparr>"

lemma ipv4_numeric_socket_address [simp]: "Address_ipv4_numeric (socket_address n port) = Inr n"
proof -
  have "drop 4 ([2, 0] @ be_bytes port @ be_bytes n @ replicate 120 0) = be_bytes n @ replicate 120 0" by simp
  then show ?thesis
    by (simp add: Address_ipv4_numeric_def socket_address_def ss_family_def AF_INET_def sizeof_sockaddr_in_def be_value_bytes)
qed

end
