(* ===== verification/Network_Interface.thy ===== *)
theory Network_Interface
  imports Ethernet Address Std_Map
begin

text \<open>
  \<open>libsponge/network_interface.cc\<close>: the interface between IP and Ethernet, with its cache
  of address mappings (an entry whose Ethernet address is the broadcast address stands for a
  request in flight) and its queue of datagrams that wait for a reply. The lemmas show that no
  sequence of well-formed calls makes it throw, that mappings expire, that two interfaces
  resolve an address and deliver the datagram, and that a second datagram for an address being
  resolved is lost.
\<close>

section \<open>State and operations\<close>

record NetworkInterface =
  ni_ethernet_address :: EthernetAddress
  ni_ip_address :: Address
  ni_frames_out :: "EthernetFrame list"
  ni_mapping_cache :: "(u32, EthernetAddress \<times> size_t) std_map"
  ni_ARP_queue :: "(IPv4Datagram \<times> Address) list"

text \<open>The constructor, with the line it prints on \<open>cerr\<close>.\<close>

definition NetworkInterface_new ::
  "getnameinfo_fun \<Rightarrow> (int \<Rightarrow> string) \<Rightarrow> EthernetAddress \<Rightarrow> Address \<Rightarrow> (string \<times> NetworkInterface) result" where
  "NetworkInterface_new getnameinfo gai_strerror ethernet_address ip_address =
     result_map (\<lambda>ip. (''DEBUG: Network interface has Ethernet address ''
           @ EthernetAddress_to_string ethernet_address @ '' and IP address '' @ ip @ [CHR 0x0A],
         \<lparr>ni_ethernet_address = ethernet_address, ni_ip_address = ip_address, ni_frames_out = [],
          ni_mapping_cache = [], ni_ARP_queue = []\<rparr>))
       (Address_ip getnameinfo gai_strerror ip_address)"

definition NetworkInterface_push_frame ::
  "NetworkInterface \<Rightarrow> EthernetAddress \<Rightarrow> u16 \<Rightarrow> BufferList \<Rightarrow> NetworkInterface" where
  "NetworkInterface_push_frame ni dst type payload =
     ni\<lparr>ni_frames_out := ni_frames_out ni @
        [\<lparr>ef_header = \<lparr>eh_dst = dst, eh_src = ni_ethernet_address ni, eh_type = type\<rparr>,
          ef_payload = BufferList_append [] payload\<rparr>]\<rparr>"

definition ARP_request :: "EthernetAddress \<Rightarrow> u32 \<Rightarrow> u32 \<Rightarrow> ARPMessage" where
  "ARP_request ethernet_address src_ip next_hop_ip =
     ARPMessage_new\<lparr>arp_sender_ip_address := src_ip, arp_sender_ethernet_address := ethernet_address,
       arp_target_ip_address := next_hop_ip, arp_opcode := OPCODE_REQUEST\<rparr>"

definition ARP_reply :: "EthernetAddress \<Rightarrow> u32 \<Rightarrow> ARPMessage \<Rightarrow> ARPMessage" where
  "ARP_reply ethernet_address ip arp_message =
     ARPMessage_new\<lparr>arp_sender_ip_address := ip, arp_sender_ethernet_address := ethernet_address,
       arp_target_ip_address := arp_sender_ip_address arp_message,
       arp_target_ethernet_address := arp_sender_ethernet_address arp_message, arp_opcode := OPCODE_REPLY\<rparr>"

definition NetworkInterface_send_datagram ::
  "NetworkInterface \<Rightarrow> IPv4Datagram \<Rightarrow> Address \<Rightarrow> NetworkInterface result" where
  "NetworkInterface_send_datagram ni dgram next_hop =
     result_bind (Address_ipv4_numeric next_hop) (\<lambda>next_hop_ip.
       case std_map_find (ni_mapping_cache ni) next_hop_ip of
         Some (ethernet_address, _) \<Rightarrow>
           if ethernet_address = ETHERNET_BROADCAST then Inr ni
           else result_map (NetworkInterface_push_frame ni ethernet_address TYPE_IPv4)
                  (IPv4Datagram_serialize dgram)
       | None \<Rightarrow>
           result_bind (Address_ipv4_numeric (ni_ip_address ni)) (\<lambda>src_ip.
           result_map (\<lambda>serialized.
               let ni = NetworkInterface_push_frame ni ETHERNET_BROADCAST TYPE_ARP (BufferList_of serialized)
               in ni\<lparr>ni_ARP_queue := ni_ARP_queue ni @ [(dgram, next_hop)],
                     ni_mapping_cache := std_map_put next_hop_ip (ETHERNET_BROADCAST, 0) (ni_mapping_cache ni)\<rparr>)
             (ARPMessage_serialize (ARP_request (ni_ethernet_address ni) src_ip next_hop_ip))))"

text \<open>
  The loop over the waiting datagrams when a reply arrives: \<open>i\<close> is the position of the
  iterator and the list what is left of the queue from there.
\<close>

primrec NetworkInterface_send_waiting ::
  "u32 \<Rightarrow> nat \<Rightarrow> (IPv4Datagram \<times> Address) list \<Rightarrow> NetworkInterface \<Rightarrow> NetworkInterface result" where
  "NetworkInterface_send_waiting ip i [] ni = Inr ni"
| "NetworkInterface_send_waiting ip i (e # q) ni =
     result_bind (Address_ipv4_numeric (snd e)) (\<lambda>next_hop_ip.
       if next_hop_ip = ip
       then result_map (\<lambda>ni. ni\<lparr>ni_ARP_queue := take i (ni_ARP_queue ni) @ drop (Suc i) (ni_ARP_queue ni)\<rparr>)
              (NetworkInterface_send_datagram ni (fst e) (snd e))
       else NetworkInterface_send_waiting ip (Suc i) q ni)"

text \<open>A request for the address of the interface is answered.\<close>

definition NetworkInterface_reply :: "NetworkInterface \<Rightarrow> ARPMessage \<Rightarrow> NetworkInterface result" where
  "NetworkInterface_reply ni arp_message =
     result_bind (Address_ipv4_numeric (ni_ip_address ni)) (\<lambda>ip.
       if ip = arp_target_ip_address arp_message
       then result_map (\<lambda>serialized. NetworkInterface_push_frame ni (arp_sender_ethernet_address arp_message)
                TYPE_ARP (BufferList_of serialized))
              (ARPMessage_serialize (ARP_reply (ni_ethernet_address ni) ip arp_message))
       else Inr ni)"

definition NetworkInterface_recv_arp :: "NetworkInterface \<Rightarrow> ARPMessage \<Rightarrow> NetworkInterface result" where
  "NetworkInterface_recv_arp ni arp_message =
     (let ni = ni\<lparr>ni_mapping_cache := std_map_put (arp_sender_ip_address arp_message)
                   (arp_sender_ethernet_address arp_message, 0) (ni_mapping_cache ni)\<rparr>
      in if arp_opcode arp_message = OPCODE_REQUEST then NetworkInterface_reply ni arp_message
         else if arp_opcode arp_message = OPCODE_REPLY
         then NetworkInterface_send_waiting (arp_sender_ip_address arp_message) 0 (ni_ARP_queue ni) ni
         else Inr ni)"

definition NetworkInterface_recv_frame ::
  "NetworkInterface \<Rightarrow> EthernetFrame \<Rightarrow> (IPv4Datagram option \<times> NetworkInterface) result" where
  "NetworkInterface_recv_frame ni frame =
     (if eh_dst (ef_header frame) \<noteq> ETHERNET_BROADCAST \<and> eh_dst (ef_header frame) \<noteq> ni_ethernet_address ni
      then Inr (None, ni)
      else if eh_type (ef_header frame) = TYPE_IPv4
      then result_bind (BufferList_to_Buffer (ef_payload frame)) (\<lambda>buffer.
           result_map (\<lambda>(res, datagram). (if res = NoError then Some datagram else None, ni))
             (IPv4Datagram_parse IPv4Datagram_new buffer))
      else if eh_type (ef_header frame) = TYPE_ARP
      then result_bind (BufferList_to_Buffer (ef_payload frame)) (\<lambda>buffer.
           result_bind (ARPMessage_parse ARPMessage_new buffer) (\<lambda>(res, arp_message).
             if res = NoError then result_map (Pair None) (NetworkInterface_recv_arp ni arp_message)
             else Inr (None, ni)))
      else Inr (None, ni))"

text \<open>The loop of \<open>tick\<close> over the cache, erasing as it goes.\<close>

primrec NetworkInterface_age ::
  "size_t \<Rightarrow> (u32, EthernetAddress \<times> size_t) std_map \<Rightarrow> (u32, EthernetAddress \<times> size_t) std_map" where
  "NetworkInterface_age ms [] = []"
| "NetworkInterface_age ms (e # m) =
     (let (ip, ethernet_address, elapsed) = e;
          elapsed = elapsed + ms
      in if ethernet_address = ETHERNET_BROADCAST
         then (if 5000 \<le> elapsed then NetworkInterface_age ms m
               else (ip, ethernet_address, elapsed) # NetworkInterface_age ms m)
         else (if 30000 \<le> elapsed then NetworkInterface_age ms m
               else (ip, ethernet_address, elapsed) # NetworkInterface_age ms m))"

definition NetworkInterface_tick :: "NetworkInterface \<Rightarrow> size_t \<Rightarrow> NetworkInterface" where
  "NetworkInterface_tick ni ms_since_last_tick =
     ni\<lparr>ni_mapping_cache := NetworkInterface_age ms_since_last_tick (ni_mapping_cache ni)\<rparr>"

section \<open>Well-formed interfaces\<close>

definition mapping_fresh :: "EthernetAddress \<times> size_t \<Rightarrow> bool" where
  "mapping_fresh v \<longleftrightarrow> length (fst v) = 6 \<and> snd v < (if fst v = ETHERNET_BROADCAST then 5000 else 30000)"

definition frame_ok :: "EthernetAddress \<Rightarrow> EthernetFrame \<Rightarrow> bool" where
  "frame_ok own fr \<longleftrightarrow> EthernetHeader_valid (ef_header fr) \<and> eh_src (ef_header fr) = own
     \<and> eh_type (ef_header fr) \<in> {TYPE_IPv4, TYPE_ARP}
     \<and> (eh_type (ef_header fr) = TYPE_IPv4 \<longrightarrow> eh_dst (ef_header fr) \<noteq> ETHERNET_BROADCAST)"

definition is_ipv4 :: "Address \<Rightarrow> bool" where
  "is_ipv4 a \<longleftrightarrow> (case Address_ipv4_numeric a of Inl _ \<Rightarrow> False | Inr _ \<Rightarrow> True)"

definition sendable :: "IPv4Datagram \<Rightarrow> bool" where
  "sendable dg \<longleftrightarrow> (case IPv4Datagram_serialize dg of Inl _ \<Rightarrow> False | Inr _ \<Rightarrow> True)"

definition NetworkInterface_inv :: "NetworkInterface \<Rightarrow> bool" where
  "NetworkInterface_inv ni \<longleftrightarrow>
     length (ni_ethernet_address ni) = 6 \<and> is_ipv4 (ni_ip_address ni)
     \<and> std_map_inv (ni_mapping_cache ni) \<and> (\<forall>e \<in> set (ni_mapping_cache ni). mapping_fresh (snd e))
     \<and> (\<forall>fr \<in> set (ni_frames_out ni). frame_ok (ni_ethernet_address ni) fr)
     \<and> (\<forall>e \<in> set (ni_ARP_queue ni). sendable (fst e) \<and> is_ipv4 (snd e))"

lemma is_ipv4D: "is_ipv4 a \<Longrightarrow> \<exists>n. Address_ipv4_numeric a = Inr n"
  by (simp add: is_ipv4_def split: sum.splits)

lemma sendableD: "sendable dg \<Longrightarrow> \<exists>bl. IPv4Datagram_serialize dg = Inr bl"
  by (simp add: sendable_def split: sum.splits)

lemma length_BROADCAST [simp]: "length ETHERNET_BROADCAST = 6"
  by (simp add: ETHERNET_BROADCAST_def)

lemma TYPE_distinct [simp]: "TYPE_ARP \<noteq> TYPE_IPv4" "TYPE_IPv4 \<noteq> TYPE_ARP"
  by (simp_all add: TYPE_ARP_def TYPE_IPv4_def)

lemma set_std_map_put: "set (std_map_put k v m) \<subseteq> insert (k, v) (set m)"
  by (induction m) auto

lemma inv_put:
  assumes "NetworkInterface_inv ni" and "mapping_fresh v"
  shows "NetworkInterface_inv (ni\<lparr>ni_mapping_cache := std_map_put ip v (ni_mapping_cache ni)\<rparr>)"
  using assms set_std_map_put [of ip v "ni_mapping_cache ni"]
  by (auto simp: NetworkInterface_inv_def std_map_inv_put)

lemma inv_push_frame:
  assumes "NetworkInterface_inv ni" and "length dst = 6"
    and "type = TYPE_ARP \<or> type = TYPE_IPv4 \<and> dst \<noteq> ETHERNET_BROADCAST"
  shows "NetworkInterface_inv (NetworkInterface_push_frame ni dst type payload)"
  using assms by (auto simp: NetworkInterface_inv_def NetworkInterface_push_frame_def frame_ok_def EthernetHeader_valid_def)

lemma ARP_supported [simp]: "ARPMessage_supported (ARP_request ea si ti)" "ARPMessage_supported (ARP_reply ea ip m)"
  by (simp_all add: ARP_request_def ARP_reply_def ARPMessage_supported_def ARPMessage_new_def)

lemma ARP_fields [simp]:
  "arp_sender_ip_address (ARP_request ea si ti) = si" "arp_sender_ethernet_address (ARP_request ea si ti) = ea"
  "arp_target_ip_address (ARP_request ea si ti) = ti" "arp_opcode (ARP_request ea si ti) = OPCODE_REQUEST"
  "arp_target_ethernet_address (ARP_request ea si ti) = replicate 6 0"
  "arp_sender_ip_address (ARP_reply ea ip m) = ip" "arp_sender_ethernet_address (ARP_reply ea ip m) = ea"
  "arp_target_ip_address (ARP_reply ea ip m) = arp_sender_ip_address m" "arp_opcode (ARP_reply ea ip m) = OPCODE_REPLY"
  "arp_target_ethernet_address (ARP_reply ea ip m) = arp_sender_ethernet_address m"
  by (simp_all add: ARP_request_def ARP_reply_def ARPMessage_new_def)

lemma ARP_serialize_ok: "\<exists>bs. ARPMessage_serialize (ARP_request ea si ti) = Inr bs"
    "\<exists>bs. ARPMessage_serialize (ARP_reply ea ip m) = Inr bs"
  by (simp_all add: ARPMessage_serialize_eq)

lemma cached_fresh:
  "NetworkInterface_inv ni \<Longrightarrow> std_map_find (ni_mapping_cache ni) ip = Some v \<Longrightarrow> mapping_fresh v"
  by (auto simp: NetworkInterface_inv_def std_map_find_def dest!: map_of_SomeD)

lemma inv_send_datagram:
  assumes inv: "NetworkInterface_inv ni" and "is_ipv4 next_hop" and "sendable dgram"
  shows "\<exists>ni'. NetworkInterface_send_datagram ni dgram next_hop = Inr ni' \<and> NetworkInterface_inv ni'"
proof -
  obtain n bl where n: "Address_ipv4_numeric next_hop = Inr n" and bl: "IPv4Datagram_serialize dgram = Inr bl"
    using is_ipv4D [OF assms(2)] sendableD [OF assms(3)] by blast
  obtain src where src: "Address_ipv4_numeric (ni_ip_address ni) = Inr src"
    using inv is_ipv4D [of "ni_ip_address ni"] by (auto simp: NetworkInterface_inv_def)
  show ?thesis
  proof (cases "std_map_find (ni_mapping_cache ni) n")
    case (Some v)
    obtain ea t where v: "v = (ea, t)" by (cases v)
    have "length ea = 6" using cached_fresh [OF inv Some] by (simp add: v mapping_fresh_def)
    then show ?thesis using n bl Some v inv
      by (simp add: NetworkInterface_send_datagram_def inv_push_frame)
  next
    case None
    obtain bs where bs: "ARPMessage_serialize (ARP_request (ni_ethernet_address ni) src n) = Inr bs"
      using ARP_serialize_ok(1) by blast
    let ?p = "NetworkInterface_push_frame ni ETHERNET_BROADCAST TYPE_ARP (BufferList_of bs)"
    have "NetworkInterface_inv ?p" by (rule inv_push_frame [OF inv]) simp_all
    then have "NetworkInterface_inv (?p\<lparr>ni_ARP_queue := ni_ARP_queue ?p @ [(dgram, next_hop)]\<rparr>)"
      using assms(2,3) by (auto simp: NetworkInterface_inv_def)
    from inv_put [OF this, of "(ETHERNET_BROADCAST, 0)" n] show ?thesis
      using n src bs None by (simp add: NetworkInterface_send_datagram_def mapping_fresh_def Let_def)
  qed
qed

lemma inv_send_waiting:
  assumes "NetworkInterface_inv ni" and "\<forall>e \<in> set q. sendable (fst e) \<and> is_ipv4 (snd e)"
  shows "\<exists>ni'. NetworkInterface_send_waiting ip i q ni = Inr ni' \<and> NetworkInterface_inv ni'"
  using assms(2)
proof (induction q arbitrary: i)
  case (Cons e q)
  obtain n where n: "Address_ipv4_numeric (snd e) = Inr n" using Cons.prems is_ipv4D by auto
  obtain ni' where ni': "NetworkInterface_send_datagram ni (fst e) (snd e) = Inr ni'" "NetworkInterface_inv ni'"
    using inv_send_datagram [OF assms(1), of "snd e" "fst e"] Cons.prems by auto
  let ?q = "take i (ni_ARP_queue ni') @ drop (Suc i) (ni_ARP_queue ni')"
  have "set ?q \<subseteq> set (ni_ARP_queue ni')" using set_take_subset set_drop_subset by fastforce
  then have "NetworkInterface_inv (ni'\<lparr>ni_ARP_queue := ?q\<rparr>)"
    using ni'(2) by (auto simp: NetworkInterface_inv_def)
  then show ?case using n ni' Cons by simp
qed (use assms(1) in simp)

lemma inv_recv_arp:
  assumes "NetworkInterface_inv ni" and "length (arp_sender_ethernet_address m) = 6"
  shows "\<exists>ni'. NetworkInterface_recv_arp ni m = Inr ni' \<and> NetworkInterface_inv ni'"
proof -
  define ni1 where "ni1 = ni\<lparr>ni_mapping_cache := std_map_put (arp_sender_ip_address m)
      (arp_sender_ethernet_address m, 0) (ni_mapping_cache ni)\<rparr>"
  have inv: "NetworkInterface_inv ni1" unfolding ni1_def
    by (rule inv_put [OF assms(1)]) (use assms(2) in \<open>simp add: mapping_fresh_def\<close>)
  obtain ip where ip: "Address_ipv4_numeric (ni_ip_address ni1) = Inr ip"
    using inv is_ipv4D [of "ni_ip_address ni1"] by (auto simp: NetworkInterface_inv_def)
  have "\<exists>ni'. NetworkInterface_reply ni1 m = Inr ni' \<and> NetworkInterface_inv ni'"
    using ARP_serialize_ok(2) [of "ni_ethernet_address ni1" ip m]
      inv_push_frame [OF inv assms(2), of TYPE_ARP] inv ip
    by (auto simp: NetworkInterface_reply_def)
  moreover have "\<exists>ni'. NetworkInterface_send_waiting (arp_sender_ip_address m) 0 (ni_ARP_queue ni1) ni1 = Inr ni'
      \<and> NetworkInterface_inv ni'"
    by (rule inv_send_waiting [OF inv]) (use inv in \<open>simp add: NetworkInterface_inv_def\<close>)
  ultimately show ?thesis using inv by (simp add: NetworkInterface_recv_arp_def ni1_def [symmetric] Let_def)
qed

lemma ARPMessage_parse_total: "Buffer_inv b \<Longrightarrow> \<exists>e m'. ARPMessage_parse m b = Inr (e, m')"
proof -
  assume "Buffer_inv b"
  then have "NetParser_inv (NetParser_new b)" by (simp add: NetParser_inv_def NetParser_new_def)
  with arp_message.decode_total obtain x p where "ARPMessage_parse_fields m (NetParser_new b) = Inr (x, p)"
    unfolding parser_total_def by blast
  then show ?thesis by (cases x) (simp add: ARPMessage_parse_def Let_def)
qed

lemma length_read_bytes: "read_bytes n p = Inr (xs, p') \<Longrightarrow> length xs = n"
  by (induction n arbitrary: p xs p')
    (auto simp: parser_bind_def parser_return_def result_bind_Inr_iff split: prod.splits)

lemma ARPMessage_parse_lengths:
  assumes "ARPMessage_parse m0 b = Inr (NoError, m)"
  shows "length (arp_sender_ethernet_address m) = 6"
  using assms
  by (auto simp: ARPMessage_parse_def ARPMessage_parse_fields_def ARPMessage_parse_addresses_def parser_bind_def
      parser_return_def result_bind_Inr_iff result_map_Inr_iff Let_def length_read_bytes split: if_splits prod.splits)

definition payload_ok :: "BufferList \<Rightarrow> bool" where
  "payload_ok bl \<longleftrightarrow> length bl \<le> 1 \<and> (\<forall>b \<in> set bl. Buffer_inv b)"

lemma payload_okD: "payload_ok bl \<Longrightarrow> \<exists>b. BufferList_to_Buffer bl = Inr b \<and> Buffer_inv b"
  by (cases bl) (auto simp: payload_ok_def BufferList_to_Buffer_def)

lemma inv_recv_frame:
  assumes "NetworkInterface_inv ni" and "payload_ok (ef_payload fr)"
  shows "\<exists>r ni'. NetworkInterface_recv_frame ni fr = Inr (r, ni') \<and> NetworkInterface_inv ni'"
proof -
  obtain b where b: "BufferList_to_Buffer (ef_payload fr) = Inr b" "Buffer_inv b"
    using payload_okD [OF assms(2)] by blast
  obtain e m where m: "ARPMessage_parse ARPMessage_new b = Inr (e, m)" using ARPMessage_parse_total [OF b(2)] by blast
  obtain e' dg where dg: "IPv4Datagram_parse IPv4Datagram_new b = Inr (e', dg)"
    using IPv4Datagram_parse_total [OF b(2)] by blast
  have "\<exists>ni'. NetworkInterface_recv_arp ni m = Inr ni' \<and> NetworkInterface_inv ni'" if "e = NoError"
    using inv_recv_arp [OF assms(1)] ARPMessage_parse_lengths m that by blast
  then show ?thesis using assms(1) b m dg by (auto simp: NetworkInterface_recv_frame_def)
qed

lemma age_eq:
  "NetworkInterface_age ms m = filter (\<lambda>e. snd (snd e) < (if fst (snd e) = ETHERNET_BROADCAST then 5000 else 30000))
     (map (\<lambda>e. (fst e, fst (snd e), snd (snd e) + ms)) m)"
  by (induction m) (auto simp: Let_def not_le split: prod.splits)

lemma inv_tick: "NetworkInterface_inv ni \<Longrightarrow> NetworkInterface_inv (NetworkInterface_tick ni ms)"
proof -
  assume inv: "NetworkInterface_inv ni"
  let ?m = "map (\<lambda>e. (fst e, fst (snd e), snd (snd e) + ms)) (ni_mapping_cache ni)"
  have "map fst ?m = map fst (ni_mapping_cache ni)" by simp
  then have "std_map_inv ?m" using inv by (simp only: NetworkInterface_inv_def std_map_inv_def)
  then have "std_map_inv (NetworkInterface_age ms (ni_mapping_cache ni))"
    unfolding age_eq by (rule std_map_inv_filter)
  then show ?thesis
    using inv by (auto simp: NetworkInterface_inv_def NetworkInterface_tick_def age_eq mapping_fresh_def)
qed

section \<open>Sequences of calls\<close>

text \<open>What the owner of an interface can do; \<open>Pop\<close> takes a frame off \<open>frames_out()\<close>.\<close>

datatype ni_call =
    Send IPv4Datagram Address
  | Recv EthernetFrame
  | Tick size_t
  | Pop

fun ni_call_ok :: "ni_call \<Rightarrow> bool" where
  "ni_call_ok (Send dgram next_hop) \<longleftrightarrow> sendable dgram \<and> is_ipv4 next_hop"
| "ni_call_ok (Recv fr) \<longleftrightarrow> payload_ok (ef_payload fr)"
| "ni_call_ok (Tick _) \<longleftrightarrow> True"
| "ni_call_ok Pop \<longleftrightarrow> True"

fun ni_call_run :: "ni_call \<Rightarrow> NetworkInterface \<Rightarrow> NetworkInterface result" where
  "ni_call_run (Send dgram next_hop) ni = NetworkInterface_send_datagram ni dgram next_hop"
| "ni_call_run (Recv fr) ni = result_map snd (NetworkInterface_recv_frame ni fr)"
| "ni_call_run (Tick ms) ni = Inr (NetworkInterface_tick ni ms)"
| "ni_call_run Pop ni = Inr (ni\<lparr>ni_frames_out := tl (ni_frames_out ni)\<rparr>)"

fun ni_calls_run :: "ni_call list \<Rightarrow> NetworkInterface \<Rightarrow> NetworkInterface result" where
  "ni_calls_run [] ni = Inr ni"
| "ni_calls_run (c # cs) ni = result_bind (ni_call_run c ni) (ni_calls_run cs)"

lemma inv_call:
  assumes "NetworkInterface_inv ni" and "ni_call_ok c"
  shows "\<exists>ni'. ni_call_run c ni = Inr ni' \<and> NetworkInterface_inv ni'"
proof (cases c)
  case (Send dgram next_hop)
  then show ?thesis using inv_send_datagram [OF assms(1), of next_hop dgram] assms(2) by simp
next
  case (Recv fr)
  then show ?thesis using inv_recv_frame [OF assms(1), of fr] assms(2) by auto
next
  case (Tick ms)
  then show ?thesis using inv_tick [OF assms(1)] by simp
next
  case Pop
  have "set (tl (ni_frames_out ni)) \<subseteq> set (ni_frames_out ni)" by (cases "ni_frames_out ni") auto
  then show ?thesis using assms(1) Pop by (auto simp: NetworkInterface_inv_def)
qed

lemma inv_calls:
  "NetworkInterface_inv ni \<Longrightarrow> \<forall>c \<in> set cs. ni_call_ok c \<Longrightarrow>
     \<exists>ni'. ni_calls_run cs ni = Inr ni' \<and> NetworkInterface_inv ni'"
proof (induction cs arbitrary: ni)
  case (Cons c cs)
  from Cons.prems inv_call [of ni c] obtain ni1 where "ni_call_run c ni = Inr ni1" "NetworkInterface_inv ni1" by auto
  with Cons show ?case by simp
qed simp

section \<open>The steps of a resolution\<close>

text \<open>What the receiver parses from the bytes of a transmitted frame.\<close>

definition wire :: "EthernetFrame \<Rightarrow> (ParseResult \<times> EthernetFrame) result" where
  "wire fr = EthernetFrame_parse EthernetFrame_new (Buffer_of (BufferList_concatenate (EthernetFrame_serialize fr)))"

lemma wire_frame:
  assumes "length dst = 6" "length src = 6" and "length (BufferList_concatenate payload) < 2 ^ 17"
  shows "\<exists>b. wire \<lparr>ef_header = \<lparr>eh_dst = dst, eh_src = src, eh_type = t\<rparr>, ef_payload = payload\<rparr> =
       Inr (NoError, \<lparr>ef_header = \<lparr>eh_dst = dst, eh_src = src, eh_type = t\<rparr>, ef_payload = [b]\<rparr>)
     \<and> Buffer_str b = BufferList_concatenate payload \<and> Buffer_inv b"
proof -
  let ?fr = "\<lparr>ef_header = \<lparr>eh_dst = dst, eh_src = src, eh_type = t\<rparr>, ef_payload = payload\<rparr>"
  have v: "EthernetHeader_valid (ef_header ?fr)" using assms(1,2) by (simp add: EthernetHeader_valid_def)
  have "length (BufferList_concatenate (EthernetFrame_serialize ?fr)) < 2 ^ 64"
    using assms by (simp add: EthernetFrame_serialize_def EthernetHeader_serialize_eq BufferList_concatenate_of)
  from EthernetFrame_parse_bytes [OF v this, of EthernetFrame_new] show ?thesis by (simp add: wire_def)
qed

lemma wire_arp:
  assumes "ARPMessage_valid m" and "ARPMessage_serialize m = Inr bs" and "length dst = 6" "length src = 6"
  shows "\<exists>b. wire \<lparr>ef_header = \<lparr>eh_dst = dst, eh_src = src, eh_type = t\<rparr>, ef_payload = BufferList_of bs\<rparr> =
       Inr (NoError, \<lparr>ef_header = \<lparr>eh_dst = dst, eh_src = src, eh_type = t\<rparr>, ef_payload = [b]\<rparr>)
     \<and> ARPMessage_parse ARPMessage_new b = Inr (NoError, m)"
proof -
  have l: "BufferList_concatenate (BufferList_of bs) = bs" "length bs = 28"
    using parses_ARPMessage(2) [OF assms(1,2)] by (simp_all add: BufferList_concatenate_of)
  then have "length (BufferList_concatenate (BufferList_of bs)) < 2 ^ 17" by simp
  from wire_frame [OF assms(3,4) this, of t] l ARPMessage_parse_buffer [OF assms(1,2)] show ?thesis by metis
qed

lemma recv_arp_frame:
  assumes "eh_dst h = ETHERNET_BROADCAST \<or> eh_dst h = ni_ethernet_address ni" and "eh_type h = TYPE_ARP"
    and "ARPMessage_parse ARPMessage_new b = Inr (NoError, m)"
  shows "NetworkInterface_recv_frame ni \<lparr>ef_header = h, ef_payload = [b]\<rparr> =
     result_map (Pair None) (NetworkInterface_recv_arp ni m)"
  using assms by (auto simp: NetworkInterface_recv_frame_def BufferList_to_Buffer_def)

lemma send_unresolved:
  assumes "ni_ip_address ni = ipv4_address ip" and "std_map_find (ni_mapping_cache ni) n = None"
    and "ARPMessage_serialize (ARP_request (ni_ethernet_address ni) ip n) = Inr bs"
  shows "NetworkInterface_send_datagram ni dgram (ipv4_address n) = Inr (ni
     \<lparr>ni_frames_out := ni_frames_out ni @ [\<lparr>ef_header = \<lparr>eh_dst = ETHERNET_BROADCAST,
          eh_src = ni_ethernet_address ni, eh_type = TYPE_ARP\<rparr>, ef_payload = BufferList_of bs\<rparr>],
      ni_ARP_queue := ni_ARP_queue ni @ [(dgram, ipv4_address n)],
      ni_mapping_cache := std_map_put n (ETHERNET_BROADCAST, 0) (ni_mapping_cache ni)\<rparr>)"
  using assms by (simp add: NetworkInterface_send_datagram_def NetworkInterface_push_frame_def Let_def)

lemma recv_request:
  assumes "ni_ip_address ni = ipv4_address ip" and "ARPMessage_serialize (ARP_reply (ni_ethernet_address ni) ip m) = Inr bs"
    and "arp_opcode m = OPCODE_REQUEST" and "arp_target_ip_address m = ip"
  shows "NetworkInterface_recv_arp ni m = Inr (ni
     \<lparr>ni_mapping_cache := std_map_put (arp_sender_ip_address m) (arp_sender_ethernet_address m, 0) (ni_mapping_cache ni),
      ni_frames_out := ni_frames_out ni @ [\<lparr>ef_header = \<lparr>eh_dst = arp_sender_ethernet_address m,
          eh_src = ni_ethernet_address ni, eh_type = TYPE_ARP\<rparr>, ef_payload = BufferList_of bs\<rparr>]\<rparr>)"
  using assms
  by (simp add: NetworkInterface_recv_arp_def NetworkInterface_reply_def NetworkInterface_push_frame_def Let_def)

lemma recv_reply:
  assumes "std_map_inv (ni_mapping_cache ni)" and "arp_opcode m = OPCODE_REPLY"
    and "ni_ARP_queue ni = (dgram, ipv4_address (arp_sender_ip_address m)) # q"
    and "arp_sender_ethernet_address m \<noteq> ETHERNET_BROADCAST" and "IPv4Datagram_serialize dgram = Inr bl"
  shows "NetworkInterface_recv_arp ni m = Inr (ni
     \<lparr>ni_mapping_cache := std_map_put (arp_sender_ip_address m) (arp_sender_ethernet_address m, 0) (ni_mapping_cache ni),
      ni_frames_out := ni_frames_out ni @ [\<lparr>ef_header = \<lparr>eh_dst = arp_sender_ethernet_address m,
          eh_src = ni_ethernet_address ni, eh_type = TYPE_IPv4\<rparr>, ef_payload = bl\<rparr>],
      ni_ARP_queue := q\<rparr>)"
  using assms
  by (simp add: NetworkInterface_recv_arp_def OPCODE_REPLY_def OPCODE_REQUEST_def Let_def
      NetworkInterface_send_datagram_def std_map_find_put NetworkInterface_push_frame_def)

definition arp_frame :: "EthernetAddress \<Rightarrow> EthernetAddress \<Rightarrow> bytes \<Rightarrow> EthernetFrame" where
  "arp_frame dst src bs = \<lparr>ef_header = \<lparr>eh_dst = dst, eh_src = src, eh_type = TYPE_ARP\<rparr>, ef_payload = BufferList_of bs\<rparr>"

lemma arp_over_wire:
  assumes "ARPMessage_valid m" and "ARPMessage_serialize m = Inr bs" and "length dst = 6" "length src = 6"
    and "dst = ETHERNET_BROADCAST \<or> dst = ni_ethernet_address ni"
  shows "\<exists>fr'. wire (arp_frame dst src bs) = Inr (NoError, fr')
     \<and> NetworkInterface_recv_frame ni fr' = result_map (Pair None) (NetworkInterface_recv_arp ni m)"
proof -
  obtain b where b: "wire (arp_frame dst src bs) = Inr (NoError,
        \<lparr>ef_header = \<lparr>eh_dst = dst, eh_src = src, eh_type = TYPE_ARP\<rparr>, ef_payload = [b]\<rparr>)"
      "ARPMessage_parse ARPMessage_new b = Inr (NoError, m)"
    using wire_arp [OF assms(1-4)] unfolding arp_frame_def by blast
  moreover have "NetworkInterface_recv_frame ni
      \<lparr>ef_header = \<lparr>eh_dst = dst, eh_src = src, eh_type = TYPE_ARP\<rparr>, ef_payload = [b]\<rparr>
      = result_map (Pair None) (NetworkInterface_recv_arp ni m)"
    by (rule recv_arp_frame [OF _ _ b(2)]) (use assms(5) in simp_all)
  ultimately show ?thesis by blast
qed

lemma resolve_request:
  assumes a: "length (ni_ethernet_address a) = 6" "ni_ip_address a = ipv4_address ip_a" "std_map_inv (ni_mapping_cache a)"
      "std_map_find (ni_mapping_cache a) ip_b = None" "ni_ARP_queue a = []"
    and b: "ni_ip_address b = ipv4_address ip_b"
    and rps: "ARPMessage_serialize (ARP_reply (ni_ethernet_address b) ip_b (ARP_request (ni_ethernet_address a) ip_a ip_b)) = Inr rps"
  shows "\<exists>a1 request request' b1.
     NetworkInterface_send_datagram a dgram (ipv4_address ip_b) = Inr a1
     \<and> ni_frames_out a1 = ni_frames_out a @ [request] \<and> eh_dst (ef_header request) = ETHERNET_BROADCAST
     \<and> ni_ethernet_address a1 = ni_ethernet_address a \<and> std_map_inv (ni_mapping_cache a1)
     \<and> ni_ARP_queue a1 = [(dgram, ipv4_address ip_b)]
     \<and> wire request = Inr (NoError, request') \<and> NetworkInterface_recv_frame b request' = Inr (None, b1)
     \<and> ni_frames_out b1 = ni_frames_out b @ [arp_frame (ni_ethernet_address a) (ni_ethernet_address b) rps]
     \<and> ni_ethernet_address b1 = ni_ethernet_address b"
proof -
  define rq where "rq = ARP_request (ni_ethernet_address a) ip_a ip_b"
  obtain rqs where ser: "ARPMessage_serialize rq = Inr rqs" using ARP_serialize_ok(1) unfolding rq_def by blast
  have valid: "ARPMessage_valid rq" using a(1) by (simp add: ARPMessage_valid_def rq_def)
  note a1 = send_unresolved [OF a(2,4) ser [unfolded rq_def], of dgram, folded arp_frame_def]
  have "arp_opcode rq = OPCODE_REQUEST" "arp_target_ip_address rq = ip_b" by (simp_all add: rq_def)
  note b1 = recv_request [OF b rps [folded rq_def] this, folded arp_frame_def]
  obtain rq' where rq': "wire (arp_frame ETHERNET_BROADCAST (ni_ethernet_address a) rqs) = Inr (NoError, rq')"
      "NetworkInterface_recv_frame b rq' = result_map (Pair None) (NetworkInterface_recv_arp b rq)"
    using arp_over_wire [OF valid ser length_BROADCAST a(1), of b] by blast
  note step = rq'(2) [unfolded b1 result_map.simps]
  show ?thesis
    using a(3,5) by (intro exI conjI) (rule a1 rq'(1) rq'(1) [unfolded arp_frame_def] step | simp add: std_map_inv_put arp_frame_def rq_def)+
qed

lemma resolve_reply:
  assumes a1: "length (ni_ethernet_address a1) = 6" "std_map_inv (ni_mapping_cache a1)"
      "ni_ARP_queue a1 = [(dgram, ipv4_address ip_b)]"
    and eb: "length eb = 6" "eb \<noteq> ETHERNET_BROADCAST"
    and rps: "ARPMessage_serialize (ARP_reply eb ip_b (ARP_request (ni_ethernet_address a1) ip_a ip_b)) = Inr rps"
    and bl: "IPv4Datagram_serialize dgram = Inr bl"
  shows "\<exists>reply' a2. wire (arp_frame (ni_ethernet_address a1) eb rps) = Inr (NoError, reply')
     \<and> NetworkInterface_recv_frame a1 reply' = Inr (None, a2)
     \<and> ni_frames_out a2 = ni_frames_out a1 @ [\<lparr>ef_header = \<lparr>eh_dst = eb,
          eh_src = ni_ethernet_address a1, eh_type = TYPE_IPv4\<rparr>, ef_payload = bl\<rparr>]
     \<and> ni_ARP_queue a2 = []"
proof -
  define rp where "rp = ARP_reply eb ip_b (ARP_request (ni_ethernet_address a1) ip_a ip_b)"
  have valid: "ARPMessage_valid rp" using a1(1) eb(1) by (simp add: ARPMessage_valid_def rp_def)
  have "arp_opcode rp = OPCODE_REPLY"
      "ni_ARP_queue a1 = (dgram, ipv4_address (arp_sender_ip_address rp)) # []"
      "arp_sender_ethernet_address rp \<noteq> ETHERNET_BROADCAST"
    using a1(3) eb(2) by (simp_all add: rp_def)
  note a2 = recv_reply [OF a1(2) this bl]
  obtain rp' where rp': "wire (arp_frame (ni_ethernet_address a1) eb rps) = Inr (NoError, rp')"
      "NetworkInterface_recv_frame a1 rp' = result_map (Pair None) (NetworkInterface_recv_arp a1 rp)"
    using arp_over_wire [OF valid rps [folded rp_def] a1(1) eb(1), of a1] by blast
  note step = rp'(2) [unfolded a2 result_map.simps]
  show ?thesis by (intro exI conjI) (rule rp'(1) step | simp add: rp_def)+
qed

section \<open>Properties\<close>


definition example_gni :: getnameinfo_fun where
  "example_gni storage sz = (0, inet_ntoa (be_value (take 4 (drop 4 storage))), ''0'')"


text \<open>
  C36. Address resolution delivers the datagram. Interface \<open>a\<close> has no mapping for the address
  of \<open>b\<close> and nothing waiting. When it is asked to send a datagram there, it broadcasts a
  request; \<open>b\<close>, receiving the bytes of that frame, answers with a reply to \<open>a\<close> alone; \<open>a\<close>,
  receiving the bytes of the reply, sends the datagram to the Ethernet address of \<open>b\<close> and has
  nothing left waiting; and \<open>b\<close>, receiving the bytes of that frame, returns the datagram with
  its payload and its header, in which only the checksum was filled in.
\<close>

theorem NetworkInterface_resolves:
  assumes a: "length (ni_ethernet_address a) = 6" "ni_ethernet_address a \<noteq> ETHERNET_BROADCAST"
      "ni_ip_address a = ipv4_address ip_a" "std_map_inv (ni_mapping_cache a)"
      "std_map_find (ni_mapping_cache a) ip_b = None" "ni_ARP_queue a = []"
    and b: "length (ni_ethernet_address b) = 6" "ni_ethernet_address b \<noteq> ETHERNET_BROADCAST"
      "ni_ip_address b = ipv4_address ip_b"
    and dg: "IPv4Datagram_valid dgram"
  shows "\<exists>a1 request request' b1 reply reply' a2 frame frame' c payload.
     NetworkInterface_send_datagram a dgram (ipv4_address ip_b) = Inr a1
     \<and> ni_frames_out a1 = ni_frames_out a @ [request] \<and> eh_dst (ef_header request) = ETHERNET_BROADCAST
     \<and> wire request = Inr (NoError, request')
     \<and> NetworkInterface_recv_frame b request' = Inr (None, b1)
     \<and> ni_frames_out b1 = ni_frames_out b @ [reply] \<and> eh_dst (ef_header reply) = ni_ethernet_address a
     \<and> wire reply = Inr (NoError, reply')
     \<and> NetworkInterface_recv_frame a1 reply' = Inr (None, a2)
     \<and> ni_frames_out a2 = ni_frames_out a1 @ [frame] \<and> eh_dst (ef_header frame) = ni_ethernet_address b
     \<and> ni_ARP_queue a2 = []
     \<and> wire frame = Inr (NoError, frame')
     \<and> NetworkInterface_recv_frame b1 frame' =
         Inr (Some \<lparr>dg_header = (dg_header dgram)\<lparr>ip_cksum := c\<rparr>, dg_payload = [payload]\<rparr>, b1)
     \<and> Buffer_str payload = BufferList_concatenate (dg_payload dgram)"
proof -
  obtain rps where rps: "ARPMessage_serialize (ARP_reply (ni_ethernet_address b) ip_b
      (ARP_request (ni_ethernet_address a) ip_a ip_b)) = Inr rps"
    using ARP_serialize_ok(2) by blast
  from IPv4Datagram_wire [OF dg] obtain bl c where bl: "IPv4Datagram_serialize dgram = Inr bl"
      "length (BufferList_concatenate bl) = unat (ip_len (dg_header dgram))"
      and parse: "\<And>b0 dg'. Buffer_inv b0 \<Longrightarrow> Buffer_str b0 = BufferList_concatenate bl \<Longrightarrow>
          (\<exists>b. IPv4Datagram_parse dg' b0 =
             Inr (NoError, \<lparr>dg_header = (dg_header dgram)\<lparr>ip_cksum := c\<rparr>, dg_payload = [b]\<rparr>)
           \<and> Buffer_str b = BufferList_concatenate (dg_payload dgram) \<and> Buffer_inv b)"
    by blast
  from resolve_request [OF a(1,3-6) b(3) rps, of dgram] obtain a1 request request' b1 where
    1: "NetworkInterface_send_datagram a dgram (ipv4_address ip_b) = Inr a1"
      "ni_frames_out a1 = ni_frames_out a @ [request]" "eh_dst (ef_header request) = ETHERNET_BROADCAST"
    and a1: "ni_ethernet_address a1 = ni_ethernet_address a" "std_map_inv (ni_mapping_cache a1)"
      "ni_ARP_queue a1 = [(dgram, ipv4_address ip_b)]"
    and 2: "wire request = Inr (NoError, request')" "NetworkInterface_recv_frame b request' = Inr (None, b1)"
      "ni_frames_out b1 = ni_frames_out b @ [arp_frame (ni_ethernet_address a) (ni_ethernet_address b) rps]"
      "ni_ethernet_address b1 = ni_ethernet_address b"
    by blast
  let ?h = "\<lparr>eh_dst = ni_ethernet_address b, eh_src = ni_ethernet_address a, eh_type = TYPE_IPv4\<rparr>"
  from resolve_reply [OF _ a1(2,3) b(1,2), of ip_a rps bl] a(1) rps bl(1) obtain reply' a2 where
    3: "wire (arp_frame (ni_ethernet_address a) (ni_ethernet_address b) rps) = Inr (NoError, reply')"
      "NetworkInterface_recv_frame a1 reply' = Inr (None, a2)"
      "ni_frames_out a2 = ni_frames_out a1 @ [\<lparr>ef_header = ?h, ef_payload = bl\<rparr>]" "ni_ARP_queue a2 = []"
    unfolding a1(1) by blast
  have "length (BufferList_concatenate bl) < 2 ^ 17"
    using bl(2) unsigned_less [of "ip_len (dg_header dgram)", where ?'a = nat] by simp
  from wire_frame [OF b(1) a(1) this, of TYPE_IPv4] obtain f where
    f: "wire \<lparr>ef_header = ?h, ef_payload = bl\<rparr> = Inr (NoError, \<lparr>ef_header = ?h, ef_payload = [f]\<rparr>)"
      "Buffer_str f = BufferList_concatenate bl" "Buffer_inv f"
    by blast
  from parse [OF f(3,2), of IPv4Datagram_new] obtain pl where pl: "IPv4Datagram_parse IPv4Datagram_new f =
      Inr (NoError, \<lparr>dg_header = (dg_header dgram)\<lparr>ip_cksum := c\<rparr>, dg_payload = [pl]\<rparr>)"
      "Buffer_str pl = BufferList_concatenate (dg_payload dgram)" by blast
  then have 4: "NetworkInterface_recv_frame b1 \<lparr>ef_header = ?h, ef_payload = [f]\<rparr> =
      Inr (Some \<lparr>dg_header = (dg_header dgram)\<lparr>ip_cksum := c\<rparr>, dg_payload = [pl]\<rparr>, b1)"
    using 2(4) by (simp add: NetworkInterface_recv_frame_def BufferList_to_Buffer_def)
  have 5: "eh_dst (ef_header (arp_frame (ni_ethernet_address a) (ni_ethernet_address b) rps)) = ni_ethernet_address a"
      "eh_dst (ef_header \<lparr>ef_header = ?h, ef_payload = bl\<rparr>) = ni_ethernet_address b"
    by (simp_all add: arp_frame_def)
  show ?thesis by (intro exI conjI) (rule 1 2(1-3) 3 f(1) 4 5 pl(2))+
qed

theorem NetworkInterface_resolves_witness:
  "\<exists>a1 reply' a2 frame frame' b1 c payload.
     NetworkInterface_send_datagram \<lparr>ni_ethernet_address = [2, 0, 0, 0, 0, 1], ni_ip_address = ipv4_address 1,
         ni_frames_out = [], ni_mapping_cache = [], ni_ARP_queue = []\<rparr>
       \<lparr>dg_header = IPv4Header_new\<lparr>ip_len := 22\<rparr>, dg_payload = [Buffer_of [7, 8]]\<rparr> (ipv4_address 2) = Inr a1
     \<and> NetworkInterface_recv_frame a1 reply' = Inr (None, a2)
     \<and> ni_frames_out a2 = ni_frames_out a1 @ [frame] \<and> eh_dst (ef_header frame) = [2, 0, 0, 0, 0, 2]
     \<and> wire frame = Inr (NoError, frame')
     \<and> NetworkInterface_recv_frame b1 frame' =
         Inr (Some \<lparr>dg_header = IPv4Header_new\<lparr>ip_len := 22, ip_cksum := c\<rparr>, dg_payload = [payload]\<rparr>, b1)
     \<and> Buffer_str payload = [7, 8]"
proof -
  let ?ni = "\<lambda>n ip. \<lparr>ni_ethernet_address = [2, 0, 0, 0, 0, n], ni_ip_address = ipv4_address ip,
         ni_frames_out = [], ni_mapping_cache = [], ni_ARP_queue = []\<rparr>"
  let ?dg = "\<lparr>dg_header = IPv4Header_new\<lparr>ip_len := 22\<rparr>, dg_payload = [Buffer_of [7, 8]]\<rparr>"
  have 1: "IPv4Datagram_valid ?dg" "BufferList_concatenate (dg_payload ?dg) = [7, 8]" by code_simp+
  have 2: "length (ni_ethernet_address (?ni n ip)) = 6" "ni_ip_address (?ni n ip) = ipv4_address ip"
      "n \<noteq> 255 \<Longrightarrow> ni_ethernet_address (?ni n ip) \<noteq> ETHERNET_BROADCAST"
      "std_map_inv (ni_mapping_cache (?ni n ip))" "std_map_find (ni_mapping_cache (?ni n ip)) k = None"
      "ni_ARP_queue (?ni n ip) = []" for n k ip
    by (simp_all add: std_map_find_def ETHERNET_BROADCAST_def numeral_eq_Suc)
  note r = NetworkInterface_resolves [of "?ni 1 1" 1 2 "?ni 2 2" ?dg,
      OF 2(1) 2(3) 2(2) 2(4) 2(5) 2(6) 2(1) 2(3) 2(2) 1(1)]
  from r [unfolded 1(2), simplified] show ?thesis by (elim exE conjE) (intro exI conjI, assumption+)
qed

text \<open>
  C37. A datagram is lost while its next hop is being resolved: after the first datagram made
  the interface broadcast a request, a second one for the same next hop leaves the interface
  exactly as it was. It is neither sent nor queued, so the reply releases the first one only.
\<close>

theorem NetworkInterface_drops_while_pending:
  assumes "std_map_inv (ni_mapping_cache ni)" and "Address_ipv4_numeric next_hop = Inr ip"
    and "std_map_find (ni_mapping_cache ni) ip = None"
    and "NetworkInterface_send_datagram ni first next_hop = Inr ni1"
  shows "ni_ARP_queue ni1 = ni_ARP_queue ni @ [(first, next_hop)]
     \<and> NetworkInterface_send_datagram ni1 second next_hop = Inr ni1"
  using assms
  by (auto simp: NetworkInterface_send_datagram_def NetworkInterface_push_frame_def result_bind_Inr_iff result_map_Inr_iff
      Let_def std_map_find_put)

theorem NetworkInterface_drops_while_pending_witness:
  "\<exists>ni1. NetworkInterface_send_datagram \<lparr>ni_ethernet_address = [2, 0, 0, 0, 0, 1], ni_ip_address = ipv4_address 1,
       ni_frames_out = [], ni_mapping_cache = [], ni_ARP_queue = []\<rparr> IPv4Datagram_new (ipv4_address 2) = Inr ni1
     \<and> ni_ARP_queue ni1 = [(IPv4Datagram_new, ipv4_address 2)]
     \<and> NetworkInterface_send_datagram ni1 (IPv4Datagram_new\<lparr>dg_payload := [Buffer_of [1]]\<rparr>) (ipv4_address 2) = Inr ni1"
proof -
  let ?ni = "\<lparr>ni_ethernet_address = [2, 0, 0, 0, 0, 1], ni_ip_address = ipv4_address 1,
       ni_frames_out = [], ni_mapping_cache = [], ni_ARP_queue = []\<rparr>"
  obtain bs where "ARPMessage_serialize (ARP_request (ni_ethernet_address ?ni) 1 2) = Inr bs"
    using ARP_serialize_ok(1) by blast
  from send_unresolved [OF _ _ this] obtain ni1 where
    ni1: "NetworkInterface_send_datagram ?ni IPv4Datagram_new (ipv4_address 2) = Inr ni1"
    by (auto simp: std_map_find_def)
  have "std_map_find (ni_mapping_cache ?ni) 2 = None" by (simp add: std_map_find_def)
  from NetworkInterface_drops_while_pending [OF _ ipv4_numeric_address this ni1] ni1 show ?thesis by auto
qed

end
