(* ===== verification/Router.thy ===== *)
theory Router
  imports Network_Interface
begin

text \<open>
  \<open>libsponge/router.cc\<close>: a router over a vector of asynchronous network interfaces. The
  lemmas show that the selection loop computes the longest-prefix match, and that \<open>route()\<close>
  empties the queue of every interface.
\<close>

section \<open>State and operations\<close>

record AsyncNetworkInterface =
  an_interface :: NetworkInterface
  an_datagrams_out :: "IPv4Datagram list"

definition AsyncNetworkInterface_of :: "NetworkInterface \<Rightarrow> AsyncNetworkInterface" where
  "AsyncNetworkInterface_of interface = \<lparr>an_interface = interface, an_datagrams_out = []\<rparr>"

definition AsyncNetworkInterface_recv_frame ::
  "AsyncNetworkInterface \<Rightarrow> EthernetFrame \<Rightarrow> AsyncNetworkInterface result" where
  "AsyncNetworkInterface_recv_frame an frame =
     result_map (\<lambda>(optional_dgram, interface).
         an\<lparr>an_interface := interface,
            an_datagrams_out := (case optional_dgram of None \<Rightarrow> an_datagrams_out an
                                 | Some dgram \<Rightarrow> an_datagrams_out an @ [dgram])\<rparr>)
       (NetworkInterface_recv_frame (an_interface an) frame)"

text \<open>A route: prefix, prefix length, next hop if any, interface number.\<close>

type_synonym route = "u32 \<times> u8 \<times> Address option \<times> size_t"

record Router =
  rt_interfaces :: "AsyncNetworkInterface list"
  rt_routing_table :: "route list"

definition Router_new :: Router where
  "Router_new = \<lparr>rt_interfaces = [], rt_routing_table = []\<rparr>"

definition Router_add_interface :: "Router \<Rightarrow> AsyncNetworkInterface \<Rightarrow> size_t \<times> Router" where
  "Router_add_interface r interface =
     (let r = r\<lparr>rt_interfaces := rt_interfaces r @ [interface]\<rparr>
      in (list_size (rt_interfaces r) - 1, r))"

text \<open>\<open>interface(N)\<close>, through the bounds check of \<open>at\<close>.\<close>

definition Router_interface :: "Router \<Rightarrow> size_t \<Rightarrow> AsyncNetworkInterface result" where
  "Router_interface r N =
     (if unat N < length (rt_interfaces r) then Inr (rt_interfaces r ! unat N) else Inl Out_of_range)"

text \<open>The call with the line it prints on \<open>cerr\<close>.\<close>

definition Router_add_route ::
  "getnameinfo_fun \<Rightarrow> (int \<Rightarrow> string) \<Rightarrow> Router \<Rightarrow> u32 \<Rightarrow> u8 \<Rightarrow> Address option \<Rightarrow> size_t \<Rightarrow> (string \<times> Router) result" where
  "Router_add_route getnameinfo gai_strerror r route_prefix prefix_length next_hop interface_num =
     result_bind (result_bind (Address_from_ipv4_numeric route_prefix) (Address_ip getnameinfo gai_strerror)) (\<lambda>prefix_text.
     result_map (\<lambda>hop_text.
         (''DEBUG: adding route '' @ prefix_text @ ''/'' @ print_dec (unat prefix_length) @ '' => '' @ hop_text
            @ '' on interface '' @ print_dec (unat interface_num) @ [CHR 0x0A],
          r\<lparr>rt_routing_table := rt_routing_table r @ [(route_prefix, prefix_length, next_hop, interface_num)]\<rparr>))
       (case next_hop of Some a \<Rightarrow> Address_ip getnameinfo gai_strerror a | None \<Rightarrow> Inr ''(direct)''))"

text \<open>
  \<open>~((1 << (32 - prefix_length)) - 1)\<close> over \<open>int\<close>: the shift is undefined for lengths above
  32, and for length 1 the subtraction overflows below the least \<open>int\<close>.
\<close>

definition route_mask :: "u8 \<Rightarrow> u32 result" where
  "route_mask prefix_length =
     (if prefix_length = 0 then Inr 0
      else if prefix_length > 32 \<or> prefix_length = 1 then Inl Undefined_behaviour
      else Inr (NOT (push_bit (32 - unat prefix_length) 1 - 1)))"

text \<open>The loop over the table, with the best match and its length so far.\<close>

primrec Router_match_loop :: "u32 \<Rightarrow> route list \<Rightarrow> route \<times> int \<Rightarrow> (route \<times> int) result" where
  "Router_match_loop dst [] best = Inr best"
| "Router_match_loop dst (i # table) best =
     (let prefix_length = fst (snd i)
      in result_bind (route_mask prefix_length) (\<lambda>mask.
         if dst AND mask = fst i \<and> uint prefix_length > snd best
         then Router_match_loop dst table (i, uint prefix_length)
         else Router_match_loop dst table best))"

definition Router_send :: "Router \<Rightarrow> size_t \<Rightarrow> IPv4Datagram \<Rightarrow> Address \<Rightarrow> Router result" where
  "Router_send r interface_num dgram next_hop =
     result_bind (Router_interface r interface_num) (\<lambda>an.
     result_map (\<lambda>ni. r\<lparr>rt_interfaces := (rt_interfaces r)[unat interface_num := an\<lparr>an_interface := ni\<rparr>]\<rparr>)
       (NetworkInterface_send_datagram (an_interface an) dgram next_hop))"

definition Router_route_one_datagram :: "Router \<Rightarrow> IPv4Datagram \<Rightarrow> Router result" where
  "Router_route_one_datagram r dgram =
     (if ip_ttl (dg_header dgram) \<le> 1 then Inr r
      else
        let dgram = dgram\<lparr>dg_header := (dg_header dgram)\<lparr>ip_ttl := ip_ttl (dg_header dgram) - 1\<rparr>\<rparr>;
            dgram_dst_addr = ip_dst (dg_header dgram)
        in result_bind (Router_match_loop dgram_dst_addr (rt_routing_table r) ((0, 0, None, 0), - 1))
             (\<lambda>(longest_prefix_match, longest_prefix_len).
                if longest_prefix_len = - 1 then Inr r
                else
                  let (_, _, next_hop, interface_num) = longest_prefix_match
                  in case next_hop of
                       Some a \<Rightarrow> Router_send r interface_num dgram a
                     | None \<Rightarrow> result_bind (Address_from_ipv4_numeric dgram_dst_addr)
                                 (Router_send r interface_num dgram)))"

section \<open>Routing every datagram\<close>

definition waiting :: "Router \<Rightarrow> nat \<Rightarrow> IPv4Datagram list" where
  "waiting r i = (if i < length (rt_interfaces r) then an_datagrams_out (rt_interfaces r ! i) else [])"

definition Router_pop :: "Router \<Rightarrow> nat \<Rightarrow> Router" where
  "Router_pop r i =
     r\<lparr>rt_interfaces := (rt_interfaces r)[i := (rt_interfaces r ! i)\<lparr>an_datagrams_out := tl (waiting r i)\<rparr>]\<rparr>"

text \<open>Routing a datagram changes no queue of received datagrams.\<close>

lemma send_keeps_queues:
  assumes "Router_send r n dgram a = Inr r'"
  shows "map an_datagrams_out (rt_interfaces r') = map an_datagrams_out (rt_interfaces r)"
  using assms
  by (auto simp: Router_send_def Router_interface_def result_bind_Inr_iff result_map_Inr_iff map_update list_update_same_conv
      split: if_splits)

lemma route_one_keeps_queues:
  assumes "Router_route_one_datagram r dgram = Inr r'"
  shows "map an_datagrams_out (rt_interfaces r') = map an_datagrams_out (rt_interfaces r)"
  using assms send_keeps_queues
  by (auto simp: Router_route_one_datagram_def result_bind_Inr_iff Let_def split: if_splits prod.splits option.splits)

lemma waiting_cong:
  assumes "map an_datagrams_out (rt_interfaces r') = map an_datagrams_out (rt_interfaces r)"
  shows "waiting r' i = waiting r i"
  using assms map_eq_imp_length_eq [OF assms] by (auto simp: waiting_def) (metis nth_map)

lemma waiting_pop: "waiting (Router_pop r i) j = (if j = i then tl (waiting r i) else waiting r j)"
  by (auto simp: waiting_def Router_pop_def nth_list_update)

text \<open>The inner loop, which ends because the queue it pops from is not filled.\<close>

function Router_drain :: "nat \<Rightarrow> Router \<Rightarrow> Router result" where
  "Router_drain i r =
     (case waiting r i of
        [] \<Rightarrow> Inr r
      | dgram # _ \<Rightarrow>
          (case Router_route_one_datagram r dgram of
             Inl e \<Rightarrow> Inl e
           | Inr r' \<Rightarrow> Router_drain i (Router_pop r' i)))"
  by auto
termination
proof (relation "measure (\<lambda>(i, r). length (waiting r i))")
  show "wf (measure (\<lambda>(i, r). length (waiting r i)))" by simp
next
  fix i r dgram q r'
  assume q: "waiting r i = dgram # q" and r': "Router_route_one_datagram r dgram = Inr r'"
  have "waiting (Router_pop r' i) i = q"
    using q waiting_cong [OF route_one_keeps_queues [OF r']] by (simp add: waiting_pop)
  then show "((i, Router_pop r' i), (i, r)) \<in> measure (\<lambda>(i, r). length (waiting r i))" using q by simp
qed

declare Router_drain.simps [simp del]

definition Router_route :: "Router \<Rightarrow> Router result" where
  "Router_route r = fold (\<lambda>i res. result_bind res (Router_drain i)) [0..<length (rt_interfaces r)] (Inr r)"

section \<open>The longest-prefix match\<close>

text \<open>
  The documented meaning of a route: the destination agrees with the prefix in the
  \<open>prefix_length\<close> most significant bits. A prefix is canonical when its other bits are zero.
\<close>

definition route_length :: "route \<Rightarrow> nat" where
  "route_length i = unat (fst (snd i))"

definition route_matches :: "u32 \<Rightarrow> route \<Rightarrow> bool" where
  "route_matches dst i \<longleftrightarrow> drop_bit (32 - route_length i) dst = drop_bit (32 - route_length i) (fst i)"

definition route_canonical :: "route \<Rightarrow> bool" where
  "route_canonical i \<longleftrightarrow> route_length i \<noteq> 1 \<and> route_length i \<le> 32 \<and> take_bit (32 - route_length i) (fst i) = 0"

text \<open>The reference: among the routes that match, the first one of the greatest length.\<close>

definition best_route :: "u32 \<Rightarrow> route list \<Rightarrow> route option" where
  "best_route dst table =
     (let matching = filter (route_matches dst) table
      in if matching = [] then None
         else find (\<lambda>i. route_length i = Max (set (map route_length matching))) matching)"

lemma mask_matches:
  assumes "route_canonical i"
  shows "\<exists>m. route_mask (fst (snd i)) = Inr m \<and> (dst AND m = fst i \<longleftrightarrow> route_matches dst i)"
proof -
  define k where "k = 32 - route_length i"
  have split: "x = y \<longleftrightarrow> drop_bit k x = drop_bit k y \<and> take_bit k x = take_bit k y" for x y :: u32
    by (metis bits_ident)
  have m: "take_bit k (dst AND NOT (mask k)) = 0" "drop_bit k (dst AND NOT (mask k)) = drop_bit k dst"
    by (rule bit_word_eqI; auto simp: bit_simps dest: bit_imp_le_length)+
  show ?thesis
  proof (cases "fst (snd i) = 0")
    case True
    then have "k = 32" "fst i = 0"
      using assms take_bit_word_eq_self [of 32 "fst i"] by (simp_all add: k_def route_canonical_def route_length_def)
    then show ?thesis using True by (simp add: route_mask_def route_matches_def k_def [symmetric])
  next
    case False
    have "\<not> (fst (snd i) > 32 \<or> fst (snd i) = 1)"
      using assms by (auto simp: route_canonical_def route_length_def word_less_nat_alt)
    with False have "route_mask (fst (snd i)) = Inr (NOT (mask k))"
      by (simp add: route_mask_def k_def route_length_def mask_eq_exp_minus_1 push_bit_eq_mult)
    moreover have "dst AND NOT (mask k) = fst i \<longleftrightarrow> route_matches dst i"
      using assms m by (simp add: split [of _ "fst i"] route_matches_def route_canonical_def k_def)
    ultimately show ?thesis by blast
  qed
qed

text \<open>What the loop returns when it starts with a match of length \<open>l\<close>.\<close>

definition improve :: "route \<times> int \<Rightarrow> route list \<Rightarrow> route \<times> int" where
  "improve best ms =
     (if \<forall>i \<in> set ms. int (route_length i) \<le> snd best then best
      else let l = Max (set (map route_length ms))
           in (the (find (\<lambda>i. route_length i = l) ms), int l))"

lemma improve_skip: "int (route_length i) \<le> snd best \<Longrightarrow> improve best (i # ms) = improve best ms"
proof (cases "\<forall>i \<in> set ms. int (route_length i) \<le> snd best")
  case False
  assume i: "int (route_length i) \<le> snd best"
  from False obtain j where j: "j \<in> set ms" "\<not> int (route_length j) \<le> snd best" by blast
  then have "route_length j \<le> Max (set (map route_length ms))" by (intro Max_ge) auto
  with i j have "route_length i < Max (set (map route_length ms))" by linarith
  moreover from j have "set (map route_length ms) \<noteq> {}" by auto
  ultimately show ?thesis using False by (auto simp: improve_def Let_def max_def)
qed (simp add: improve_def)

lemma improve_take:
  assumes "snd best < int (route_length i)"
  shows "improve best (i # ms) = improve (i, int (route_length i)) ms"
proof (cases "\<forall>j \<in> set ms. route_length j \<le> route_length i")
  case True
  then have "Max (insert (route_length i) (route_length ` set ms)) = route_length i" by (intro Max_eqI) auto
  with True assms show ?thesis by (simp add: improve_def)
next
  case False
  then obtain j where j: "j \<in> set ms" "\<not> route_length j \<le> route_length i" by blast
  then have "route_length j \<le> Max (set (map route_length ms))" by (intro Max_ge) auto
  with j have "route_length i < Max (set (map route_length ms))" by linarith
  moreover from j have "set (map route_length ms) \<noteq> {}" by auto
  ultimately show ?thesis using False assms by (auto simp: improve_def Let_def max_def)
qed

lemma match_loop_improves:
  "\<forall>i \<in> set table. route_canonical i \<Longrightarrow>
     Router_match_loop dst table best = Inr (improve best (filter (route_matches dst) table))"
proof (induction table arbitrary: best)
  case Nil
  then show ?case by (simp add: improve_def)
next
  case (Cons i table)
  then obtain m where m: "route_mask (fst (snd i)) = Inr m" "dst AND m = fst i \<longleftrightarrow> route_matches dst i"
    using mask_matches [of i dst] by auto
  have l: "uint (fst (snd i)) = int (route_length i)" by (simp add: route_length_def)
  show ?case
    using Cons improve_skip [of i best] improve_take [of best i] by (auto simp: m l Let_def not_less)
qed

lemma match_loop_best:
  assumes "\<forall>i \<in> set table. route_canonical i"
  shows "\<exists>b l. Router_match_loop dst table (none, - 1) = Inr (b, l)
     \<and> (case best_route dst table of None \<Rightarrow> l = - 1 | Some i \<Rightarrow> b = i \<and> l \<noteq> - 1)"
proof (cases "filter (route_matches dst) table = []")
  case True
  have "Router_match_loop dst table (none, - 1) = Inr (none, - 1)"
    using match_loop_improves [OF assms, of dst "(none, - 1)"] unfolding True by (simp add: improve_def)
  moreover have "best_route dst table = None" unfolding best_route_def True by simp
  ultimately show ?thesis by (intro exI [of _ none] exI [of _ "- 1"]) simp
next
  case False
  let ?ms = "filter (route_matches dst) table"
  let ?l = "Max (set (map route_length ?ms))"
  have "?l \<in> set (map route_length ?ms)" using False by (intro Max_in) (simp_all only: list.set_map image_is_empty set_empty finite_set finite_imageI not_False_eq_True)
  then obtain j where "j \<in> set ?ms" "route_length j = ?l" by (metis (no_types, lifting) imageE list.set_map)
  then have "find (\<lambda>i. route_length i = ?l) ?ms \<noteq> None" unfolding find_None_iff by blast
  then obtain i where "find (\<lambda>i. route_length i = ?l) ?ms = Some i" by blast
  moreover from this have "best_route dst table = Some i" using False by (simp add: best_route_def)
  moreover have "\<not> (\<forall>i \<in> set ?ms. int (route_length i) \<le> - 1)" 
  proof
    assume "\<forall>i \<in> set ?ms. int (route_length i) \<le> - 1"
    from bspec [OF this hd_in_set [OF False]] show False by simp
  qed
  ultimately show ?thesis using match_loop_improves [OF assms, of dst "(none, - 1)"]
    by (intro exI [of _ i] exI [of _ "int ?l"]) (simp add: improve_def Let_def)
qed

text \<open>A prefix with other bits set never matches, whatever the destination.\<close>

lemma noncanonical_never_matches:
  assumes "take_bit (32 - route_length i) (fst i) \<noteq> 0" and "route_mask (fst (snd i)) = Inr m"
  shows "dst AND m \<noteq> fst i"
proof (cases "fst (snd i) = 0")
  case True
  then show ?thesis using assms by (auto simp: route_mask_def)
next
  case False
  then have "m = NOT (mask (32 - route_length i))"
    using assms(2) by (simp add: route_mask_def route_length_def mask_eq_exp_minus_1 push_bit_eq_mult split: if_splits)
  then have "take_bit (32 - route_length i) (dst AND m) = 0"
    by (simp only:) (rule bit_word_eqI, auto simp: bit_simps)
  with assms(1) show ?thesis by metis
qed

section \<open>What \<open>route()\<close> leaves\<close>

lemma drain_empties:
  "Router_drain i r = Inr r' \<Longrightarrow>
     waiting r' i = [] \<and> length (rt_interfaces r') = length (rt_interfaces r) \<and> (\<forall>j. j \<noteq> i \<longrightarrow> waiting r' j = waiting r j)"
proof (induction i r rule: Router_drain.induct)
  case (1 i r)
  show ?case
  proof (cases "waiting r i")
    case Nil
    then show ?thesis using 1(2) by (simp add: Router_drain.simps)
  next
    case (Cons dgram q)
    then obtain r1 where r1: "Router_route_one_datagram r dgram = Inr r1" "Router_drain i (Router_pop r1 i) = Inr r'"
      using 1(2) by (subst (asm) Router_drain.simps) (auto split: sum.splits)
    note k = route_one_keeps_queues [OF r1(1)]
    have "length (rt_interfaces (Router_pop r1 i)) = length (rt_interfaces r)"
      using map_eq_imp_length_eq [OF k] by (simp add: Router_pop_def)
    moreover have "waiting (Router_pop r1 i) j = waiting r j" if "j \<noteq> i" for j
      using that waiting_cong [OF k] by (simp add: waiting_pop)
    ultimately show ?thesis using 1(1) [OF Cons r1(1) r1(2)] by simp
  qed
qed

lemma route_empties:
  assumes "Router_route r = Inr r'"
  shows "waiting r' i = []"
proof -
  have "fold (\<lambda>i res. result_bind res (Router_drain i)) [0..<n] (Inr r) = Inr r' \<Longrightarrow>
      length (rt_interfaces r') = length (rt_interfaces r) \<and> (\<forall>i < n. waiting r' i = [])" for n r'
  proof (induction n arbitrary: r')
    case (Suc n)
    then obtain r1 where r1: "fold (\<lambda>i res. result_bind res (Router_drain i)) [0..<n] (Inr r) = Inr r1"
        "Router_drain n r1 = Inr r'"
      by (auto simp: result_bind_Inr_iff)
    from Suc.IH [OF r1(1)] drain_empties [OF r1(2)] show ?case by (metis less_antisym)
  qed simp
  from this [OF assms [unfolded Router_route_def]] show ?thesis
    by (cases "i < length (rt_interfaces r)") (fastforce, simp add: waiting_def)
qed

section \<open>Properties\<close>

text \<open>
  C38. Over a routing table whose prefixes have no bits outside their length (and no length of
  1, for which the mask is undefined), forwarding a datagram is longest-prefix-match routing:
  a datagram with a time to live of at most one is dropped, and so is one that no route
  matches; any other goes out, with its time to live decremented, on the interface of the
  route with the greatest length among those whose prefix agrees with the destination in that
  many leading bits, to that route's next hop or, without one, to the destination itself.
\<close>

theorem Router_longest_prefix_match:
  assumes "\<forall>i \<in> set (rt_routing_table r). route_canonical i"
  shows "Router_route_one_datagram r dgram =
     (if ip_ttl (dg_header dgram) \<le> 1 then Inr r
      else case best_route (ip_dst (dg_header dgram)) (rt_routing_table r) of
          None \<Rightarrow> Inr r
        | Some (_, _, next_hop, interface_num) \<Rightarrow>
            Router_send r interface_num
              (dgram\<lparr>dg_header := (dg_header dgram)\<lparr>ip_ttl := ip_ttl (dg_header dgram) - 1\<rparr>\<rparr>)
              (case next_hop of Some a \<Rightarrow> a | None \<Rightarrow> ipv4_address (ip_dst (dg_header dgram))))"
proof -
  obtain b l where "Router_match_loop (ip_dst (dg_header dgram)) (rt_routing_table r) ((0, 0, None, 0), - 1) = Inr (b, l)"
      "case best_route (ip_dst (dg_header dgram)) (rt_routing_table r) of None \<Rightarrow> l = - 1 | Some i \<Rightarrow> b = i \<and> l \<noteq> - 1"
    using match_loop_best [OF assms] by blast
  then show ?thesis
    by (auto simp: Router_route_one_datagram_def Let_def from_ipv4_numeric_eq split: option.splits prod.splits)
qed

theorem Router_longest_prefix_match_witness:
  "Router_route_one_datagram \<lparr>rt_interfaces = [], rt_routing_table =
       [(0x0a000000, 8, None, 0), (0x0a000100, 24, None, 1), (0, 0, None, 2)]\<rparr>
     (IPv4Datagram_new\<lparr>dg_header := IPv4Header_new\<lparr>ip_dst := 0x0a000105\<rparr>\<rparr>) =
   Router_send \<lparr>rt_interfaces = [], rt_routing_table =
       [(0x0a000000, 8, None, 0), (0x0a000100, 24, None, 1), (0, 0, None, 2)]\<rparr> 1
     (IPv4Datagram_new\<lparr>dg_header := IPv4Header_new\<lparr>ip_dst := 0x0a000105, ip_ttl := 127\<rparr>\<rparr>) (ipv4_address 0x0a000105)"
proof -
  let ?t = "[(0x0a000000, 8, None, 0), (0x0a000100, 24, None, 1), (0, 0, None, 2)] :: route list"
  let ?r = "\<lparr>rt_interfaces = [], rt_routing_table = ?t\<rparr>"
  let ?d = "IPv4Datagram_new\<lparr>dg_header := IPv4Header_new\<lparr>ip_dst := 0x0a000105\<rparr>\<rparr>"
  have 1: "\<forall>i \<in> set (rt_routing_table ?r). route_canonical i"
      "best_route (ip_dst (dg_header ?d)) (rt_routing_table ?r) = Some (0x0a000100, 24, None, 1)"
      "\<not> ip_ttl (dg_header ?d) \<le> 1"
    by code_simp+
  have 2: "?d\<lparr>dg_header := (dg_header ?d)\<lparr>ip_ttl := ip_ttl (dg_header ?d) - 1\<rparr>\<rparr> =
      IPv4Datagram_new\<lparr>dg_header := IPv4Header_new\<lparr>ip_dst := 0x0a000105, ip_ttl := 127\<rparr>\<rparr>"
    by (simp add: IPv4Header_new_def DEFAULT_TTL_def)
  from Router_longest_prefix_match [OF 1(1), of ?d, unfolded 1(2) 2] 1(3) show ?thesis by simp
qed

end
