(* ===== verification/TCP_Over_IP.thy ===== *)
theory TCP_Over_IP
  imports TCP_Segment Router
begin

text \<open>
  The adapters that carry segments (\<open>tcp_helpers/tcp_over_ip.cc\<close>, \<open>fd_adapter.cc\<close>,
  \<open>tuntap_adapter.cc\<close>, \<open>lossy_fd_adapter.hh\<close>). What a read from the device or socket
  returned is an argument of the model, and what is written is part of the result. The
  resolver of the C library and the random generator are parameters. The interface
  that a lossy adapter relies on is the locale \<open>segment_channel\<close>, interpreted on the
  adapters over TUN and over UDP.
\<close>

section \<open>State and configuration\<close>

record resolver =
  rs_getaddrinfo :: getaddrinfo_fun
  rs_getnameinfo :: getnameinfo_fun
  rs_gai_strerror :: "int \<Rightarrow> string"

abbreviation resolve_ip :: "resolver \<Rightarrow> string \<Rightarrow> u16 \<Rightarrow> Address result" where
  "resolve_ip rs \<equiv> Address_of_ip (rs_getaddrinfo rs) (rs_gai_strerror rs)"

abbreviation port_of :: "resolver \<Rightarrow> Address \<Rightarrow> u16 result" where
  "port_of rs \<equiv> Address_port (rs_getnameinfo rs) (rs_gai_strerror rs)"

record FdAdapterConfig =
  fc_source :: Address
  fc_destination :: Address
  fc_loss_rate_dn :: u16
  fc_loss_rate_up :: u16

definition FdAdapterConfig_new :: "resolver \<Rightarrow> FdAdapterConfig result" where
  "FdAdapterConfig_new rs =
     result_bind (resolve_ip rs ''0'' 0) (\<lambda>source.
     result_map (\<lambda>destination. \<lparr>fc_source = source, fc_destination = destination, fc_loss_rate_dn = 0, fc_loss_rate_up = 0\<rparr>)
       (resolve_ip rs ''0'' 0))"

record FdAdapterBase =
  fa_cfg :: FdAdapterConfig
  fa_listen :: bool

definition FdAdapterBase_set_listening :: "FdAdapterBase \<Rightarrow> bool \<Rightarrow> FdAdapterBase" where
  "FdAdapterBase_set_listening a l = a\<lparr>fa_listen := l\<rparr>"

definition FdAdapterBase_tick :: "FdAdapterBase \<Rightarrow> size_t \<Rightarrow> FdAdapterBase" where
  "FdAdapterBase_tick a ms = a"

section \<open>TCP in IPv4\<close>

text \<open>The last steps of \<open>unwrap_tcp_in_ip\<close>, for a segment that was parsed.\<close>

definition TCPOverIPv4Adapter_accept ::
  "resolver \<Rightarrow> FdAdapterBase \<Rightarrow> IPv4Datagram \<Rightarrow> TCPSegment \<Rightarrow> (TCPSegment option \<times> FdAdapterBase) result" where
  "TCPOverIPv4Adapter_accept rs a ip_dgram tcp_seg =
     result_bind (port_of rs (fc_source (fa_cfg a))) (\<lambda>source_port.
       if th_dport (seg_header tcp_seg) \<noteq> source_port then Inr (None, a)
       else if fa_listen a \<and> \<not> (th_syn (seg_header tcp_seg) \<and> \<not> th_rst (seg_header tcp_seg)) then Inr (None, a)
       else
         result_bind
           (if fa_listen a
            then
              result_bind (resolve_ip rs (inet_ntoa (ip_dst (dg_header ip_dgram))) source_port) (\<lambda>source.
              result_map (\<lambda>destination.
                  FdAdapterBase_set_listening
                    (a\<lparr>fa_cfg := (fa_cfg a)\<lparr>fc_source := source, fc_destination := destination\<rparr>\<rparr>) False)
                (resolve_ip rs (inet_ntoa (ip_src (dg_header ip_dgram))) (th_sport (seg_header tcp_seg))))
            else Inr a)
           (\<lambda>a. result_map (\<lambda>destination_port.
              (if th_sport (seg_header tcp_seg) \<noteq> destination_port then None else Some tcp_seg, a))
              (port_of rs (fc_destination (fa_cfg a)))))"

definition TCPOverIPv4Adapter_unwrap_tcp_in_ip ::
  "resolver \<Rightarrow> FdAdapterBase \<Rightarrow> IPv4Datagram \<Rightarrow> (TCPSegment option \<times> FdAdapterBase) result" where
  "TCPOverIPv4Adapter_unwrap_tcp_in_ip rs a ip_dgram =
     result_bind
       (if fa_listen a then Inr False
        else result_map (\<lambda>n. ip_dst (dg_header ip_dgram) \<noteq> n) (Address_ipv4_numeric (fc_source (fa_cfg a))))
       (\<lambda>not_for_us.
     if not_for_us then Inr (None, a)
     else result_bind
       (if fa_listen a then Inr False
        else result_map (\<lambda>n. ip_src (dg_header ip_dgram) \<noteq> n) (Address_ipv4_numeric (fc_destination (fa_cfg a))))
       (\<lambda>not_from_peer.
     if not_from_peer then Inr (None, a)
     else if ip_proto (dg_header ip_dgram) \<noteq> PROTO_TCP then Inr (None, a)
     else
       result_bind (BufferList_to_Buffer (dg_payload ip_dgram)) (\<lambda>buffer.
       result_bind (TCPSegment_parse TCPSegment_new buffer (IPv4Header_pseudo_cksum (dg_header ip_dgram))) (\<lambda>(res, tcp_seg).
         if res \<noteq> NoError then Inr (None, a)
         else TCPOverIPv4Adapter_accept rs a ip_dgram tcp_seg))))"

text \<open>The caller's segment gets its port numbers.\<close>

definition TCPOverIPv4Adapter_wrap_tcp_in_ip ::
  "resolver \<Rightarrow> FdAdapterBase \<Rightarrow> TCPSegment \<Rightarrow> (IPv4Datagram \<times> TCPSegment) result" where
  "TCPOverIPv4Adapter_wrap_tcp_in_ip rs a seg =
     result_bind (port_of rs (fc_source (fa_cfg a))) (\<lambda>sport.
     result_bind (port_of rs (fc_destination (fa_cfg a))) (\<lambda>dport.
     let seg = seg\<lparr>seg_header := (seg_header seg)\<lparr>th_sport := sport, th_dport := dport\<rparr>\<rparr>
     in result_bind (Address_ipv4_numeric (fc_source (fa_cfg a))) (\<lambda>src.
        result_bind (Address_ipv4_numeric (fc_destination (fa_cfg a))) (\<lambda>dst.
        let header = IPv4Header_new\<lparr>ip_src := src, ip_dst := dst,
              ip_len := ucast (ucast (ip_hlen IPv4Header_new) * 4 + ucast (th_doff (seg_header seg)) * 4
                               + Buffer_size (seg_payload seg) :: size_t)\<rparr>
        in result_map (\<lambda>payload. (\<lparr>dg_header = header, dg_payload = payload\<rparr>, seg))
             (TCPSegment_serialize seg (IPv4Header_pseudo_cksum header))))))"

section \<open>The adapters\<close>

text \<open>Over a TUN device: \<open>bs\<close> is the string \<open>_tun.read()\<close> returned.\<close>

definition TunAdapter_read :: "resolver \<Rightarrow> bytes \<Rightarrow> FdAdapterBase \<Rightarrow> (TCPSegment option \<times> FdAdapterBase) result" where
  "TunAdapter_read rs bs a =
     result_bind (IPv4Datagram_parse IPv4Datagram_new (Buffer_of bs)) (\<lambda>(res, ip_dgram).
       if res \<noteq> NoError then Inr (None, a)
       else TCPOverIPv4Adapter_unwrap_tcp_in_ip rs a ip_dgram)"

definition TunAdapter_write :: "resolver \<Rightarrow> FdAdapterBase \<Rightarrow> TCPSegment \<Rightarrow> (BufferList \<times> TCPSegment) result" where
  "TunAdapter_write rs a seg =
     result_bind (TCPOverIPv4Adapter_wrap_tcp_in_ip rs a seg) (\<lambda>(ip_dgram, seg).
       result_map (\<lambda>bl. (bl, seg)) (IPv4Datagram_serialize ip_dgram))"

text \<open>Over Ethernet on a TAP device.\<close>

record TapAdapter =
  ta_base :: FdAdapterBase
  ta_interface :: NetworkInterface
  ta_next_hop :: Address

definition TapAdapter_new ::
  "resolver \<Rightarrow> FdAdapterBase \<Rightarrow> EthernetAddress \<Rightarrow> Address \<Rightarrow> Address \<Rightarrow> (BufferList list \<times> TapAdapter) result" where
  "TapAdapter_new rs base eth_address ip_address next_hop =
     result_map (\<lambda>(_, interface). ([EthernetFrame_serialize EthernetFrame_new],
         \<lparr>ta_base = base, ta_interface = interface, ta_next_hop = next_hop\<rparr>))
       (NetworkInterface_new (rs_getnameinfo rs) (rs_gai_strerror rs) eth_address ip_address)"

text \<open>The loop of \<open>send_pending\<close>: what is written, and the queue that is left.\<close>

primrec TapAdapter_pending :: "EthernetFrame list \<Rightarrow> BufferList list \<times> EthernetFrame list" where
  "TapAdapter_pending [] = ([], [])"
| "TapAdapter_pending (frame # frames) =
     (let (out, rest) = TapAdapter_pending frames in (EthernetFrame_serialize frame # out, rest))"

definition TapAdapter_send_pending :: "TapAdapter \<Rightarrow> BufferList list \<times> TapAdapter" where
  "TapAdapter_send_pending ta =
     (let (out, rest) = TapAdapter_pending (ni_frames_out (ta_interface ta))
      in (out, ta\<lparr>ta_interface := (ta_interface ta)\<lparr>ni_frames_out := rest\<rparr>\<rparr>))"

definition TapAdapter_read ::
  "resolver \<Rightarrow> bytes \<Rightarrow> TapAdapter \<Rightarrow> (TCPSegment option \<times> BufferList list \<times> TapAdapter) result" where
  "TapAdapter_read rs bs ta =
     result_bind (EthernetFrame_parse EthernetFrame_new (Buffer_of bs)) (\<lambda>(res, frame).
       if res \<noteq> NoError then Inr (None, [], ta)
       else result_bind (NetworkInterface_recv_frame (ta_interface ta) frame) (\<lambda>(ip_dgram, interface).
         let (out, ta) = TapAdapter_send_pending (ta\<lparr>ta_interface := interface\<rparr>)
         in case ip_dgram of
              None \<Rightarrow> Inr (None, out, ta)
            | Some dgram \<Rightarrow> result_map (\<lambda>(seg, base). (seg, out, ta\<lparr>ta_base := base\<rparr>))
                              (TCPOverIPv4Adapter_unwrap_tcp_in_ip rs (ta_base ta) dgram)))"

definition TapAdapter_tick :: "TapAdapter \<Rightarrow> size_t \<Rightarrow> BufferList list \<times> TapAdapter" where
  "TapAdapter_tick ta ms_since_last_tick =
     TapAdapter_send_pending (ta\<lparr>ta_interface := NetworkInterface_tick (ta_interface ta) ms_since_last_tick\<rparr>)"

definition TapAdapter_write :: "resolver \<Rightarrow> TapAdapter \<Rightarrow> TCPSegment \<Rightarrow> (BufferList list \<times> TCPSegment \<times> TapAdapter) result" where
  "TapAdapter_write rs ta seg =
     result_bind (TCPOverIPv4Adapter_wrap_tcp_in_ip rs (ta_base ta) seg) (\<lambda>(dgram, seg).
     result_map (\<lambda>interface.
         let (out, ta) = TapAdapter_send_pending (ta\<lparr>ta_interface := interface\<rparr>) in (out, seg, ta))
       (NetworkInterface_send_datagram (ta_interface ta) dgram (ta_next_hop ta)))"

text \<open>
  Over a UDP socket: the received datagram is its source address and payload, the sent one
  its destination and buffers.
\<close>

definition UDPAdapter_read ::
  "Address \<times> bytes \<Rightarrow> FdAdapterBase \<Rightarrow> (TCPSegment option \<times> FdAdapterBase) result" where
  "UDPAdapter_read datagram a =
     (if \<not> fa_listen a \<and> \<not> Address_eq (fst datagram) (fc_destination (fa_cfg a)) then Inr (None, a)
      else
        result_map (\<lambda>(res, seg).
            if res \<noteq> NoError then (None, a)
            else if fa_listen a
            then (if th_syn (seg_header seg) \<and> \<not> th_rst (seg_header seg)
                  then (Some seg, FdAdapterBase_set_listening (a\<lparr>fa_cfg := (fa_cfg a)\<lparr>fc_destination := fst datagram\<rparr>\<rparr>) False)
                  else (None, a))
            else (Some seg, a))
          (TCPSegment_parse TCPSegment_new (Buffer_of (snd datagram)) 0))"

definition UDPAdapter_write ::
  "resolver \<Rightarrow> FdAdapterBase \<Rightarrow> TCPSegment \<Rightarrow> ((Address \<times> BufferList) \<times> TCPSegment) result" where
  "UDPAdapter_write rs a seg =
     result_bind (port_of rs (fc_source (fa_cfg a))) (\<lambda>sport.
     result_bind (port_of rs (fc_destination (fa_cfg a))) (\<lambda>dport.
     let seg = seg\<lparr>seg_header := (seg_header seg)\<lparr>th_sport := sport, th_dport := dport\<rparr>\<rparr>
     in result_map (\<lambda>bl. ((fc_destination (fa_cfg a), bl), seg)) (TCPSegment_serialize seg 0)))"

section \<open>The lossy adapter\<close>

text \<open>
  The wrapper over any adapter. \<open>rand\<close> is the random generator with its state; a number is
  drawn only when the loss rate is not zero.
\<close>

record ('g, 'a) LossyFdAdapter =
  lf_rand :: 'g
  lf_adapter :: 'a

definition LossyFdAdapter_should_drop ::
  "('g \<Rightarrow> u32 \<times> 'g) \<Rightarrow> ('a \<Rightarrow> FdAdapterConfig) \<Rightarrow> bool \<Rightarrow> ('g, 'a) LossyFdAdapter \<Rightarrow> bool \<times> ('g, 'a) LossyFdAdapter" where
  "LossyFdAdapter_should_drop rand config uplink lf =
     (let cfg = config (lf_adapter lf);
          loss = (if uplink then fc_loss_rate_up cfg else fc_loss_rate_dn cfg)
      in if loss = 0 then (False, lf)
         else let (v, g) = rand (lf_rand lf) in (ucast v < loss, lf\<lparr>lf_rand := g\<rparr>))"

definition LossyFdAdapter_read ::
  "('g \<Rightarrow> u32 \<times> 'g) \<Rightarrow> ('a \<Rightarrow> FdAdapterConfig) \<Rightarrow> ('a \<Rightarrow> ('s option \<times> 'a) result)
   \<Rightarrow> ('g, 'a) LossyFdAdapter \<Rightarrow> ('s option \<times> ('g, 'a) LossyFdAdapter) result" where
  "LossyFdAdapter_read rand config adapter_read lf =
     result_map (\<lambda>(ret, adapter).
         let (drop, lf) = LossyFdAdapter_should_drop rand config False (lf\<lparr>lf_adapter := adapter\<rparr>)
         in (if drop then None else ret, lf))
       (adapter_read (lf_adapter lf))"

text \<open>\<open>None\<close> stands for nothing written.\<close>

definition LossyFdAdapter_write ::
  "('g \<Rightarrow> u32 \<times> 'g) \<Rightarrow> ('a \<Rightarrow> FdAdapterConfig) \<Rightarrow> ('a \<Rightarrow> ('p \<times> 's \<times> 'a) result) \<Rightarrow> 's
   \<Rightarrow> ('g, 'a) LossyFdAdapter \<Rightarrow> ('p option \<times> 's \<times> ('g, 'a) LossyFdAdapter) result" where
  "LossyFdAdapter_write rand config adapter_write seg lf =
     (let (drop, lf) = LossyFdAdapter_should_drop rand config True lf
      in if drop then Inr (None, seg, lf)
         else result_map (\<lambda>(p, seg, adapter). (Some p, seg, lf\<lparr>lf_adapter := adapter\<rparr>))
                (adapter_write (lf_adapter lf)))"

definition LossyFdAdapter_tick :: "('a \<Rightarrow> 'a) \<Rightarrow> ('g, 'a) LossyFdAdapter \<Rightarrow> ('g, 'a) LossyFdAdapter" where
  "LossyFdAdapter_tick adapter_tick lf = lf\<lparr>lf_adapter := adapter_tick (lf_adapter lf)\<rparr>"

section \<open>What the resolver is relied on for\<close>

text \<open>
  With \<open>NI_NUMERICHOST | NI_NUMERICSERV\<close>, \<open>getnameinfo\<close> returns the address in dotted form
  and the port in decimal; with \<open>AI_NUMERICHOST | AI_NUMERICSERV\<close>, \<open>getaddrinfo\<close> reads them
  back.
\<close>

definition names_numeric :: "resolver \<Rightarrow> bool" where
  "names_numeric rs \<longleftrightarrow> (\<forall>n port.
     rs_getnameinfo rs (ad_storage (socket_address n port)) 16 = (0, inet_ntoa n, print_dec (unat port)))"

definition resolves_numeric :: "resolver \<Rightarrow> u32 \<Rightarrow> u16 \<Rightarrow> bool" where
  "resolves_numeric rs n port \<longleftrightarrow>
     rs_getaddrinfo rs (inet_ntoa n) (print_dec (unat port)) (make_hints (or AI_NUMERICHOST AI_NUMERICSERV) AF_INET) =
       (0, [(take 16 (ad_storage (socket_address n port)), 16)])"

lemma port_of_socket_address:
  assumes "names_numeric rs"
  shows "port_of rs (socket_address n port) = Inr port"
proof -
  have "unat port \<le> 0x7fffffff" using unsigned_less [of port, where ?'a = nat] by simp
  then have "stoi (print_dec (unat port)) = Inr (int (unat port))" by (rule stoi_print_dec)
  moreover have "ad_size (socket_address n port) = 16" by (simp add: socket_address_def)
  ultimately show ?thesis
    using assms print_dec_digits(1) [of "unat port"]
    by (simp add: Address_port_def Address_ip_port_def names_numeric_def c_str_digits)
qed

lemma c_str_inet_ntoa: "c_str (inet_ntoa n) = inet_ntoa n"
proof -
  have "CHR 0x00 \<notin> set (print_dec k)" for k using print_dec_digits(1) [of k] not_is_digit(1) by blast
  then have "CHR 0x00 \<notin> set (inet_ntoa n)" by (simp add: inet_ntoa_def)
  then show ?thesis unfolding c_str_def takeWhile_eq_all_conv by metis
qed

lemma resolve_socket_address:
  assumes "resolves_numeric rs n port"
  shows "resolve_ip rs (inet_ntoa n) port = Inr (socket_address n port)"
proof -
  have "take 16 (ad_storage (socket_address n port)) @ replicate 112 0 = ad_storage (socket_address n port)"
    by (simp add: socket_address_def replicate_add [symmetric])
  then have "Address_of_sockaddr (take 16 (ad_storage (socket_address n port))) 16 = Inr (socket_address n port)"
    by (simp add: Address_of_sockaddr_def sizeof_sockaddr_storage_def) (simp add: socket_address_def)
  then show ?thesis
    using assms print_dec_digits(1) [of "unat port"]
    by (simp add: Address_of_ip_def Address_resolve_def resolves_numeric_def c_str_inet_ntoa c_str_digits)
qed

section \<open>Segments in datagrams\<close>

definition set_ports :: "TCPSegment \<Rightarrow> u16 \<Rightarrow> u16 \<Rightarrow> TCPSegment" where
  "set_ports seg sport dport = seg\<lparr>seg_header := (seg_header seg)\<lparr>th_sport := sport, th_dport := dport\<rparr>\<rparr>"

definition datagram_header :: "u32 \<Rightarrow> u32 \<Rightarrow> TCPSegment \<Rightarrow> IPv4Header" where
  "datagram_header src dst seg = IPv4Header_new\<lparr>ip_src := src, ip_dst := dst,
     ip_len := of_nat (20 + 4 * unat (th_doff (seg_header seg)) + length (Buffer_str (seg_payload seg)))\<rparr>"

text \<open>Segments that fit in a datagram.\<close>

definition segment_fits :: "TCPSegment \<Rightarrow> bool" where
  "segment_fits seg \<longleftrightarrow> 5 \<le> th_doff (seg_header seg) \<and> th_doff (seg_header seg) < 16
     \<and> 20 + 4 * unat (th_doff (seg_header seg)) + length (Buffer_str (seg_payload seg)) < 2 ^ 16"

lemma hlen_new: "ip_hlen IPv4Header_new = 5"
  by (simp add: IPv4Header_new_def IPv4Header_LENGTH_def)

lemma ucast_of_nat_u16: "ucast (of_nat n :: size_t) = (of_nat n :: u16)"
  by (simp add: word_unat_eq_iff unat_of_nat unsigned_ucast_eq take_bit_eq_mod mod_mod_cancel)

lemma wrap_eq:
  assumes "names_numeric rs" and "fc_source (fa_cfg a) = socket_address src sport"
    and "fc_destination (fa_cfg a) = socket_address dst dport"
    and "segment_fits seg"
    and "TCPSegment_serialize (set_ports seg sport dport) (IPv4Header_pseudo_cksum (datagram_header src dst seg)) = Inr bl"
  shows "TCPOverIPv4Adapter_wrap_tcp_in_ip rs a seg =
     Inr (\<lparr>dg_header = datagram_header src dst seg, dg_payload = bl\<rparr>, set_ports seg sport dport)"
proof -
  have "ucast (ucast (ip_hlen IPv4Header_new) * 4 + ucast (th_doff (seg_header seg)) * 4 + Buffer_size (seg_payload seg) :: size_t)
      = (of_nat (20 + 4 * unat (th_doff (seg_header seg)) + length (Buffer_str (seg_payload seg))) :: u16)"
    unfolding ucast_of_nat_u16 [symmetric]
    by (simp add: hlen_new Buffer_size_def list_size_def mult.commute)
  then have "IPv4Header_new\<lparr>ip_src := src, ip_dst := dst, ip_len := ucast (ucast (ip_hlen IPv4Header_new) * 4
      + ucast (th_doff (seg_header seg)) * 4 + Buffer_size (seg_payload seg) :: size_t)\<rparr> = datagram_header src dst seg"
    by (simp only: datagram_header_def)
  then show ?thesis
    using assms by (simp add: TCPOverIPv4Adapter_wrap_tcp_in_ip_def port_of_socket_address Let_def set_ports_def)
qed

lemma pseudo_cksum_small: "unat (IPv4Header_pseudo_cksum h) < 1048576"
proof -
  have add: "unat (x + y) \<le> unat x + unat y" for x y :: u32 by (simp add: unat_word_ariths)
  have hi: "unat (drop_bit 16 x) < 65536" for x :: u32
    using unsigned_less [of x, where ?'a = nat] by (simp add: drop_bit_eq_div unat_div_distrib)
  have lo: "unat (x AND 0xffff) < 65536" for x :: u32
    using take_bit_eq_mask [of 16 x] unsigned_take_bit_eq [of 16 x, where ?'a = nat]
    take_bit_nat_less_exp [of 16 "unat x"]
    by (simp add: mask_numeral)
  have "unat (ucast (ip_proto h) :: u32) < 65536" "unat (ucast (IPv4Header_payload_length h) :: u32) < 65536"
    using unsigned_less [of "ip_proto h", where ?'a = nat] unsigned_less [of "IPv4Header_payload_length h", where ?'a = nat]
    by (simp_all add: unat_ucast_up)
  with hi [of "ip_src h"] lo [of "ip_src h"] hi [of "ip_dst h"] lo [of "ip_dst h"] show ?thesis
    unfolding IPv4Header_pseudo_cksum_def Let_def
    using add [of "drop_bit 16 (ip_src h)" "ip_src h AND 0xffff"] add [of "drop_bit 16 (ip_dst h)" "ip_dst h AND 0xffff"]
      add [of "drop_bit 16 (ip_src h) + (ip_src h AND 0xffff)" "drop_bit 16 (ip_dst h) + (ip_dst h AND 0xffff)"]
      add [of "drop_bit 16 (ip_src h) + (ip_src h AND 0xffff) + (drop_bit 16 (ip_dst h) + (ip_dst h AND 0xffff))" "ucast (ip_proto h)"]
      add [of "drop_bit 16 (ip_src h) + (ip_src h AND 0xffff) + (drop_bit 16 (ip_dst h) + (ip_dst h AND 0xffff)) + ucast (ip_proto h)"
        "ucast (IPv4Header_payload_length h)"]
    by linarith
qed

lemma segment_wire:
  assumes "segment_fits seg"
  shows "\<exists>bl c bl2 c2.
     TCPSegment_serialize (set_ports seg sport dport) (IPv4Header_pseudo_cksum (datagram_header src dst seg)) = Inr bl
     \<and> IPv4Datagram_serialize \<lparr>dg_header = datagram_header src dst seg, dg_payload = bl\<rparr> = Inr bl2
     \<and> (\<exists>b b2. IPv4Datagram_parse IPv4Datagram_new (Buffer_of (BufferList_concatenate bl2)) =
            Inr (NoError, \<lparr>dg_header = (datagram_header src dst seg)\<lparr>ip_cksum := c2\<rparr>, dg_payload = [b2]\<rparr>)
          \<and> TCPSegment_parse TCPSegment_new b2 (IPv4Header_pseudo_cksum (datagram_header src dst seg)) =
            Inr (NoError, \<lparr>seg_header = (seg_header (set_ports seg sport dport))\<lparr>th_cksum := c\<rparr>, seg_payload = b\<rparr>)
          \<and> Buffer_str b = Buffer_str (seg_payload seg))"
proof -
  let ?h = "datagram_header src dst seg" and ?seg = "set_ports seg sport dport"
  have l: "20 + 4 * unat (th_doff (seg_header seg)) + length (Buffer_str (seg_payload seg)) < 2 ^ 16"
    using assms by (simp add: segment_fits_def)
  have sp: "th_doff (seg_header ?seg) = th_doff (seg_header seg)" "seg_payload ?seg = seg_payload seg"
    by (simp_all add: set_ports_def)
  have "unat (IPv4Header_pseudo_cksum ?h)
      + 65280 * (4 * unat (th_doff (seg_header ?seg)) + length (Buffer_str (seg_payload ?seg))) < 2 ^ 32"
    using l pseudo_cksum_small [of ?h] by (simp add: set_ports_def)
  note w = TCPSegment_wire [OF _ _ this, unfolded sp]
  have "5 \<le> th_doff (seg_header seg)" "th_doff (seg_header seg) < 16" using assms by (simp_all add: segment_fits_def)
  from w [OF this] obtain bl c where
    bl: "TCPSegment_serialize ?seg (IPv4Header_pseudo_cksum ?h) = Inr bl"
      "length (BufferList_concatenate bl) = 4 * unat (th_doff (seg_header seg)) + length (Buffer_str (seg_payload seg))"
    and seg: "\<And>b0. Buffer_inv b0 \<Longrightarrow> Buffer_str b0 = BufferList_concatenate bl \<Longrightarrow>
        \<exists>b. TCPSegment_parse TCPSegment_new b0 (IPv4Header_pseudo_cksum ?h) =
            Inr (NoError, \<lparr>seg_header = (seg_header ?seg)\<lparr>th_cksum := c\<rparr>, seg_payload = b\<rparr>)
          \<and> Buffer_str b = Buffer_str (seg_payload seg)"
    by blast
  have "unat (ip_len ?h) = 20 + 4 * unat (th_doff (seg_header seg)) + length (Buffer_str (seg_payload seg))"
    using l by (simp add: datagram_header_def unat_of_nat take_bit_nat_eq_self del: of_nat_add)
  moreover have "ip_hlen ?h = 5" "IPv4Header_valid ?h"
    by (simp_all add: datagram_header_def hlen_new IPv4Header_valid_def) (simp_all add: IPv4Header_new_def)
  ultimately have "IPv4Datagram_valid \<lparr>dg_header = ?h, dg_payload = bl\<rparr>"
    using bl(2) by (simp add: IPv4Datagram_valid_def)
  from IPv4Datagram_wire [OF this, unfolded IPv4Datagram.simps] obtain bl2 c2 where
    bl2: "IPv4Datagram_serialize \<lparr>dg_header = ?h, dg_payload = bl\<rparr> = Inr bl2"
      "length (BufferList_concatenate bl2) = unat (ip_len ?h)"
    and dg: "\<And>b0. Buffer_inv b0 \<Longrightarrow> Buffer_str b0 = BufferList_concatenate bl2 \<Longrightarrow>
        \<exists>b. IPv4Datagram_parse IPv4Datagram_new b0 = Inr (NoError, \<lparr>dg_header = ?h\<lparr>ip_cksum := c2\<rparr>, dg_payload = [b]\<rparr>)
          \<and> Buffer_str b = BufferList_concatenate bl \<and> Buffer_inv b"
    by blast
  have "length (BufferList_concatenate bl2) < 2 ^ 64"
    using bl2(2) unsigned_less [of "ip_len ?h", where ?'a = nat] by simp
  from dg [OF Buffer_inv_of [OF this] Buffer_str_of [OF this]] seg bl(1) bl2(1) show ?thesis by blast
qed


lemma unwrap_eq:
  assumes rs: "names_numeric rs" and b: "fc_source (fa_cfg a) = socket_address own dport"
    and h: "ip_src h = src" "ip_dst h = dst" "ip_proto h = PROTO_TCP"
    and seg: "TCPSegment_parse TCPSegment_new b2 (IPv4Header_pseudo_cksum h) = Inr (NoError, seg)"
      "th_sport (seg_header seg) = sport" "th_dport (seg_header seg) = dport"
  shows "\<not> fa_listen a \<Longrightarrow> own = dst \<Longrightarrow> fc_destination (fa_cfg a) = socket_address src sport \<Longrightarrow>
       TCPOverIPv4Adapter_unwrap_tcp_in_ip rs a \<lparr>dg_header = h, dg_payload = [b2]\<rparr> = Inr (Some seg, a)"
    and "fa_listen a \<Longrightarrow> th_syn (seg_header seg) \<Longrightarrow> \<not> th_rst (seg_header seg) \<Longrightarrow>
       resolves_numeric rs src sport \<Longrightarrow> resolves_numeric rs dst dport \<Longrightarrow>
       TCPOverIPv4Adapter_unwrap_tcp_in_ip rs a \<lparr>dg_header = h, dg_payload = [b2]\<rparr> =
         Inr (Some seg, \<lparr>fa_cfg = (fa_cfg a)\<lparr>fc_source := socket_address dst dport,
                          fc_destination := socket_address src sport\<rparr>, fa_listen = False\<rparr>)"
  using assms
  by (simp_all add: TCPOverIPv4Adapter_unwrap_tcp_in_ip_def TCPOverIPv4Adapter_accept_def BufferList_to_Buffer_def
      port_of_socket_address resolve_socket_address FdAdapterBase_set_listening_def)

lemma tun_roundtrip:
  assumes "names_numeric rs" and "segment_fits seg"
    and "fc_source (fa_cfg a) = socket_address src sport" "fc_destination (fa_cfg a) = socket_address dst dport"
  shows "\<exists>bl c payload. TunAdapter_write rs a seg = Inr (bl, set_ports seg sport dport)
     \<and> Buffer_str payload = Buffer_str (seg_payload seg)
     \<and> (\<forall>b. \<not> fa_listen b \<and> fc_source (fa_cfg b) = socket_address dst dport
            \<and> fc_destination (fa_cfg b) = socket_address src sport \<longrightarrow>
          TunAdapter_read rs (BufferList_concatenate bl) b =
            Inr (Some \<lparr>seg_header = (seg_header seg)\<lparr>th_sport := sport, th_dport := dport, th_cksum := c\<rparr>,
                       seg_payload = payload\<rparr>, b))
     \<and> (\<forall>b own. fa_listen b \<and> fc_source (fa_cfg b) = socket_address own dport
            \<and> resolves_numeric rs src sport \<and> resolves_numeric rs dst dport
            \<and> th_syn (seg_header seg) \<and> \<not> th_rst (seg_header seg) \<longrightarrow>
          TunAdapter_read rs (BufferList_concatenate bl) b =
            Inr (Some \<lparr>seg_header = (seg_header seg)\<lparr>th_sport := sport, th_dport := dport, th_cksum := c\<rparr>,
                       seg_payload = payload\<rparr>,
                 \<lparr>fa_cfg = (fa_cfg b)\<lparr>fc_source := socket_address dst dport, fc_destination := socket_address src sport\<rparr>,
                  fa_listen = False\<rparr>))"
proof -
  let ?h = "datagram_header src dst seg"
  from segment_wire [OF assms(2), of sport dport src dst] obtain bl c bl2 c2 b b2 where
    ser: "TCPSegment_serialize (set_ports seg sport dport) (IPv4Header_pseudo_cksum ?h) = Inr bl"
      "IPv4Datagram_serialize \<lparr>dg_header = ?h, dg_payload = bl\<rparr> = Inr bl2"
    and dg: "IPv4Datagram_parse IPv4Datagram_new (Buffer_of (BufferList_concatenate bl2)) =
        Inr (NoError, \<lparr>dg_header = ?h\<lparr>ip_cksum := c2\<rparr>, dg_payload = [b2]\<rparr>)"
    and seg: "TCPSegment_parse TCPSegment_new b2 (IPv4Header_pseudo_cksum ?h) =
        Inr (NoError, \<lparr>seg_header = (seg_header (set_ports seg sport dport))\<lparr>th_cksum := c\<rparr>, seg_payload = b\<rparr>)"
      "Buffer_str b = Buffer_str (seg_payload seg)"
    by blast
  have w: "TunAdapter_write rs a seg = Inr (bl2, set_ports seg sport dport)"
    using wrap_eq [OF assms(1,3,4,2) ser(1)] ser(2) by (simp add: TunAdapter_write_def)
  let ?seg = "\<lparr>seg_header = (seg_header seg)\<lparr>th_sport := sport, th_dport := dport, th_cksum := c\<rparr>, seg_payload = b\<rparr>"
  have h: "IPv4Header_pseudo_cksum (?h\<lparr>ip_cksum := c2\<rparr>) = IPv4Header_pseudo_cksum ?h"
      "ip_src (?h\<lparr>ip_cksum := c2\<rparr>) = src" "ip_dst (?h\<lparr>ip_cksum := c2\<rparr>) = dst" "ip_proto (?h\<lparr>ip_cksum := c2\<rparr>) = PROTO_TCP"
    by (simp_all add: IPv4Header_pseudo_cksum_def IPv4Header_payload_length_def datagram_header_def)
      (simp add: IPv4Header_new_def)
  have s: "TCPSegment_parse TCPSegment_new b2 (IPv4Header_pseudo_cksum (?h\<lparr>ip_cksum := c2\<rparr>)) = Inr (NoError, ?seg)"
      "th_sport (seg_header ?seg) = sport" "th_dport (seg_header ?seg) = dport"
    using seg(1) h(1) by (simp_all add: set_ports_def)
  note r = unwrap_eq [OF assms(1) _ h(2-4) s]
  have read: "TunAdapter_read rs (BufferList_concatenate bl2) x =
      TCPOverIPv4Adapter_unwrap_tcp_in_ip rs x \<lparr>dg_header = ?h\<lparr>ip_cksum := c2\<rparr>, dg_payload = [b2]\<rparr>" for x
    using dg by (simp add: TunAdapter_read_def)
  have syn: "th_syn (seg_header ?seg) = th_syn (seg_header seg)" "th_rst (seg_header ?seg) = th_rst (seg_header seg)"
    by simp_all
  show ?thesis
    by (rule exI [of _ bl2], rule exI [of _ c], rule exI [of _ b], intro conjI allI impI)
      (use w seg(2) r read syn in metis)+
qed

section \<open>Channels for segments\<close>

text \<open>
  What a lossy adapter relies on: on a linked pair of adapters, a segment that fits is written
  as one packet, and reading the packet at the other end returns the segment up to what
  the adapters fill in.
\<close>

definition same_segment :: "TCPSegment \<Rightarrow> TCPSegment \<Rightarrow> bool" where
  "same_segment seg seg' \<longleftrightarrow> Buffer_str (seg_payload seg') = Buffer_str (seg_payload seg)
     \<and> (seg_header seg')\<lparr>th_sport := 0, th_dport := 0, th_cksum := 0\<rparr> = (seg_header seg)\<lparr>th_sport := 0, th_dport := 0, th_cksum := 0\<rparr>"

locale segment_channel =
  fixes put :: "'a \<Rightarrow> TCPSegment \<Rightarrow> ('p \<times> TCPSegment \<times> 'a) result"
    and get :: "'p \<Rightarrow> 'a \<Rightarrow> (TCPSegment option \<times> 'a) result"
    and config :: "'a \<Rightarrow> FdAdapterConfig"
    and linked :: "'a \<Rightarrow> 'a \<Rightarrow> bool"
    and fits :: "TCPSegment \<Rightarrow> bool"
  assumes delivers: "linked a b \<Longrightarrow> fits seg \<Longrightarrow>
     \<exists>p seg1 seg'. put a seg = Inr (p, seg1, a) \<and> get p b = Inr (Some seg', b) \<and> same_segment seg seg'"
begin

lemma should_drop_cases:
  obtains drop g where "LossyFdAdapter_should_drop rand config up lf = (drop, lf\<lparr>lf_rand := g\<rparr>)"
    and "(if up then fc_loss_rate_up (config (lf_adapter lf)) else fc_loss_rate_dn (config (lf_adapter lf))) = 0 \<Longrightarrow> \<not> drop"
proof (cases "(if up then fc_loss_rate_up (config (lf_adapter lf)) else fc_loss_rate_dn (config (lf_adapter lf))) = 0")
  case True
  then show thesis by (intro that [of False "lf_rand lf"]) (simp_all add: LossyFdAdapter_should_drop_def Let_def)
next
  case False
  obtain v g where "rand (lf_rand lf) = (v, g)" by (cases "rand (lf_rand lf)")
  with False show thesis
    by (intro that [of "ucast v < (if up then fc_loss_rate_up (config (lf_adapter lf)) else fc_loss_rate_dn (config (lf_adapter lf)))" g])
      (simp_all add: LossyFdAdapter_should_drop_def Let_def)
qed

text \<open>Nothing is corrupted: a segment is dropped on the way out, on the way in, or it arrives.\<close>

lemma lossy_delivers:
  assumes "linked (lf_adapter x) (lf_adapter y)" and "fits seg"
  shows "\<exists>out seg1 x'. LossyFdAdapter_write rand config (\<lambda>a. put a seg) seg x = Inr (out, seg1, x')
     \<and> lf_adapter x' = lf_adapter x
     \<and> (\<forall>p. out = Some p \<longrightarrow> (\<exists>r y'. LossyFdAdapter_read rand' config (get p) y = Inr (r, y')
          \<and> lf_adapter y' = lf_adapter y \<and> (\<forall>seg'. r = Some seg' \<longrightarrow> same_segment seg seg')
          \<and> (fc_loss_rate_dn (config (lf_adapter y)) = 0 \<longrightarrow> r \<noteq> None)))
     \<and> (fc_loss_rate_up (config (lf_adapter x)) = 0 \<longrightarrow> out \<noteq> None)"
proof -
  obtain p seg1 seg' where d: "put (lf_adapter x) seg = Inr (p, seg1, lf_adapter x)"
      "get p (lf_adapter y) = Inr (Some seg', lf_adapter y)" "same_segment seg seg'"
    using delivers [OF assms] by blast
  obtain drop g where w: "LossyFdAdapter_should_drop rand config True x = (drop, x\<lparr>lf_rand := g\<rparr>)"
      "fc_loss_rate_up (config (lf_adapter x)) = 0 \<Longrightarrow> \<not> drop"
    using should_drop_cases [of rand True x] by auto
  obtain drop' g' where r: "LossyFdAdapter_should_drop rand' config False y = (drop', y\<lparr>lf_rand := g'\<rparr>)"
      "fc_loss_rate_dn (config (lf_adapter y)) = 0 \<Longrightarrow> \<not> drop'"
    using should_drop_cases [of rand' False y] by auto
  have "LossyFdAdapter_write rand config (\<lambda>a. put a seg) seg x =
      Inr (if drop then None else Some p, if drop then seg else seg1, x\<lparr>lf_rand := g\<rparr>)"
    using w(1) d(1) by (simp add: LossyFdAdapter_write_def)
  moreover have "LossyFdAdapter_read rand' config (get p) y = Inr (if drop' then None else Some seg', y\<lparr>lf_rand := g'\<rparr>)"
    using r(1) d(2) by (simp add: LossyFdAdapter_read_def)
  ultimately show ?thesis using w(2) r(2) d(3) by auto
qed

end

definition tun_linked :: "resolver \<Rightarrow> FdAdapterBase \<Rightarrow> FdAdapterBase \<Rightarrow> bool" where
  "tun_linked rs a b \<longleftrightarrow> names_numeric rs \<and> \<not> fa_listen b \<and> fc_source (fa_cfg b) = fc_destination (fa_cfg a)
     \<and> fc_destination (fa_cfg b) = fc_source (fa_cfg a)
     \<and> (\<exists>n port. fc_source (fa_cfg a) = socket_address n port) \<and> (\<exists>n port. fc_destination (fa_cfg a) = socket_address n port)"

interpretation tun: segment_channel
  "\<lambda>a seg. result_map (\<lambda>(bl, seg). (BufferList_concatenate bl, seg, a)) (TunAdapter_write rs a seg)"
  "TunAdapter_read rs" fa_cfg "tun_linked rs" segment_fits
proof (unfold_locales, goal_cases)
  case (1 a b seg)
  then obtain src sport dst dport where ad: "fc_source (fa_cfg a) = socket_address src sport"
      "fc_destination (fa_cfg a) = socket_address dst dport" "names_numeric rs"
    by (auto simp: tun_linked_def)
  from tun_roundtrip [OF ad(3) 1(2) ad(1,2)] obtain bl c payload where
    w: "TunAdapter_write rs a seg = Inr (bl, set_ports seg sport dport)"
      "Buffer_str payload = Buffer_str (seg_payload seg)"
    and r: "TunAdapter_read rs (BufferList_concatenate bl) b =
            Inr (Some \<lparr>seg_header = (seg_header seg)\<lparr>th_sport := sport, th_dport := dport, th_cksum := c\<rparr>,
                       seg_payload = payload\<rparr>, b)"
    using 1(1) ad unfolding tun_linked_def by metis
  have "same_segment seg \<lparr>seg_header = (seg_header seg)\<lparr>th_sport := sport, th_dport := dport, th_cksum := c\<rparr>,
      seg_payload = payload\<rparr>"
    using w(2) by (simp add: same_segment_def)
  then show ?case using w(1) r by auto
qed

definition udp_linked :: "resolver \<Rightarrow> Address \<Rightarrow> FdAdapterBase \<Rightarrow> FdAdapterBase \<Rightarrow> bool" where
  "udp_linked rs sender a b \<longleftrightarrow> names_numeric rs \<and> \<not> fa_listen b \<and> Address_eq sender (fc_destination (fa_cfg b))
     \<and> (\<exists>n port. fc_source (fa_cfg a) = socket_address n port) \<and> (\<exists>n port. fc_destination (fa_cfg a) = socket_address n port)"

interpretation udp: segment_channel
  "\<lambda>a seg. result_map (\<lambda>((_, bl), seg). (BufferList_concatenate bl, seg, a)) (UDPAdapter_write rs a seg)"
  "\<lambda>bs. UDPAdapter_read (sender, bs)" fa_cfg "udp_linked rs sender" segment_fits
proof (unfold_locales, goal_cases)
  case (1 a b seg)
  then obtain src sport dst dport where ad: "fc_source (fa_cfg a) = socket_address src sport"
      "fc_destination (fa_cfg a) = socket_address dst dport" "names_numeric rs"
    by (auto simp: udp_linked_def)
  let ?seg = "set_ports seg sport dport"
  have f: "5 \<le> th_doff (seg_header ?seg)" "th_doff (seg_header ?seg) < 16"
      "unat (0 :: u32) + 65280 * (4 * unat (th_doff (seg_header ?seg)) + length (Buffer_str (seg_payload ?seg))) < 2 ^ 32"
    using 1(2) by (simp_all add: segment_fits_def set_ports_def)
  from TCPSegment_wire [OF f] obtain bl c where bl: "TCPSegment_serialize ?seg 0 = Inr bl"
      "length (BufferList_concatenate bl) = 4 * unat (th_doff (seg_header ?seg)) + length (Buffer_str (seg_payload ?seg))"
    and parse: "\<And>b0 s. Buffer_inv b0 \<Longrightarrow> Buffer_str b0 = BufferList_concatenate bl \<Longrightarrow>
        \<exists>b. TCPSegment_parse s b0 0 = Inr (NoError, \<lparr>seg_header = (seg_header ?seg)\<lparr>th_cksum := c\<rparr>, seg_payload = b\<rparr>)
          \<and> Buffer_str b = Buffer_str (seg_payload ?seg) \<and> Buffer_inv b"
    by blast
  have "length (BufferList_concatenate bl) < 2 ^ 64" using bl(2) f(3) by simp
  from parse [OF Buffer_inv_of [OF this] Buffer_str_of [OF this]] obtain payload where
    p: "TCPSegment_parse TCPSegment_new (Buffer_of (BufferList_concatenate bl)) 0 =
        Inr (NoError, \<lparr>seg_header = (seg_header ?seg)\<lparr>th_cksum := c\<rparr>, seg_payload = payload\<rparr>)"
      "Buffer_str payload = Buffer_str (seg_payload ?seg)" by blast
  have "UDPAdapter_write rs a seg = Inr ((fc_destination (fa_cfg a), bl), ?seg)"
    using ad bl(1) by (simp add: UDPAdapter_write_def port_of_socket_address set_ports_def)
  then have put: "result_map (\<lambda>((_, bl), seg). (BufferList_concatenate bl, seg, a)) (UDPAdapter_write rs a seg)
      = Inr (BufferList_concatenate bl, ?seg, a)" by simp
  have get: "UDPAdapter_read (sender, BufferList_concatenate bl) b =
      Inr (Some \<lparr>seg_header = (seg_header ?seg)\<lparr>th_cksum := c\<rparr>, seg_payload = payload\<rparr>, b)"
    using 1(1) p(1) by (simp add: UDPAdapter_read_def udp_linked_def)
  have same: "same_segment seg \<lparr>seg_header = (seg_header ?seg)\<lparr>th_cksum := c\<rparr>, seg_payload = payload\<rparr>"
    using p(2) by (simp add: same_segment_def set_ports_def)
  show ?case by (intro exI conjI) (rule put, rule get, rule same)
qed

definition example_rs :: resolver where
  "example_rs = \<lparr>rs_getaddrinfo = (\<lambda>node service hints.
       (0, [(take 16 (ad_storage (if node = ''0.0.0.1'' then socket_address 1 80 else socket_address 2 90)), 16)])),
     rs_getnameinfo = (\<lambda>storage sz. (0, inet_ntoa (be_value (take 4 (drop 4 storage))),
       print_dec (unat (be_value (take 2 (drop 2 storage)) :: u16)))),
     rs_gai_strerror = (\<lambda>_. ''error'')\<rparr>"

section \<open>Properties\<close>

text \<open>
  C39. Segments cross the IPv4 layer. A segment whose header is well-formed and that fits in a
  datagram, written by an adapter configured with a source and a destination, is put in a
  datagram with the ports of the configuration; when the bytes of that datagram reach an adapter
  configured with the two addresses swapped, it returns the same segment, with those ports and
  the checksum filled in, and does not change. A listening adapter on the destination port does
  the same for a \<open>SYN\<close>, and from then on it is configured with the two addresses and no
  longer listens.
\<close>

theorem TCPOverIPv4_roundtrip:
  assumes "names_numeric rs" and "segment_fits seg"
    and "fc_source (fa_cfg a) = socket_address src sport" "fc_destination (fa_cfg a) = socket_address dst dport"
  shows "\<exists>bl c payload. TunAdapter_write rs a seg = Inr (bl, set_ports seg sport dport)
     \<and> Buffer_str payload = Buffer_str (seg_payload seg)
     \<and> (\<forall>b. \<not> fa_listen b \<and> fc_source (fa_cfg b) = socket_address dst dport
            \<and> fc_destination (fa_cfg b) = socket_address src sport \<longrightarrow>
          TunAdapter_read rs (BufferList_concatenate bl) b =
            Inr (Some \<lparr>seg_header = (seg_header seg)\<lparr>th_sport := sport, th_dport := dport, th_cksum := c\<rparr>,
                       seg_payload = payload\<rparr>, b))
     \<and> (\<forall>b own. fa_listen b \<and> fc_source (fa_cfg b) = socket_address own dport
            \<and> resolves_numeric rs src sport \<and> resolves_numeric rs dst dport
            \<and> th_syn (seg_header seg) \<and> \<not> th_rst (seg_header seg) \<longrightarrow>
          TunAdapter_read rs (BufferList_concatenate bl) b =
            Inr (Some \<lparr>seg_header = (seg_header seg)\<lparr>th_sport := sport, th_dport := dport, th_cksum := c\<rparr>,
                       seg_payload = payload\<rparr>,
                 \<lparr>fa_cfg = (fa_cfg b)\<lparr>fc_source := socket_address dst dport, fc_destination := socket_address src sport\<rparr>,
                  fa_listen = False\<rparr>))"
  by (rule tun_roundtrip [OF assms])

theorem TCPOverIPv4_roundtrip_witness:
  "\<exists>bl c payload. TunAdapter_write example_rs
       \<lparr>fa_cfg = \<lparr>fc_source = socket_address 1 80, fc_destination = socket_address 2 90, fc_loss_rate_dn = 0, fc_loss_rate_up = 0\<rparr>,
        fa_listen = False\<rparr> \<lparr>seg_header = TCPHeader_new\<lparr>th_syn := True\<rparr>, seg_payload = Buffer_new\<rparr> = Inr (bl,
          \<lparr>seg_header = TCPHeader_new\<lparr>th_syn := True, th_sport := 80, th_dport := 90\<rparr>, seg_payload = Buffer_new\<rparr>)
     \<and> TunAdapter_read example_rs (BufferList_concatenate bl)
         \<lparr>fa_cfg = \<lparr>fc_source = socket_address 0 90, fc_destination = socket_address 0 0, fc_loss_rate_dn = 0, fc_loss_rate_up = 0\<rparr>,
          fa_listen = True\<rparr> =
       Inr (Some \<lparr>seg_header = TCPHeader_new\<lparr>th_syn := True, th_sport := 80, th_dport := 90, th_cksum := c\<rparr>, seg_payload = payload\<rparr>,
         \<lparr>fa_cfg = \<lparr>fc_source = socket_address 2 90, fc_destination = socket_address 1 80, fc_loss_rate_dn = 0, fc_loss_rate_up = 0\<rparr>,
          fa_listen = False\<rparr>)"
proof -
  let ?seg = "\<lparr>seg_header = TCPHeader_new\<lparr>th_syn := True\<rparr>, seg_payload = Buffer_new\<rparr>"
  have 1: "names_numeric example_rs"
    by (simp add: names_numeric_def example_rs_def socket_address_def be_value_bytes)
  have "inet_ntoa 1 = ''0.0.0.1''" "inet_ntoa 2 = ''0.0.0.2''" by code_simp+
  then have rs: "resolves_numeric example_rs 1 80" "resolves_numeric example_rs 2 90"
    by (simp_all add: resolves_numeric_def example_rs_def)
  have "th_doff (seg_header ?seg) = 5" "Buffer_str (seg_payload ?seg) = []" "\<not> th_rst (seg_header ?seg)" by code_simp+
  then have 2: "segment_fits ?seg" "th_syn (seg_header ?seg) \<and> \<not> th_rst (seg_header ?seg)" by (simp_all add: segment_fits_def)
  let ?a = "\<lambda>s d l. \<lparr>fa_cfg = \<lparr>fc_source = s, fc_destination = d, fc_loss_rate_dn = 0, fc_loss_rate_up = 0\<rparr>, fa_listen = l\<rparr>"
  from TCPOverIPv4_roundtrip [OF 1 2(1), of "?a (socket_address 1 80) (socket_address 2 90) False" 1 80 2 90]
  obtain bl c payload where w: "TunAdapter_write example_rs (?a (socket_address 1 80) (socket_address 2 90) False) ?seg =
        Inr (bl, set_ports ?seg 80 90)"
    and r: "\<And>b own. fa_listen b \<and> fc_source (fa_cfg b) = socket_address own 90
            \<and> resolves_numeric example_rs 1 80 \<and> resolves_numeric example_rs 2 90
            \<and> th_syn (seg_header ?seg) \<and> \<not> th_rst (seg_header ?seg) \<Longrightarrow>
          TunAdapter_read example_rs (BufferList_concatenate bl) b =
            Inr (Some \<lparr>seg_header = (seg_header ?seg)\<lparr>th_sport := 80, th_dport := 90, th_cksum := c\<rparr>, seg_payload = payload\<rparr>,
                 \<lparr>fa_cfg = (fa_cfg b)\<lparr>fc_source := socket_address 2 90, fc_destination := socket_address 1 80\<rparr>,
                  fa_listen = False\<rparr>)"
    by (simp only: FdAdapterBase.simps FdAdapterConfig.simps refl simp_thms) metis
  from w r [of "?a (socket_address 0 90) (socket_address 0 0) True" 0] rs 2(2) show ?thesis by (auto simp: set_ports_def)
qed

end
