(* ===== verification/File_Descriptor.thy ===== *)
theory File_Descriptor
  imports Buffers Net_Parser Address
begin

text \<open>
  \<open>util/file_descriptor.cc\<close> and the error handling of \<open>util/util.cc\<close>. A
  \<open>FileDescriptor\<close> is a shared handle, so the wrappers live in a store and a handle is an
  index into it; duplicating a descriptor copies the index. The system calls are parameters that
  act on a state of the kernel. The lemmas show that \<open>write\<close> with \<open>write_all\<close> returns
  after handing every byte to the kernel, in order.
\<close>

section \<open>The store and the system calls\<close>

record FDWrapper =
  fd_fd :: int
  fd_eof :: bool
  fd_closed :: bool
  fd_read_count :: u32
  fd_write_count :: u32

type_synonym FileDescriptor = nat

text \<open>The kernel, the wrappers, and the state of the program that uses them.\<close>

record ('k, 'u) world =
  w_kernel :: 'k
  w_fds :: "FDWrapper list"
  w_user :: 'u

text \<open>
  The system calls the sources make, with their arguments: a vector of bytes is given by its
  entries, an address by its bytes and size (none for a null pointer).
\<close>

datatype syscall =
    Sys_read int size_t
  | Sys_writev int "(bytes \<times> size_t) list"
  | Sys_close int
  | Sys_getfl int
  | Sys_setfl int int
  | Sys_poll "(int \<times> int) list" int
  | Sys_socket int int
  | Sys_getsockopt int int int
  | Sys_setsockopt int int int int
  | Sys_getsockname int
  | Sys_getpeername int
  | Sys_bind int bytes u32
  | Sys_connect int bytes u32
  | Sys_shutdown int int
  | Sys_recvfrom int size_t int
  | Sys_sendmsg int "(bytes \<times> u32) option" "(bytes \<times> size_t) list"
  | Sys_listen int int
  | Sys_accept int
  | Sys_socketpair int int

text \<open>
  What a call leaves: its value, \<open>errno\<close>, the bytes stored in a buffer, an address and its
  size, an option and its size, the \<open>revents\<close> of the polled entries, the two descriptors of a
  pair.
\<close>

record sysret =
  sr_value :: int
  sr_errno :: int
  sr_data :: bytes
  sr_address :: bytes
  sr_address_size :: u32
  sr_option :: "int \<times> u32"
  sr_revents :: "int list"
  sr_pair :: "int \<times> int"

record 'k syscalls =
  sc_call :: "syscall \<Rightarrow> 'k \<Rightarrow> sysret \<times> 'k"
  sc_strerror :: "int \<Rightarrow> string"

definition unix_error :: "'k syscalls \<Rightarrow> string \<Rightarrow> int \<Rightarrow> cpp_error" where
  "unix_error sc attempt error = tagged_error (sc_strerror sc) attempt error"

text \<open>The value is converted to \<open>int\<close> when it is passed.\<close>

definition int32 :: "int \<Rightarrow> int" where
  "int32 v = signed_take_bit 31 v"

definition SystemCall :: "'k syscalls \<Rightarrow> string \<Rightarrow> int \<Rightarrow> int \<Rightarrow> int \<Rightarrow> int result" where
  "SystemCall sc attempt return_value errno errno_mask =
     (if int32 return_value \<ge> 0 \<or> errno = errno_mask then Inr (int32 return_value)
      else Inl (unix_error sc (c_str attempt) errno))"

text \<open>A call through \<open>SystemCall\<close>: its value, what it left, and the world after it.\<close>

definition do_call :: "'k syscalls \<Rightarrow> string \<Rightarrow> syscall \<Rightarrow> ('k, 'u) world \<Rightarrow> (int \<times> sysret \<times> ('k, 'u) world) result" where
  "do_call sc attempt c w =
     (let (r, k) = sc_call sc c (w_kernel w)
      in result_map (\<lambda>v. (v, r, w\<lparr>w_kernel := k\<rparr>)) (SystemCall sc attempt (sr_value r) (sr_errno r) 0))"

section \<open>FDWrapper\<close>

definition FDWrapper_new :: "int \<Rightarrow> FDWrapper result" where
  "FDWrapper_new fd =
     (if fd < 0 then Inl (Runtime_error (''invalid fd number:-'' @ print_dec (nat (- fd))))
      else Inr \<lparr>fd_fd = fd, fd_eof = False, fd_closed = False, fd_read_count = 0, fd_write_count = 0\<rparr>)"

definition fd_at :: "('k, 'u) world \<Rightarrow> FileDescriptor \<Rightarrow> FDWrapper" where
  "fd_at w fd = w_fds w ! fd"

definition fd_modify :: "(FDWrapper \<Rightarrow> FDWrapper) \<Rightarrow> FileDescriptor \<Rightarrow> ('k, 'u) world \<Rightarrow> ('k, 'u) world" where
  "fd_modify f fd w = w\<lparr>w_fds := (w_fds w)[fd := f (w_fds w ! fd)]\<rparr>"

definition FDWrapper_close :: "'k syscalls \<Rightarrow> FileDescriptor \<Rightarrow> ('k, 'u) world \<Rightarrow> ('k, 'u) world result" where
  "FDWrapper_close sc fd w =
     result_map (\<lambda>(_, _, w). fd_modify (fd_eof_update (\<lambda>_. True) \<circ> fd_closed_update (\<lambda>_. True)) fd w)
       (do_call sc ''close'' (Sys_close (fd_fd (fd_at w fd))) w)"

text \<open>
  The destructor, run when the last handle goes, with the line it prints. An exception leaves
  the kernel as the call left it.
\<close>

definition FDWrapper_destroy :: "'k syscalls \<Rightarrow> FileDescriptor \<Rightarrow> ('k, 'u) world \<Rightarrow> string \<times> ('k, 'u) world" where
  "FDWrapper_destroy sc fd w =
     (if fd_closed (fd_at w fd) then ([], w)
      else case FDWrapper_close sc fd w of
          Inr w' \<Rightarrow> ([], w')
        | Inl (Runtime_error what) \<Rightarrow>
            (''Exception destructing FDWrapper: '' @ what @ [CHR 0x0A],
             w\<lparr>w_kernel := snd (sc_call sc (Sys_close (fd_fd (fd_at w fd))) (w_kernel w))\<rparr>)
        | Inl _ \<Rightarrow> ([], w))"

section \<open>FileDescriptor\<close>

definition FileDescriptor_new :: "int \<Rightarrow> ('k, 'u) world \<Rightarrow> (FileDescriptor \<times> ('k, 'u) world) result" where
  "FileDescriptor_new fd w =
     result_map (\<lambda>wrapper. (length (w_fds w), w\<lparr>w_fds := w_fds w @ [wrapper]\<rparr>)) (FDWrapper_new fd)"

definition FileDescriptor_duplicate :: "FileDescriptor \<Rightarrow> FileDescriptor" where
  "FileDescriptor_duplicate fd = fd"

definition FileDescriptor_register_read :: "FileDescriptor \<Rightarrow> ('k, 'u) world \<Rightarrow> ('k, 'u) world" where
  "FileDescriptor_register_read = fd_modify (fd_read_count_update (\<lambda>n. n + 1))"

definition FileDescriptor_register_write :: "FileDescriptor \<Rightarrow> ('k, 'u) world \<Rightarrow> ('k, 'u) world" where
  "FileDescriptor_register_write = fd_modify (fd_write_count_update (\<lambda>n. n + 1))"

definition FileDescriptor_fd_num :: "FileDescriptor \<Rightarrow> ('k, 'u) world \<Rightarrow> int" where
  "FileDescriptor_fd_num fd w = fd_fd (fd_at w fd)"

definition FileDescriptor_eof :: "FileDescriptor \<Rightarrow> ('k, 'u) world \<Rightarrow> bool" where
  "FileDescriptor_eof fd w = fd_eof (fd_at w fd)"

definition FileDescriptor_closed :: "FileDescriptor \<Rightarrow> ('k, 'u) world \<Rightarrow> bool" where
  "FileDescriptor_closed fd w = fd_closed (fd_at w fd)"

text \<open>
  The string is resized to what was asked for, filled by the kernel from its start, and then
  resized to what was read.
\<close>

definition BUFFER_SIZE :: size_t where
  "BUFFER_SIZE = 1024 * 1024"

definition FileDescriptor_read ::
  "'k syscalls \<Rightarrow> FileDescriptor \<Rightarrow> size_t \<Rightarrow> ('k, 'u) world \<Rightarrow> (bytes \<times> ('k, 'u) world) result" where
  "FileDescriptor_read sc fd limit w =
     (let size_to_read = min BUFFER_SIZE limit
      in result_bind (do_call sc ''read'' (Sys_read (FileDescriptor_fd_num fd w) size_to_read) w) (\<lambda>(bytes_read, r, w).
           let str = string_resize (unat size_to_read) (sr_data r);
               w = (if limit > 0 \<and> bytes_read = 0 then fd_modify (fd_eof_update (\<lambda>_. True)) fd w else w)
           in if bytes_read > int (unat size_to_read) then Inl (Runtime_error ''read() read more than requested'')
              else if bytes_read < 0 then Inl Length_error
              else Inr (string_resize (nat bytes_read) str, FileDescriptor_register_read fd w)))"

text \<open>
  One round of the loop of \<open>write\<close>: the rest of the buffer, the bytes written and the world.
  The size is compared as a signed number, and a count is converted to \<open>size_t\<close> where it is
  used as one.
\<close>

definition FileDescriptor_write_once ::
  "'k syscalls \<Rightarrow> FileDescriptor \<Rightarrow> BufferViewList \<Rightarrow> ('k, 'u) world
   \<Rightarrow> (BufferViewList \<times> size_t \<times> ('k, 'u) world) result" where
  "FileDescriptor_write_once sc fd buffer w =
     result_bind (do_call sc ''writev'' (Sys_writev (FileDescriptor_fd_num fd w) (BufferViewList_as_iovecs buffer)) w)
       (\<lambda>(bytes_written, _, w).
           if bytes_written = 0 \<and> BufferViewList_size buffer \<noteq> 0
           then Inl (Runtime_error ''write returned 0 given non-empty input buffer'')
           else if bytes_written > sint (BufferViewList_size buffer)
           then Inl (Runtime_error ''write wrote more than length of input buffer'')
           else
             let w = FileDescriptor_register_write fd w
             in result_map (\<lambda>buffer'. (buffer', word_of_int bytes_written, w))
                  (BufferViewList_remove_prefix buffer (word_of_int bytes_written)))"

lemma remove_prefix_shrinks:
  "BufferViewList_remove_prefix vs n = Inr vs' \<Longrightarrow> n \<noteq> 0 \<Longrightarrow> length (concat vs') < length (concat vs)"
proof (induction vs n rule: BufferViewList_remove_prefix.induct)
  case (2 v vs n)
  show ?case
  proof (cases "n < list_size v")
    case True
    then have "unat n < unat (list_size v)" by (simp add: word_less_nat_alt)
    moreover have "unat (list_size v) \<le> length v" by (simp add: list_size_def unat_of_nat take_bit_eq_mod)
    moreover have "0 < unat n" using 2(3) by (simp add: unat_gt_0)
    ultimately show ?thesis using 2(2,3) True by (auto simp: word_gt_0)
  next
    case False
    show ?thesis
    proof (cases "n - list_size v = 0")
      case True
      then have "v \<noteq> []" using 2(3) by auto
      then show ?thesis using 2(2,3) True False by (cases vs) (auto simp: word_gt_0)
    next
      case inner: False
      with 2 False show ?thesis by (auto simp: word_gt_0)
    qed
  qed
qed (simp add: word_gt_0)

lemma remove_prefix_zero: "BufferViewList_remove_prefix vs 0 = Inr vs"
  by (cases vs) simp_all

lemma int32_bounds: "- (2 ^ 31) \<le> int32 v" "int32 v < 2 ^ 31"
  using signed_take_bit_int_greater_eq_minus_exp [of 31 v] signed_take_bit_int_less_exp [of 31 v]
  by (simp_all add: int32_def)

lemma write_once_shrinks:
  assumes "FileDescriptor_write_once sc fd buffer w = Inr (buffer', n, w')" and "BufferViewList_size buffer' \<noteq> 0"
  shows "length (concat buffer') < length (concat buffer)"
proof -
  obtain r k where k: "sc_call sc (Sys_writev (FileDescriptor_fd_num fd w) (BufferViewList_as_iovecs buffer)) (w_kernel w) = (r, k)"
    by (metis surj_pair)
  define ret where "ret = sr_value r"
  from assms(1) have r: "\<not> (int32 ret = 0 \<and> BufferViewList_size buffer \<noteq> 0)"
      "BufferViewList_remove_prefix buffer (word_of_int (int32 ret)) = Inr buffer'"
    by (auto simp: FileDescriptor_write_once_def do_call_def k SystemCall_def result_map_Inr_iff result_bind_Inr_iff
        Let_def ret_def split: if_splits)
  have "int32 ret \<noteq> 0" using r assms(2) by (auto simp: remove_prefix_zero)
  then have "(word_of_int (int32 ret) :: size_t) \<noteq> 0"
    using int32_bounds [of ret] by (auto simp: word_of_int_eq_0_iff dest: zdvd_imp_le zdvd_not_zless)
  from remove_prefix_shrinks [OF r(2) this] show ?thesis .
qed

text \<open>
  The loop ends on every kernel: a round that returns removed something from the buffer, or
  left it empty.
\<close>

function FileDescriptor_write_loop ::
  "'k syscalls \<Rightarrow> FileDescriptor \<Rightarrow> bool \<Rightarrow> size_t \<Rightarrow> BufferViewList \<Rightarrow> ('k, 'u) world
   \<Rightarrow> (size_t \<times> ('k, 'u) world) result" where
  "FileDescriptor_write_loop sc fd write_all total_bytes_written buffer w =
     (case FileDescriptor_write_once sc fd buffer w of
        Inl e \<Rightarrow> Inl e
      | Inr (buffer', bytes_written, w') \<Rightarrow>
          if write_all \<and> BufferViewList_size buffer' \<noteq> 0
          then FileDescriptor_write_loop sc fd write_all (total_bytes_written + bytes_written) buffer' w'
          else Inr (total_bytes_written + bytes_written, w'))"
  by auto
termination
  by (relation "measure (\<lambda>(sc, fd, write_all, total, buffer, w). length (concat buffer))") (auto intro: write_once_shrinks)

declare FileDescriptor_write_loop.simps [simp del]

definition FileDescriptor_write ::
  "'k syscalls \<Rightarrow> FileDescriptor \<Rightarrow> BufferViewList \<Rightarrow> bool \<Rightarrow> ('k, 'u) world
   \<Rightarrow> (size_t \<times> ('k, 'u) world) result" where
  "FileDescriptor_write sc fd buffer write_all w = FileDescriptor_write_loop sc fd write_all 0 buffer w"

definition FileDescriptor_close :: "'k syscalls \<Rightarrow> FileDescriptor \<Rightarrow> ('k, 'u) world \<Rightarrow> ('k, 'u) world result" where
  "FileDescriptor_close = FDWrapper_close"

definition O_NONBLOCK :: int where
  "O_NONBLOCK = 0x800"

definition FileDescriptor_set_blocking ::
  "'k syscalls \<Rightarrow> FileDescriptor \<Rightarrow> bool \<Rightarrow> ('k, 'u) world \<Rightarrow> ('k, 'u) world result" where
  "FileDescriptor_set_blocking sc fd blocking_state w =
     result_bind (do_call sc ''fcntl'' (Sys_getfl (FileDescriptor_fd_num fd w)) w) (\<lambda>(flags, _, w).
       let flags = (if blocking_state then xor flags (and flags O_NONBLOCK) else or flags O_NONBLOCK)
       in result_map (\<lambda>(_, _, w). w) (do_call sc ''fcntl'' (Sys_setfl (FileDescriptor_fd_num fd w) flags) w))"

section \<open>Writing everything\<close>

text \<open>
  What is relied on of \<open>writev\<close> on a blocking descriptor, or one that was reported writable: it transfers a prefix of the bytes of
  its vector, at least one if there is one, at the end of what \<open>sink\<close> shows of the descriptor,
  and returns how many.
\<close>

declare concat_eq_Nil_conv [simp del]

definition writes_prefix :: "'k syscalls \<Rightarrow> (int \<Rightarrow> 'k \<Rightarrow> bytes) \<Rightarrow> bool" where
  "writes_prefix sc sink \<longleftrightarrow> (\<forall>num iov k. \<exists>n r k'.
     sc_call sc (Sys_writev num iov) k = (r, k') \<and> sr_value r = int n
     \<and> n \<le> length (concat (map fst iov)) \<and> n < 2 ^ 31 \<and> (concat (map fst iov) \<noteq> [] \<longrightarrow> 0 < n)
     \<and> sink num k' = sink num k @ take n (concat (map fst iov)))"

lemma fd_num_register_write [simp]:
  "FileDescriptor_fd_num fd (FileDescriptor_register_write fd w) = FileDescriptor_fd_num fd w"
  by (cases "fd < length (w_fds w)")
    (simp_all add: FileDescriptor_fd_num_def FileDescriptor_register_write_def fd_modify_def fd_at_def list_update_beyond not_less)

lemma register_write_simps [simp]:
  "w_kernel (FileDescriptor_register_write fd w) = w_kernel w" "w_user (FileDescriptor_register_write fd w) = w_user w"
  by (simp_all add: FileDescriptor_register_write_def fd_modify_def)

lemma as_iovecs_bytes: "map fst (BufferViewList_as_iovecs vs) = vs"
proof -
  have "map fst (fold (\<lambda>x ret. ret @ [(x, list_size x)]) vs acc) = map fst acc @ vs" for acc
    by (induction vs arbitrary: acc) simp_all
  then show ?thesis by (simp add: BufferViewList_as_iovecs_def)
qed

lemma write_once_ok:
  assumes "writes_prefix sc sink" and "length (concat buffer) < 2 ^ 63"
  shows "\<exists>n buffer' w'. FileDescriptor_write_once sc fd buffer w = Inr (buffer', of_nat n, w')
     \<and> concat buffer' = drop n (concat buffer) \<and> n \<le> length (concat buffer) \<and> (concat buffer \<noteq> [] \<longrightarrow> 0 < n)
     \<and> sink (FileDescriptor_fd_num fd w) (w_kernel w') = sink (FileDescriptor_fd_num fd w) (w_kernel w) @ take n (concat buffer)
     \<and> FileDescriptor_fd_num fd w' = FileDescriptor_fd_num fd w \<and> w_user w' = w_user w"
proof -
  let ?num = "FileDescriptor_fd_num fd w"
  from assms(1) obtain n r k' where
    k0: "sc_call sc (Sys_writev ?num (BufferViewList_as_iovecs buffer)) (w_kernel w) = (r, k')"
    and k: "sr_value r = int n"
      "n \<le> length (concat buffer)" "n < 2 ^ 31" "concat buffer \<noteq> [] \<longrightarrow> 0 < n"
      "sink ?num k' = sink ?num (w_kernel w) @ take n (concat buffer)"
    unfolding writes_prefix_def by (metis as_iovecs_bytes)
  have inv: "BufferViewList_inv buffer" using assms(2) by (simp add: BufferViewList_inv_def)
  have sz: "BufferViewList_size buffer = list_size (concat buffer)" by (rule view_list.size_view [OF inv])
  have un: "unat (list_size (concat buffer)) = length (concat buffer)" using assms(2) by (simp add: unat_list_size)
  have i32: "int32 (int n) = int n" using k(3) by (simp add: int32_def signed_take_bit_int_eq_self)
  have wn: "unat (of_nat n :: size_t) = n" using k(3) by (simp add: unat_of_nat take_bit_nat_eq_self)
  have "uint (list_size (concat buffer)) = int (length (concat buffer))" using arg_cong [OF un, of int] by simp
  then have sg: "sint (list_size (concat buffer)) = int (length (concat buffer))"
    using assms(2) by (simp add: sint_uint signed_take_bit_int_eq_self)
  have nz: "\<not> (int n = 0 \<and> BufferViewList_size buffer \<noteq> 0)" using k(4) by (auto simp: sz)
  obtain buffer' where b: "BufferViewList_remove_prefix buffer (of_nat n) = Inr buffer'"
      "concat buffer' = drop n (concat buffer)"
    using view_list.remove_ok [OF inv, of "of_nat n"] k(2) by (auto simp: wn)
  define w' where "w' = FileDescriptor_register_write fd (w\<lparr>w_kernel := k'\<rparr>)"
  have "FileDescriptor_write_once sc fd buffer w = Inr (buffer', of_nat n, w')"
    using k0 k(1,2) b(1) nz by (simp add: FileDescriptor_write_once_def do_call_def SystemCall_def i32 sz sg w'_def Let_def)
  moreover have "FileDescriptor_fd_num fd w' = FileDescriptor_fd_num fd w"
    by (simp add: w'_def) (simp add: FileDescriptor_fd_num_def fd_at_def)
  moreover have "sink ?num (w_kernel w') = sink ?num (w_kernel w) @ take n (concat buffer)" "w_user w' = w_user w"
    using k(5) by (simp_all add: w'_def)
  ultimately show ?thesis using b(2) k(2,4) by blast
qed

lemma write_loop_ok:
  assumes "writes_prefix sc sink"
  shows "length (concat buffer) < 2 ^ 63 \<Longrightarrow>
     \<exists>w'. FileDescriptor_write_loop sc fd True so_far buffer w = Inr (so_far + list_size (concat buffer), w')
     \<and> sink (FileDescriptor_fd_num fd w) (w_kernel w') = sink (FileDescriptor_fd_num fd w) (w_kernel w) @ concat buffer
     \<and> w_user w' = w_user w"
proof (induction "length (concat buffer)" arbitrary: buffer so_far w rule: less_induct)
  case less
  from write_once_ok [OF assms less.prems, of fd w] obtain n buffer' w1 where
    1: "FileDescriptor_write_once sc fd buffer w = Inr (buffer', of_nat n, w1)"
      "concat buffer' = drop n (concat buffer)" "n \<le> length (concat buffer)" "concat buffer \<noteq> [] \<longrightarrow> 0 < n"
      "sink (FileDescriptor_fd_num fd w) (w_kernel w1) = sink (FileDescriptor_fd_num fd w) (w_kernel w) @ take n (concat buffer)"
      "FileDescriptor_fd_num fd w1 = FileDescriptor_fd_num fd w" "w_user w1 = w_user w"
    by blast
  have l: "length (concat buffer') < 2 ^ 63" "length (concat buffer') = length (concat buffer) - n"
    using less.prems 1(2) by simp_all
  have sz: "BufferViewList_size buffer' = list_size (concat buffer')"
    by (rule view_list.size_view) (use l in \<open>simp add: BufferViewList_inv_def\<close>)
  have un: "unat (list_size (concat buffer')) = length (concat buffer')" using l(1) by (simp add: unat_list_size)
  have tot: "of_nat n + list_size (concat buffer') = list_size (concat buffer)"
    using 1(3) by (simp add: list_size_def 1(2) of_nat_diff)
  show ?case
  proof (cases "concat buffer' = []")
    case True
    have "length (concat buffer') = 0" unfolding True by simp
    then have n: "n = length (concat buffer)" using l(2) 1(3) by linarith
    have "BufferViewList_size buffer' = 0" unfolding sz True by simp
    with n show ?thesis
      using 1(1,5,7) by (subst FileDescriptor_write_loop.simps) (simp add: list_size_def)
  next
    case False
    then have "BufferViewList_size buffer' \<noteq> 0" using un sz by auto
    moreover have "length (concat buffer') < length (concat buffer)" using l(2) 1(2-4) False by auto
    note less.hyps [OF this l(1), of "so_far + of_nat n" w1]
    ultimately show ?thesis using 1 tot
      by (subst FileDescriptor_write_loop.simps) (auto simp: add.assoc)
  qed
qed

text \<open>A kernel with one descriptor that takes at most two bytes at a time.\<close>

definition example_sc :: "bytes syscalls" where
  "example_sc = \<lparr>sc_call = (\<lambda>c k.
       let none = \<lparr>sr_value = 0, sr_errno = 0, sr_data = [], sr_address = [], sr_address_size = 0, sr_option = (0, 0),
                   sr_revents = [], sr_pair = (0, 0)\<rparr>
       in case c of
            Sys_writev _ iov \<Rightarrow>
              (let bs = take 2 (concat (map fst iov)) in (none\<lparr>sr_value := int (length bs)\<rparr>, k @ bs))
          | _ \<Rightarrow> (none, k)),
      sc_strerror = (\<lambda>_. [])\<rparr>"

lemma example_writes_prefix: "writes_prefix example_sc (\<lambda>_ k. k)"
  unfolding writes_prefix_def
proof (intro allI)
  fix num :: int and iov :: "(bytes \<times> size_t) list" and k :: bytes
  let ?bs = "concat (map fst iov)"
  obtain r where "sc_call example_sc (Sys_writev num iov) k = (r, k @ take (min 2 (length ?bs)) ?bs)"
      "sr_value r = int (min 2 (length ?bs))"
    by (simp add: example_sc_def Let_def min_def)
  then show "\<exists>n r k'. sc_call example_sc (Sys_writev num iov) k = (r, k') \<and> sr_value r = int n \<and> n \<le> length ?bs
      \<and> n < 2 ^ 31 \<and> (?bs \<noteq> [] \<longrightarrow> 0 < n) \<and> k' = k @ take n ?bs"
    by (intro exI [of _ "min 2 (length ?bs)"] exI [of _ r] exI [of _ "k @ take (min 2 (length ?bs)) ?bs"]) auto
qed

section \<open>Properties\<close>

text \<open>
  C40. A complete write returns and loses nothing: on a kernel whose \<open>writev\<close> transfers at least
  one of the bytes it is given, however few each time, \<open>FileDescriptor::write\<close> with
  \<open>write_all\<close> ends without an exception, returns the size of the buffer, and the descriptor
  has received exactly the bytes of the buffer in order.
\<close>

theorem FileDescriptor_write_all:
  assumes "writes_prefix sc sink" and "length (concat buffer) < 2 ^ 63"
  shows "\<exists>w'. FileDescriptor_write sc fd buffer True w = Inr (list_size (concat buffer), w')
     \<and> sink (FileDescriptor_fd_num fd w) (w_kernel w') = sink (FileDescriptor_fd_num fd w) (w_kernel w) @ concat buffer
     \<and> w_user w' = w_user w"
  using write_loop_ok [OF assms, of fd 0 w] by (simp add: FileDescriptor_write_def)

theorem FileDescriptor_write_all_witness:
  "\<exists>w'. FileDescriptor_write example_sc 0 [[1, 2, 3], [], [4, 5]] True
       \<lparr>w_kernel = [9], w_fds = [\<lparr>fd_fd = 3, fd_eof = False, fd_closed = False, fd_read_count = 0, fd_write_count = 0\<rparr>], w_user = ()\<rparr>
     = Inr (5, w') \<and> w_kernel w' = [9, 1, 2, 3, 4, 5]"
proof -
  from FileDescriptor_write_all [OF example_writes_prefix, of "[[1, 2, 3], [], [4, 5]]" 0
      "\<lparr>w_kernel = [9], w_fds = [\<lparr>fd_fd = 3, fd_eof = False, fd_closed = False, fd_read_count = 0, fd_write_count = 0\<rparr>], w_user = ()\<rparr>"]
  show ?thesis by (auto simp: list_size_def)
qed

end
