(* ===== verification/Sockets.thy ===== *)
theory Sockets
  imports File_Descriptor
begin

text \<open>
  \<open>util/socket.cc\<close>: sockets are file descriptors, so their operations act on the same store
  and kernel. Addresses given to the kernel are the bytes of the socket address.
\<close>

section \<open>Constants of the C library\<close>

definition AF_UNIX :: int where "AF_UNIX = 1"
definition SOCK_STREAM :: int where "SOCK_STREAM = 1"
definition SOCK_DGRAM :: int where "SOCK_DGRAM = 2"
definition SOL_SOCKET :: int where "SOL_SOCKET = 1"
definition SO_REUSEADDR :: int where "SO_REUSEADDR = 2"
definition SO_TYPE :: int where "SO_TYPE = 3"
definition SO_DOMAIN :: int where "SO_DOMAIN = 39"
definition MSG_TRUNC :: int where "MSG_TRUNC = 0x20"
definition SHUT_RD :: int where "SHUT_RD = 0"
definition SHUT_WR :: int where "SHUT_WR = 1"
definition SHUT_RDWR :: int where "SHUT_RDWR = 2"

section \<open>Socket\<close>

definition Socket_new :: "'k syscalls \<Rightarrow> int \<Rightarrow> int \<Rightarrow> ('k, 'u) world \<Rightarrow> (FileDescriptor \<times> ('k, 'u) world) result" where
  "Socket_new sc domain type w =
     result_bind (do_call sc ''socket'' (Sys_socket domain type) w) (\<lambda>(fd, _, w). FileDescriptor_new fd w)"

text \<open>The checks of the constructor from a descriptor: the domain, then the type.\<close>

definition Socket_verify ::
  "'k syscalls \<Rightarrow> FileDescriptor \<Rightarrow> int \<Rightarrow> int \<Rightarrow> string \<Rightarrow> ('k, 'u) world \<Rightarrow> ('k, 'u) world result" where
  "Socket_verify sc fd option_name expected message w =
     result_bind (do_call sc ''getsockopt'' (Sys_getsockopt (FileDescriptor_fd_num fd w) SOL_SOCKET option_name) w)
       (\<lambda>(_, r, w). let (actual_value, len) = sr_option r
          in if len \<noteq> 4 \<or> actual_value \<noteq> expected then Inl (Runtime_error message) else Inr w)"

definition Socket_of_fd :: "'k syscalls \<Rightarrow> FileDescriptor \<Rightarrow> int \<Rightarrow> int \<Rightarrow> ('k, 'u) world \<Rightarrow> (FileDescriptor \<times> ('k, 'u) world) result" where
  "Socket_of_fd sc fd domain type w =
     result_bind (Socket_verify sc fd SO_DOMAIN domain ''socket domain mismatch'' w) (\<lambda>w.
     result_map (Pair fd) (Socket_verify sc fd SO_TYPE type ''socket type mismatch'' w))"

definition Socket_get_address ::
  "'k syscalls \<Rightarrow> string \<Rightarrow> (int \<Rightarrow> syscall) \<Rightarrow> FileDescriptor \<Rightarrow> ('k, 'u) world \<Rightarrow> (Address \<times> ('k, 'u) world) result" where
  "Socket_get_address sc name_of_function call fd w =
     result_bind (do_call sc name_of_function (call (FileDescriptor_fd_num fd w)) w) (\<lambda>(_, r, w).
     result_map (\<lambda>a. (a, w)) (Address_of_sockaddr (sr_address r) (ucast (sr_address_size r))))"

definition Socket_local_address :: "'k syscalls \<Rightarrow> FileDescriptor \<Rightarrow> ('k, 'u) world \<Rightarrow> (Address \<times> ('k, 'u) world) result" where
  "Socket_local_address sc = Socket_get_address sc ''getsockname'' Sys_getsockname"

definition Socket_peer_address :: "'k syscalls \<Rightarrow> FileDescriptor \<Rightarrow> ('k, 'u) world \<Rightarrow> (Address \<times> ('k, 'u) world) result" where
  "Socket_peer_address sc = Socket_get_address sc ''getpeername'' Sys_getpeername"

definition Socket_bind :: "'k syscalls \<Rightarrow> FileDescriptor \<Rightarrow> Address \<Rightarrow> ('k, 'u) world \<Rightarrow> ('k, 'u) world result" where
  "Socket_bind sc fd address w =
     result_map (\<lambda>(_, _, w). w)
       (do_call sc ''bind'' (Sys_bind (FileDescriptor_fd_num fd w) (ad_storage address) (ad_size address)) w)"

definition Socket_connect :: "'k syscalls \<Rightarrow> FileDescriptor \<Rightarrow> Address \<Rightarrow> ('k, 'u) world \<Rightarrow> ('k, 'u) world result" where
  "Socket_connect sc fd address w =
     result_map (\<lambda>(_, _, w). w)
       (do_call sc ''connect'' (Sys_connect (FileDescriptor_fd_num fd w) (ad_storage address) (ad_size address)) w)"

definition Socket_shutdown :: "'k syscalls \<Rightarrow> FileDescriptor \<Rightarrow> int \<Rightarrow> ('k, 'u) world \<Rightarrow> ('k, 'u) world result" where
  "Socket_shutdown sc fd how w =
     result_bind (do_call sc ''shutdown'' (Sys_shutdown (FileDescriptor_fd_num fd w) how) w) (\<lambda>(_, _, w).
       if how = SHUT_RD then Inr (FileDescriptor_register_read fd w)
       else if how = SHUT_WR then Inr (FileDescriptor_register_write fd w)
       else if how = SHUT_RDWR then Inr (FileDescriptor_register_write fd (FileDescriptor_register_read fd w))
       else Inl (Runtime_error ''Socket::shutdown() called with invalid `how`''))"

definition Socket_set_reuseaddr :: "'k syscalls \<Rightarrow> FileDescriptor \<Rightarrow> ('k, 'u) world \<Rightarrow> ('k, 'u) world result" where
  "Socket_set_reuseaddr sc fd w =
     result_map (\<lambda>(_, _, w). w)
       (do_call sc ''setsockopt'' (Sys_setsockopt (FileDescriptor_fd_num fd w) SOL_SOCKET SO_REUSEADDR 1) w)"

section \<open>UDPSocket\<close>

definition UDPSocket_recv ::
  "'k syscalls \<Rightarrow> FileDescriptor \<Rightarrow> size_t \<Rightarrow> ('k, 'u) world \<Rightarrow> ((Address \<times> bytes) \<times> ('k, 'u) world) result" where
  "UDPSocket_recv sc fd mtu w =
     result_bind (do_call sc ''recvfrom'' (Sys_recvfrom (FileDescriptor_fd_num fd w) mtu MSG_TRUNC) w)
       (\<lambda>(recv_len, r, w).
          let payload = string_resize (unat mtu) (sr_data r)
          in if recv_len > sint mtu then Inl (Runtime_error ''recvfrom (oversized datagram)'')
             else
               let w = FileDescriptor_register_read fd w
               in result_bind (Address_of_sockaddr (sr_address r) (ucast (sr_address_size r))) (\<lambda>source_address.
                    if recv_len < 0 then Inl Length_error
                    else Inr ((source_address, string_resize (nat recv_len) payload), w)))"

definition sendmsg_helper ::
  "'k syscalls \<Rightarrow> int \<Rightarrow> (bytes \<times> u32) option \<Rightarrow> BufferViewList \<Rightarrow> ('k, 'u) world \<Rightarrow> ('k, 'u) world result" where
  "sendmsg_helper sc fd_num destination payload w =
     result_bind (do_call sc ''sendmsg'' (Sys_sendmsg fd_num destination (BufferViewList_as_iovecs payload)) w)
       (\<lambda>(bytes_sent, _, w).
          if (word_of_int bytes_sent :: size_t) \<noteq> BufferViewList_size payload
          then Inl (Runtime_error ''datagram payload too big for sendmsg()'')
          else Inr w)"

definition UDPSocket_sendto ::
  "'k syscalls \<Rightarrow> FileDescriptor \<Rightarrow> Address \<Rightarrow> BufferViewList \<Rightarrow> ('k, 'u) world \<Rightarrow> ('k, 'u) world result" where
  "UDPSocket_sendto sc fd destination payload w =
     result_map (FileDescriptor_register_write fd)
       (sendmsg_helper sc (FileDescriptor_fd_num fd w) (Some (ad_storage destination, ad_size destination)) payload w)"

definition UDPSocket_send :: "'k syscalls \<Rightarrow> FileDescriptor \<Rightarrow> BufferViewList \<Rightarrow> ('k, 'u) world \<Rightarrow> ('k, 'u) world result" where
  "UDPSocket_send sc fd payload w =
     result_map (FileDescriptor_register_write fd) (sendmsg_helper sc (FileDescriptor_fd_num fd w) None payload w)"

section \<open>TCPSocket\<close>

definition TCPSocket_listen :: "'k syscalls \<Rightarrow> FileDescriptor \<Rightarrow> int \<Rightarrow> ('k, 'u) world \<Rightarrow> ('k, 'u) world result" where
  "TCPSocket_listen sc fd backlog w =
     result_map (\<lambda>(_, _, w). w) (do_call sc ''listen'' (Sys_listen (FileDescriptor_fd_num fd w) backlog) w)"

definition TCPSocket_accept :: "'k syscalls \<Rightarrow> FileDescriptor \<Rightarrow> ('k, 'u) world \<Rightarrow> (FileDescriptor \<times> ('k, 'u) world) result" where
  "TCPSocket_accept sc fd w =
     (let w = FileDescriptor_register_read fd w
      in result_bind (do_call sc ''accept'' (Sys_accept (FileDescriptor_fd_num fd w)) w) (\<lambda>(num, _, w).
         result_bind (FileDescriptor_new num w) (\<lambda>(fd', w). Socket_of_fd sc fd' AF_INET SOCK_STREAM w)))"

end
