(* ===== verification/Event_Loop.thy ===== *)
theory Event_Loop
  imports File_Descriptor "HOL-Library.Sublist"
begin

text \<open>
  \<open>util/eventloop.cc\<close>: rules over descriptors of the store, whose callbacks act on the world.
  The predicates of interest of the sources only look at the world. The lemmas show that a
  round only ever removes rules.
\<close>

section \<open>Rules\<close>

datatype Direction = In | Out

definition POLLIN :: int where "POLLIN = 1"
definition POLLOUT :: int where "POLLOUT = 4"
definition POLLERR :: int where "POLLERR = 8"
definition POLLHUP :: int where "POLLHUP = 16"
definition POLLNVAL :: int where "POLLNVAL = 32"
definition EINTR :: int where "EINTR = 4"

fun Direction_events :: "Direction \<Rightarrow> int" where
  "Direction_events In = POLLIN"
| "Direction_events Out = POLLOUT"

record ('k, 'u) Rule =
  ru_fd :: FileDescriptor
  ru_direction :: Direction
  ru_callback :: "('k, 'u) world \<Rightarrow> ('k, 'u) world result"
  ru_interest :: "('k, 'u) world \<Rightarrow> bool result"
  ru_cancel :: "('k, 'u) world \<Rightarrow> ('k, 'u) world result"

definition Rule_service_count :: "('k, 'u) Rule \<Rightarrow> ('k, 'u) world \<Rightarrow> u32" where
  "Rule_service_count r w =
     (if ru_direction r = In then fd_read_count (fd_at w (ru_fd r)) else fd_write_count (fd_at w (ru_fd r)))"

datatype Result = Success | Timeout | Exit

definition EventLoop_add_rule ::
  "('k, 'u) Rule list \<Rightarrow> FileDescriptor \<Rightarrow> Direction \<Rightarrow> (('k, 'u) world \<Rightarrow> ('k, 'u) world result)
   \<Rightarrow> (('k, 'u) world \<Rightarrow> bool result) \<Rightarrow> (('k, 'u) world \<Rightarrow> ('k, 'u) world result) \<Rightarrow> ('k, 'u) Rule list" where
  "EventLoop_add_rule rules fd direction callback interest cancel =
     rules @ [\<lparr>ru_fd = FileDescriptor_duplicate fd, ru_direction = direction, ru_callback = callback,
               ru_interest = interest, ru_cancel = cancel\<rparr>]"

section \<open>Waiting for the next event\<close>

text \<open>
  The loop that builds the \<open>pollfd\<close> entries: the rules that are left, their entries, whether
  there is something to poll, and the world after the cancellations.
\<close>

primrec EventLoop_setup ::
  "('k, 'u) Rule list \<Rightarrow> ('k, 'u) world \<Rightarrow> (('k, 'u) Rule list \<times> (int \<times> int) list \<times> bool \<times> ('k, 'u) world) result" where
  "EventLoop_setup [] w = Inr ([], [], False, w)"
| "EventLoop_setup (r # rules) w =
     (if ru_direction r = In \<and> FileDescriptor_eof (ru_fd r) w
      then result_bind (ru_cancel r w) (EventLoop_setup rules)
      else if FileDescriptor_closed (ru_fd r) w
      then result_bind (ru_cancel r w) (EventLoop_setup rules)
      else result_bind (ru_interest r w) (\<lambda>interest.
           result_map (\<lambda>(rules, pollfds, something_to_poll, w').
               (r # rules,
                (FileDescriptor_fd_num (ru_fd r) w, if interest then Direction_events (ru_direction r) else 0) # pollfds,
                interest \<or> something_to_poll, w'))
             (EventLoop_setup rules w)))"

text \<open>The loop over the results, with the \<open>events\<close> and \<open>revents\<close> of every entry.\<close>

fun EventLoop_results ::
  "('k, 'u) Rule list \<Rightarrow> (int \<times> int) list \<Rightarrow> ('k, 'u) world \<Rightarrow> (('k, 'u) Rule list \<times> ('k, 'u) world) result" where
  "EventLoop_results [] _ w = Inr ([], w)"
| "EventLoop_results (r # rules) [] w = Inl Undefined_behaviour"
| "EventLoop_results (r # rules) ((events, revents) # pollfds) w =
     (if and revents (or POLLERR POLLNVAL) \<noteq> 0
      then Inl (Runtime_error ''EventLoop: error on polled file descriptor'')
      else
        let poll_ready = (and revents events \<noteq> 0);
            poll_hup = (and revents POLLHUP \<noteq> 0)
        in if poll_hup \<and> events \<noteq> 0 \<and> \<not> poll_ready
           then result_bind (ru_cancel r w) (EventLoop_results rules pollfds)
           else
             result_bind
               (if poll_ready
                then result_bind (ru_callback r w) (\<lambda>w'.
                       if Rule_service_count r w = Rule_service_count r w'
                       then result_bind (ru_interest r w') (\<lambda>interest.
                              if interest
                              then Inl (Runtime_error ''EventLoop: busy wait detected: callback did not read/write fd and is still interested'')
                              else Inr w')
                       else Inr w')
                else Inr w)
               (\<lambda>w. result_map (\<lambda>(rules, w). (r # rules, w)) (EventLoop_results rules pollfds w)))"

text \<open>
  \<open>wait_next_event\<close>. The exception of a failed \<open>poll\<close> is caught: after an interruption the
  call returns \<open>Exit\<close>, and after any other error it goes on to the results.
\<close>

definition EventLoop_wait_next_event ::
  "'k syscalls \<Rightarrow> ('k, 'u) Rule list \<Rightarrow> int \<Rightarrow> ('k, 'u) world \<Rightarrow> (Result \<times> ('k, 'u) Rule list \<times> ('k, 'u) world) result" where
  "EventLoop_wait_next_event sc rules timeout_ms w =
     result_bind (EventLoop_setup rules w) (\<lambda>(rules, pollfds, something_to_poll, w).
       if \<not> something_to_poll then Inr (Exit, rules, w)
       else
         let (r, k) = sc_call sc (Sys_poll pollfds timeout_ms) (w_kernel w);
             w = w\<lparr>w_kernel := k\<rparr>;
             results = result_map (\<lambda>(rules, w). (Success, rules, w))
                         (EventLoop_results rules (zip (map snd pollfds) (sr_revents r)) w)
         in case SystemCall sc ''poll'' (sr_value r) (sr_errno r) 0 of
              Inr v \<Rightarrow> if v = 0 then Inr (Timeout, rules, w) else results
            | Inl _ \<Rightarrow> if sr_errno r = EINTR then Inr (Exit, rules, w) else results)"

section \<open>What a round does to the rules\<close>

lemma setup_subseq: "EventLoop_setup rules w = Inr (rules', pollfds, s, w') \<Longrightarrow>
    subseq rules' rules \<and> length pollfds = length rules'"
proof (induction rules arbitrary: w rules' pollfds s w')
  case (Cons r rules)
  then show ?case
    by (auto simp: result_bind_Inr_iff result_map_Inr_iff split: if_splits dest!: Cons.IH) 
qed simp

lemma results_subseq: "EventLoop_results rules pollfds w = Inr (rules', w') \<Longrightarrow> subseq rules' rules"
proof (induction rules arbitrary: pollfds w rules' w')
  case (Cons r rules)
  obtain events revents ps where "pollfds = (events, revents) # ps" using Cons.prems by (cases pollfds) auto
  with Cons.prems obtain w1 rest where "EventLoop_results rules ps w1 = Inr (rest, w')" "rules' = rest \<or> rules' = r # rest"
    by (auto simp: result_bind_Inr_iff result_map_Inr_iff Let_def split: if_splits; blast)
  with Cons.IH show ?case by auto
qed simp

lemma wait_next_event_subseq:
  assumes "EventLoop_wait_next_event sc rules timeout_ms w = Inr (res, rules', w')"
  shows "subseq rules' rules"
proof -
  from assms obtain rules1 pollfds s w1 where 1: "EventLoop_setup rules w = Inr (rules1, pollfds, s, w1)"
    and "rules' = rules1 \<or> (\<exists>ps w2. EventLoop_results rules1 ps w2 = Inr (rules', w'))"
    by (auto simp: EventLoop_wait_next_event_def result_bind_Inr_iff result_map_Inr_iff Let_def split: if_splits prod.splits sum.splits; blast)
  then show ?thesis using setup_subseq [OF 1] by (metis results_subseq subseq_order.trans)
qed

end
