(* ===== verification/Stream_Pump.thy ===== *)
theory Stream_Pump
  imports File_Descriptor Byte_Stream
begin

text \<open>
  Moving bytes between a descriptor and a byte stream, as the rules of \<open>TCPSpongeSocket\<close> and of
  \<open>bidirectional_stream_copy\<close> do: what a read delivers fits in the stream it was sized for, and
  what is written and then popped is neither lost nor repeated.
\<close>

section \<open>The state of the program\<close>

definition user_modify :: "('u \<Rightarrow> 'u) \<Rightarrow> ('k, 'u) world \<Rightarrow> ('k, 'u) world" where
  "user_modify f w = w\<lparr>w_user := f (w_user w)\<rparr>"

lemma user_modify_simps [simp]:
  "w_user (user_modify f w) = f (w_user w)" "w_kernel (user_modify f w) = w_kernel w" "w_fds (user_modify f w) = w_fds w"
  by (simp_all add: user_modify_def)

lemma length_string_resize: "length (string_resize n s) = n"
  by (simp add: string_resize_def)

lemma read_length:
  assumes "FileDescriptor_read sc fd limit w = Inr (data, w')"
  shows "length data \<le> unat limit"
proof -
  define m where "m = min BUFFER_SIZE limit"
  let ?call = "do_call sc ''read'' (Sys_read (FileDescriptor_fd_num fd w) m) w"
  obtain n r w1 where "?call = Inr (n, r, w1)"
    using assms unfolding FileDescriptor_read_def Let_def m_def [symmetric]
    by (cases ?call) auto
  then have "data = string_resize (nat n) (string_resize (unat m) (sr_data r)) \<and> n \<le> int (unat m)"
    using assms unfolding FileDescriptor_read_def Let_def m_def [symmetric]
    by (simp split: if_splits)
  then have "length data \<le> unat m" by (simp only: length_string_resize nat_le_iff)
  also have "\<dots> \<le> unat limit" by (simp add: m_def word_le_nat_alt [symmetric])
  finally show ?thesis .
qed

section \<open>From a stream to a descriptor\<close>

lemma peek_nonempty:
  assumes "ByteStream_inv bs" and "bs_buffer bs \<noteq> []"
  shows "ByteStream_peek_output bs (min 65536 (ByteStream_buffer_size bs)) \<noteq> []"
proof -
  have "unat (list_size (bs_buffer bs)) = length (bs_buffer bs)"
    using assms(1) by (intro unat_list_size) (simp add: ByteStream_inv_def)
  then have "ByteStream_avail bs (min 65536 (ByteStream_buffer_size bs)) = min 65536 (length (bs_buffer bs))"
    by (simp add: ByteStream_avail_def ByteStream_buffer_size_def min_def word_le_nat_alt)
  then show ?thesis
    using assms(2) by (simp add: ByteStream_peek_output_def ByteStream_peek_len [OF assms(1)])
qed

text \<open>What is written to a descriptor and popped from a stream.\<close>

lemma write_pop:
  fixes fd :: FileDescriptor and w :: "('k, 'u) world"
  defines "num \<equiv> FileDescriptor_fd_num fd w"
  assumes law: "writes_prefix sc sink" and inv: "ByteStream_inv bs"
    and buffer: "buffer = ByteStream_peek_output bs (min 65536 (ByteStream_buffer_size bs))"
  shows "\<exists>n w1. FileDescriptor_write sc fd [buffer] False w = Inr (n, w1)
     \<and> w_user w1 = w_user w \<and> FileDescriptor_fd_num fd w1 = num
     \<and> sink num (w_kernel w1) @ bs_buffer (ByteStream_pop_output bs n) = sink num (w_kernel w) @ bs_buffer bs
     \<and> (bs_buffer bs \<noteq> [] \<longrightarrow> length (bs_buffer (ByteStream_pop_output bs n)) < length (bs_buffer bs))"
proof -
  have pre: "\<exists>m. buffer = take m (bs_buffer bs)"
    unfolding buffer ByteStream_peek_output_def Let_def by blast
  have l: "length (bs_buffer bs) < 2 ^ 31" using inv by (simp add: ByteStream_inv_def)
  then have "length (concat [buffer]) < 2 ^ 63" using pre by auto
  from write_once_ok [OF law this, of fd w] obtain n buffer' w1 where
    1: "FileDescriptor_write_once sc fd [buffer] w = Inr (buffer', of_nat n, w1)" "n \<le> length buffer"
      "sink num (w_kernel w1) = sink num (w_kernel w) @ take n buffer"
      "w_user w1 = w_user w" "FileDescriptor_fd_num fd w1 = num" "buffer \<noteq> [] \<longrightarrow> 0 < n"
    by (auto simp: num_def)
  have wr: "FileDescriptor_write sc fd [buffer] False w = Inr (of_nat n, w1)"
    unfolding FileDescriptor_write_def using 1(1) by (subst FileDescriptor_write_loop.simps) simp
  have nl: "n \<le> length (bs_buffer bs)" using 1(2) pre by auto
  then have "unat (of_nat n :: size_t) = n" using l by (simp add: unat_of_nat take_bit_nat_eq_self)
  then have "ByteStream_avail bs (of_nat n) = n" using nl by (simp add: ByteStream_avail_def)
  then have out: "bs_buffer (ByteStream_pop_output bs (of_nat n)) = drop n (bs_buffer bs)"
    unfolding ByteStream_pop_output_def Let_def
    using ByteStream_peek_len [OF inv, of "of_nat n"] by (simp add: funpow_pop_front)
  have "take n buffer = take n (bs_buffer bs)" using pre 1(2) by auto
  moreover have "bs_buffer bs \<noteq> [] \<longrightarrow> 0 < n" using peek_nonempty [OF inv] 1(6) by (simp add: buffer)
  ultimately show ?thesis using wr 1(3-5) out by (intro exI [of _ "of_nat n"] exI [of _ w1]) auto
qed

text \<open>The kernel sees one call, and the descriptors keep their numbers.\<close>

lemma fd_num_modify:
  assumes "\<And>x. fd_fd (g x) = fd_fd x"
  shows "FileDescriptor_fd_num fd' (fd_modify g fd w) = FileDescriptor_fd_num fd' w"
proof (cases "fd < length (w_fds w)")
  case True
  then show ?thesis
    using assms by (cases "fd' = fd") (simp_all add: FileDescriptor_fd_num_def fd_at_def fd_modify_def)
next
  case False
  then show ?thesis by (simp add: FileDescriptor_fd_num_def fd_at_def fd_modify_def list_update_beyond)
qed

lemma fd_num_kernel [simp]: "FileDescriptor_fd_num fd (w\<lparr>w_kernel := k\<rparr>) = FileDescriptor_fd_num fd w"
  by (simp add: FileDescriptor_fd_num_def fd_at_def)

lemma fd_num_user [simp]: "FileDescriptor_fd_num fd (user_modify f w) = FileDescriptor_fd_num fd w"
  by (simp add: FileDescriptor_fd_num_def fd_at_def)

lemma fd_num_register [simp]:
  "FileDescriptor_fd_num fd' (FileDescriptor_register_read fd w) = FileDescriptor_fd_num fd' w"
  "FileDescriptor_fd_num fd' (FileDescriptor_register_write fd w) = FileDescriptor_fd_num fd' w"
  by (simp_all add: FileDescriptor_register_read_def FileDescriptor_register_write_def fd_num_modify)

lemma fd_modify_simps [simp]:
  "w_kernel (fd_modify g fd w) = w_kernel w" "w_user (fd_modify g fd w) = w_user w"
  by (simp_all add: fd_modify_def)

lemma write_frame:
  assumes "FileDescriptor_write sc fd buffer False w = Inr (n, w1)"
  shows "w_kernel w1 = snd (sc_call sc (Sys_writev (FileDescriptor_fd_num fd w) (BufferViewList_as_iovecs buffer)) (w_kernel w))"
    and "FileDescriptor_fd_num fd' w1 = FileDescriptor_fd_num fd' w"
proof -
  let ?call = "Sys_writev (FileDescriptor_fd_num fd w) (BufferViewList_as_iovecs buffer)"
  obtain buffer' m where "FileDescriptor_write_once sc fd buffer w = Inr (buffer', m, w1)"
    using assms unfolding FileDescriptor_write_def
    by (subst (asm) FileDescriptor_write_loop.simps) (auto split: sum.splits prod.splits)
  moreover obtain r k where "sc_call sc ?call (w_kernel w) = (r, k)" by fastforce
  ultimately have "w1 = FileDescriptor_register_write fd (w\<lparr>w_kernel := snd (sc_call sc ?call (w_kernel w))\<rparr>)"
    by (auto simp: FileDescriptor_write_once_def do_call_def SystemCall_def result_bind_Inr_iff result_map_Inr_iff Let_def
        split: if_splits)
  then show "w_kernel w1 = snd (sc_call sc ?call (w_kernel w))" "FileDescriptor_fd_num fd' w1 = FileDescriptor_fd_num fd' w"
    by (simp_all add: FileDescriptor_register_write_def fd_num_modify)
qed

section \<open>From a descriptor to a stream\<close>

text \<open>
  What is relied on of \<open>read\<close>: it delivers the front of what \<open>source\<close> shows of the descriptor,
  at most as much as was asked for, and returns how much.
\<close>

definition reads_prefix :: "'k syscalls \<Rightarrow> (int \<Rightarrow> 'k \<Rightarrow> bytes) \<Rightarrow> bool" where
  "reads_prefix sc source \<longleftrightarrow> (\<forall>num limit k. \<exists>n r k'.
     sc_call sc (Sys_read num limit) k = (r, k') \<and> sr_value r = int n \<and> n \<le> unat limit \<and> n < 2 ^ 31
     \<and> n \<le> length (sr_data r) \<and> source num k = take n (sr_data r) @ source num k')"

lemma string_resize_take: "n \<le> m \<Longrightarrow> n \<le> length s \<Longrightarrow> string_resize n (string_resize m s) = take n s"
  by (simp add: string_resize_def)

lemma read_ok:
  fixes fd :: FileDescriptor and w :: "('k, 'u) world"
  defines "num \<equiv> FileDescriptor_fd_num fd w"
  assumes law: "reads_prefix sc source"
  shows "\<exists>data w1. FileDescriptor_read sc fd limit w = Inr (data, w1) \<and> w_user w1 = w_user w
     \<and> source num (w_kernel w) = data @ source num (w_kernel w1)
     \<and> w_kernel w1 = snd (sc_call sc (Sys_read num (min BUFFER_SIZE limit)) (w_kernel w))
     \<and> (\<forall>fd'. FileDescriptor_fd_num fd' w1 = FileDescriptor_fd_num fd' w)"
proof -
  define m where "m = min BUFFER_SIZE limit"
  from law obtain n r k' where k: "sc_call sc (Sys_read num m) (w_kernel w) = (r, k')" "sr_value r = int n" "n \<le> unat m"
      "n < 2 ^ 31" "n \<le> length (sr_data r)" "source num (w_kernel w) = take n (sr_data r) @ source num k'"
    unfolding reads_prefix_def by blast
  have i32: "int32 (int n) = int n" using k(4) by (simp add: int32_def signed_take_bit_int_eq_self)
  have "int n \<le> int (unat m)" using k(3) by (simp only: of_nat_le_iff)
  then have nm: "\<not> uint m < int n" by simp
  define w1 where "w1 = FileDescriptor_register_read fd
      (if limit > 0 \<and> n = 0 then fd_modify (fd_eof_update (\<lambda>_. True)) fd (w\<lparr>w_kernel := k'\<rparr>) else w\<lparr>w_kernel := k'\<rparr>)"
  have rd: "FileDescriptor_read sc fd limit w = Inr (take n (sr_data r), w1)"
    using k(1-3,5) unfolding FileDescriptor_read_def Let_def m_def [symmetric]
    by (simp add: do_call_def num_def [symmetric] SystemCall_def i32 nm string_resize_take w1_def)
  have w1: "w_kernel w1 = k'" "w_user w1 = w_user w" "\<And>fd'. FileDescriptor_fd_num fd' w1 = FileDescriptor_fd_num fd' w"
    by (simp_all add: w1_def fd_num_modify) (simp_all add: FileDescriptor_register_read_def)
  show ?thesis using rd w1 k(1,6) unfolding m_def
    by (intro exI [of _ "take n (sr_data r)"] exI [of _ w1]) simp
qed

text \<open>An open stream takes everything that was read for it.\<close>

lemma stream_takes:
  assumes "ByteStream_inv bs" and "\<not> bs_input_ended bs" and "length data \<le> unat (ByteStream_remaining_capacity bs)"
  shows "bs_buffer (fst (ByteStream_write bs data)) = bs_buffer bs @ data"
    and "snd (ByteStream_write bs data) = list_size data"
proof -
  have l: "length data \<le> unat (bs_capacity bs) - length (bs_buffer bs)"
    using assms(3) remaining_capacity_unat [OF assms(1)] by simp
  then have "length data < 2 ^ 31" using assms(1) unfolding ByteStream_inv_def by linarith
  then have "ByteStream_room bs data = length data" using l by (simp add: ByteStream_room_def unat_list_size_31)
  then show "bs_buffer (fst (ByteStream_write bs data)) = bs_buffer bs @ data"
      "snd (ByteStream_write bs data) = list_size data"
    using ByteStream_write_open [OF assms(1,2), of data] by (simp_all add: list_size_def)
qed

end
