(* ===== verification/Sponge_Socket.thy ===== *)
theory Sponge_Socket
  imports TCP_Connection TCP_Over_IP Sockets Event_Loop Stream_Pump
begin

text \<open>
  \<open>tcp_helpers/tcp_sponge_socket.cc\<close>: the socket that runs a \<open>TCPConnection\<close> over an adapter
  with an event loop of four rules. The state of the socket is the user part of the world. The
  connection is driven by one thread at a time (the caller of \<open>connect\<close>, then the thread that
  runs \<open>_tcp_main\<close>), and the owner talks to it through a pair of stream sockets and an
  abort flag; so the flag, the clock and the random device are parameters over the kernel,
  which may change between any two calls, and the threads themselves are not modelled.
\<close>

section \<open>State\<close>

record 'a sponge =
  sp_main :: FileDescriptor
  sp_thread_data :: FileDescriptor
  sp_adapter_fd :: FileDescriptor
  sp_adapter :: 'a
  sp_tcp :: "TCPConnection option"
  sp_inbound_shutdown :: bool
  sp_outbound_shutdown :: bool
  sp_fully_acked :: bool
  sp_cerr :: string

type_synonym ('k, 'a) sponge_world = "('k, 'a sponge) world"

record 'k environment =
  en_sc :: "'k syscalls"
  en_rs :: resolver
  en_timestamp_ms :: "'k \<Rightarrow> u64 \<times> 'k"
  en_abort :: "'k \<Rightarrow> bool"
  en_random_device :: "'k \<Rightarrow> u32 \<times> 'k"

text \<open>What \<open>TCPSpongeSocket\<close> asks of its adapter.\<close>

record ('k, 'a) adapter_ops =
  ao_read :: "('k, 'a) sponge_world \<Rightarrow> (TCPSegment option \<times> ('k, 'a) sponge_world) result"
  ao_write :: "TCPSegment \<Rightarrow> ('k, 'a) sponge_world \<Rightarrow> (TCPSegment \<times> ('k, 'a) sponge_world) result"
  ao_tick :: "size_t \<Rightarrow> ('k, 'a) sponge_world \<Rightarrow> ('k, 'a) sponge_world result"
  ao_base :: "'a \<Rightarrow> FdAdapterBase"
  ao_set_base :: "FdAdapterBase \<Rightarrow> 'a \<Rightarrow> 'a"

definition put_adapter :: "'a \<Rightarrow> ('k, 'a) sponge_world \<Rightarrow> ('k, 'a) sponge_world" where
  "put_adapter a = user_modify (sp_adapter_update (\<lambda>_. a))"

definition print_cerr :: "string \<Rightarrow> ('k, 'a) sponge_world \<Rightarrow> ('k, 'a) sponge_world" where
  "print_cerr s = user_modify (sp_cerr_update (\<lambda>t. t @ s))"

text \<open>
  \<open>_tcp\<close> holds a connection whenever the code looks at it. On an empty one \<open>->\<close> would be
  undefined and \<open>value()\<close> would throw; the model has one error for both.
\<close>

definition tcp_of :: "('k, 'a) sponge_world \<Rightarrow> TCPConnection result" where
  "tcp_of w = (case sp_tcp (w_user w) of None \<Rightarrow> Inl Undefined_behaviour | Some c \<Rightarrow> Inr c)"

definition put_tcp :: "TCPConnection \<Rightarrow> ('k, 'a) sponge_world \<Rightarrow> ('k, 'a) sponge_world" where
  "put_tcp c = user_modify (sp_tcp_update (\<lambda>_. Some c))"

definition destination_text :: "'k environment \<Rightarrow> ('k, 'a) adapter_ops \<Rightarrow> ('k, 'a) sponge_world \<Rightarrow> string result" where
  "destination_text en ops w =
     Address_to_string (rs_getnameinfo (en_rs en)) (rs_gai_strerror (en_rs en))
       (fc_destination (fa_cfg (ao_base ops (sp_adapter (w_user w)))))"

section \<open>The adapters over descriptors\<close>

text \<open>The reads take as much as there is.\<close>

definition NO_LIMIT :: size_t where
  "NO_LIMIT = 0xffffffffffffffff"

definition write_all :: "'k environment \<Rightarrow> FileDescriptor \<Rightarrow> BufferList \<Rightarrow> ('k, 'u) world \<Rightarrow> ('k, 'u) world result" where
  "write_all en fd bl w = result_map snd (FileDescriptor_write (en_sc en) fd (BufferViewList_of bl) True w)"

definition tun_ops :: "'k environment \<Rightarrow> ('k, FdAdapterBase) adapter_ops" where
  "tun_ops en =
     \<lparr>ao_read = (\<lambda>w. result_bind (FileDescriptor_read (en_sc en) (sp_adapter_fd (w_user w)) NO_LIMIT w) (\<lambda>(bs, w).
          result_map (\<lambda>(seg, a). (seg, put_adapter a w)) (TunAdapter_read (en_rs en) bs (sp_adapter (w_user w))))),
      ao_write = (\<lambda>seg w. result_bind (TunAdapter_write (en_rs en) (sp_adapter (w_user w)) seg) (\<lambda>(bl, seg).
          result_map (Pair seg) (write_all en (sp_adapter_fd (w_user w)) bl w))),
      ao_tick = (\<lambda>ms w. Inr (put_adapter (FdAdapterBase_tick (sp_adapter (w_user w)) ms) w)),
      ao_base = (\<lambda>a. a), ao_set_base = (\<lambda>b _. b)\<rparr>"

definition udp_ops :: "'k environment \<Rightarrow> ('k, FdAdapterBase) adapter_ops" where
  "udp_ops en =
     \<lparr>ao_read = (\<lambda>w. result_bind (UDPSocket_recv (en_sc en) (sp_adapter_fd (w_user w)) 65536 w) (\<lambda>(datagram, w).
          result_map (\<lambda>(seg, a). (seg, put_adapter a w)) (UDPAdapter_read datagram (sp_adapter (w_user w))))),
      ao_write = (\<lambda>seg w. result_bind (UDPAdapter_write (en_rs en) (sp_adapter (w_user w)) seg) (\<lambda>((destination, bl), seg).
          result_map (Pair seg)
            (UDPSocket_sendto (en_sc en) (sp_adapter_fd (w_user w)) destination (BufferViewList_of bl) w))),
      ao_tick = (\<lambda>ms w. Inr (put_adapter (FdAdapterBase_tick (sp_adapter (w_user w)) ms) w)),
      ao_base = (\<lambda>a. a), ao_set_base = (\<lambda>b _. b)\<rparr>"

primrec write_frames :: "'k environment \<Rightarrow> FileDescriptor \<Rightarrow> BufferList list \<Rightarrow> ('k, 'u) world \<Rightarrow> ('k, 'u) world result" where
  "write_frames en fd [] w = Inr w"
| "write_frames en fd (bl # out) w = result_bind (write_all en fd bl w) (write_frames en fd out)"

definition tap_ops :: "'k environment \<Rightarrow> ('k, TapAdapter) adapter_ops" where
  "tap_ops en =
     \<lparr>ao_read = (\<lambda>w. result_bind (FileDescriptor_read (en_sc en) (sp_adapter_fd (w_user w)) NO_LIMIT w) (\<lambda>(bs, w).
          result_bind (TapAdapter_read (en_rs en) bs (sp_adapter (w_user w))) (\<lambda>(seg, out, a).
          result_map (Pair seg) (write_frames en (sp_adapter_fd (w_user w)) out (put_adapter a w))))),
      ao_write = (\<lambda>seg w. result_bind (TapAdapter_write (en_rs en) (sp_adapter (w_user w)) seg) (\<lambda>(out, seg, a).
          result_map (Pair seg) (write_frames en (sp_adapter_fd (w_user w)) out (put_adapter a w)))),
      ao_tick = (\<lambda>ms w. let (out, a) = TapAdapter_tick (sp_adapter (w_user w)) ms
          in write_frames en (sp_adapter_fd (w_user w)) out (put_adapter a w)),
      ao_base = ta_base, ao_set_base = (\<lambda>b a. a\<lparr>ta_base := b\<rparr>)\<rparr>"

section \<open>The four rules\<close>

text \<open>Rule 1: a datagram is read and given to the connection.\<close>

definition sponge_receive ::
  "'k environment \<Rightarrow> ('k, 'a) adapter_ops \<Rightarrow> ('k, 'a) sponge_world \<Rightarrow> ('k, 'a) sponge_world result" where
  "sponge_receive en ops w =
     result_bind (ao_read ops w) (\<lambda>(seg, w).
     result_bind (case seg of
         None \<Rightarrow> Inr w
       | Some seg \<Rightarrow> result_map (\<lambda>c. put_tcp (TCPConnection_segment_received c seg) w) (tcp_of w)) (\<lambda>w.
     if FileDescriptor_eof (sp_thread_data (w_user w)) w
     then result_bind (tcp_of w) (\<lambda>c.
       if TCPConnection_bytes_in_flight c = 0 \<and> \<not> sp_fully_acked (w_user w)
       then result_map (\<lambda>text. user_modify (sp_fully_acked_update (\<lambda>_. True))
                (print_cerr (''DEBUG: Outbound stream to '' @ text @ '' has been fully acknowledged.'' @ [CHR 0x0A]) w))
              (destination_text en ops w)
       else Inr w)
     else Inr w))"

definition sponge_receive_interest :: "('k, 'a) sponge_world \<Rightarrow> bool result" where
  "sponge_receive_interest w = result_map cn_active (tcp_of w)"

text \<open>Rule 2: bytes of the owner are written to the connection.\<close>

definition sponge_end_outbound :: "('k, 'a) sponge_world \<Rightarrow> ('k, 'a) sponge_world result" where
  "sponge_end_outbound w =
     result_map (\<lambda>c. user_modify (sp_outbound_shutdown_update (\<lambda>_. True)) (put_tcp (TCPConnection_end_input_stream c) w))
       (tcp_of w)"

definition sponge_send ::
  "'k environment \<Rightarrow> ('k, 'a) adapter_ops \<Rightarrow> ('k, 'a) sponge_world \<Rightarrow> ('k, 'a) sponge_world result" where
  "sponge_send en ops w =
     result_bind (tcp_of w) (\<lambda>c.
     result_bind (FileDescriptor_read (en_sc en) (sp_thread_data (w_user w)) (TCPConnection_remaining_outbound_capacity c) w)
       (\<lambda>(data, w).
        let (c, amount_written) = TCPConnection_write c data;
            w = put_tcp c w
        in if amount_written \<noteq> list_size data
           then Inl (Runtime_error ''TCPConnection::write() accepted less than advertised length'')
           else if FileDescriptor_eof (sp_thread_data (w_user w)) w
           then result_bind (sponge_end_outbound w) (\<lambda>w.
                result_bind (tcp_of w) (\<lambda>c.
                result_map (\<lambda>text. print_cerr (''DEBUG: Outbound stream to '' @ text @ '' finished (''
                      @ print_dec (unat (TCPConnection_bytes_in_flight c)) @ '' byte''
                      @ (if TCPConnection_bytes_in_flight c = 1 then [] else ''s'') @ '' still in flight).'' @ [CHR 0x0A]) w)
                  (destination_text en ops w)))
           else Inr w))"

definition sponge_send_interest :: "('k, 'a) sponge_world \<Rightarrow> bool result" where
  "sponge_send_interest w =
     result_map (\<lambda>c. cn_active c \<and> \<not> sp_outbound_shutdown (w_user w) \<and> 0 < TCPConnection_remaining_outbound_capacity c)
       (tcp_of w)"

text \<open>
  Rule 3: reassembled bytes are written to the owner, as many as the pipe takes, and the pipe
  is shut down when the stream is finished.
\<close>

definition sponge_inbound_finished ::
  "'k environment \<Rightarrow> ('k, 'a) adapter_ops \<Rightarrow> TCPConnection \<Rightarrow> ('k, 'a) sponge_world \<Rightarrow> ('k, 'a) sponge_world result" where
  "sponge_inbound_finished en ops c w =
     result_bind (Socket_shutdown (en_sc en) (sp_thread_data (w_user w)) SHUT_WR w) (\<lambda>w.
       let w = user_modify (sp_inbound_shutdown_update (\<lambda>_. True)) w
       in result_map (\<lambda>text.
            let w = print_cerr (''DEBUG: Inbound stream from '' @ text @ '' finished ''
                      @ (if bs_error (TCPConnection_inbound_stream c) then ''with an error/reset.'' else ''cleanly.'')
                      @ [CHR 0x0A]) w
            in if TCPState_eq (TCPConnection_state c) (TCPState_of_State TIME_WAIT)
               then print_cerr (''DEBUG: Waiting for lingering segments (e.g. retransmissions of FIN) from peer...''
                      @ [CHR 0x0A]) w
               else w)
          (destination_text en ops w))"

definition sponge_deliver ::
  "'k environment \<Rightarrow> ('k, 'a) adapter_ops \<Rightarrow> ('k, 'a) sponge_world \<Rightarrow> ('k, 'a) sponge_world result" where
  "sponge_deliver en ops w =
     result_bind (tcp_of w) (\<lambda>c.
     let inbound = TCPConnection_inbound_stream c;
         amount_to_write = min 65536 (ByteStream_buffer_size inbound);
         buffer = ByteStream_peek_output inbound amount_to_write
     in result_bind (FileDescriptor_write (en_sc en) (sp_thread_data (w_user w)) [buffer] False w) (\<lambda>(bytes_written, w).
        let inbound = ByteStream_pop_output inbound bytes_written;
            c = c\<lparr>cn_receiver := TCPReceiver_set_stream_out inbound (cn_receiver c)\<rparr>;
            w = put_tcp c w
        in if ByteStream_eof inbound \<or> bs_error inbound then sponge_inbound_finished en ops c w else Inr w))"

definition sponge_deliver_interest :: "('k, 'a) sponge_world \<Rightarrow> bool result" where
  "sponge_deliver_interest w =
     result_map (\<lambda>c. let inbound = TCPConnection_inbound_stream c
         in \<not> ByteStream_buffer_empty inbound
            \<or> (ByteStream_eof inbound \<or> bs_error inbound) \<and> \<not> sp_inbound_shutdown (w_user w))
       (tcp_of w)"

text \<open>Rule 4: the loop over the outbound segments; an adapter does not touch the connection.\<close>

primrec sponge_transmit_loop ::
  "('k, 'a) adapter_ops \<Rightarrow> TCPSegment list \<Rightarrow> ('k, 'a) sponge_world \<Rightarrow> ('k, 'a) sponge_world result" where
  "sponge_transmit_loop ops [] w = Inr w"
| "sponge_transmit_loop ops (seg # segs) w =
     result_bind (ao_write ops seg w) (\<lambda>(_, w).
     result_bind (tcp_of w) (\<lambda>c.
       sponge_transmit_loop ops segs (put_tcp (c\<lparr>cn_segments_out := tl (cn_segments_out c)\<rparr>) w)))"

definition sponge_transmit :: "('k, 'a) adapter_ops \<Rightarrow> ('k, 'a) sponge_world \<Rightarrow> ('k, 'a) sponge_world result" where
  "sponge_transmit ops w = result_bind (tcp_of w) (\<lambda>c. sponge_transmit_loop ops (cn_segments_out c) w)"

definition sponge_transmit_interest :: "('k, 'a) sponge_world \<Rightarrow> bool result" where
  "sponge_transmit_interest w = result_map (\<lambda>c. cn_segments_out c \<noteq> []) (tcp_of w)"

section \<open>The socket\<close>

type_synonym ('k, 'a) sponge_rules = "('k, 'a sponge) Rule list"

text \<open>\<open>rand\<close> is the initial sequence number that the sender draws.\<close>

definition TCPSpongeSocket_initialize_TCP ::
  "'k environment \<Rightarrow> ('k, 'a) adapter_ops \<Rightarrow> u32 \<Rightarrow> TCPConfig \<Rightarrow> ('k, 'a) sponge_rules \<Rightarrow> ('k, 'a) sponge_world
   \<Rightarrow> ('k, 'a) sponge_rules \<times> ('k, 'a) sponge_world" where
  "TCPSpongeSocket_initialize_TCP en ops rand config rules w =
     (let w = put_tcp (TCPConnection_new rand config) w;
          adapter = sp_adapter_fd (w_user w);
          thread_data = sp_thread_data (w_user w);
          rules = EventLoop_add_rule rules adapter In (sponge_receive en ops) sponge_receive_interest Inr;
          rules = EventLoop_add_rule rules thread_data In (sponge_send en ops) sponge_send_interest sponge_end_outbound;
          rules = EventLoop_add_rule rules thread_data Out (sponge_deliver en ops) sponge_deliver_interest Inr;
          rules = EventLoop_add_rule rules adapter Out (sponge_transmit ops) sponge_transmit_interest Inr
      in (rules, w))"

definition TCP_TICK_MS :: int where
  "TCP_TICK_MS = 10"

definition read_clock :: "'k environment \<Rightarrow> ('k, 'u) world \<Rightarrow> u64 \<times> ('k, 'u) world" where
  "read_clock en w = (let (t, k) = en_timestamp_ms en (w_kernel w) in (t, w\<lparr>w_kernel := k\<rparr>))"

text \<open>Time passes for the connection and for the adapter.\<close>

definition sponge_tick ::
  "('k, 'a) adapter_ops \<Rightarrow> size_t \<Rightarrow> ('k, 'a) sponge_world \<Rightarrow> ('k, 'a) sponge_world result" where
  "sponge_tick ops ms w =
     result_bind (tcp_of w) (\<lambda>c.
     result_bind (TCPConnection_tick c ms) (\<lambda>c. ao_tick ops ms (put_tcp c w)))"

text \<open>The loop of \<open>_tcp_loop\<close>; \<open>None\<close> is a loop that does not end.\<close>

partial_function (option) sponge_loop ::
  "'k environment \<Rightarrow> ('k, 'a) adapter_ops \<Rightarrow> (('k, 'a) sponge_world \<Rightarrow> bool result) \<Rightarrow> u64
   \<Rightarrow> ('k, 'a) sponge_rules \<Rightarrow> ('k, 'a) sponge_world
   \<Rightarrow> (('k, 'a) sponge_rules \<times> ('k, 'a) sponge_world) result option" where
  "sponge_loop en ops condition base_time rules w =
     (case condition w of
        Inl e \<Rightarrow> Some (Inl e)
      | Inr continue \<Rightarrow>
          if \<not> continue then Some (Inr (rules, w))
          else
            (case EventLoop_wait_next_event (en_sc en) rules TCP_TICK_MS w of
               Inl e \<Rightarrow> Some (Inl e)
             | Inr (ret, rules, w) \<Rightarrow>
                 if ret = Exit \<or> en_abort en (w_kernel w) then Some (Inr (rules, w))
                 else
                   (case result_map cn_active (tcp_of w) of
                      Inl e \<Rightarrow> Some (Inl e)
                    | Inr active \<Rightarrow>
                        if \<not> active then sponge_loop en ops condition base_time rules w
                        else
                          (case sponge_tick ops (fst (read_clock en w) - base_time) (snd (read_clock en w)) of
                             Inl e \<Rightarrow> Some (Inl e)
                           | Inr w' \<Rightarrow> sponge_loop en ops condition (fst (read_clock en w)) rules w'))))"

definition TCPSpongeSocket_tcp_loop ::
  "'k environment \<Rightarrow> ('k, 'a) adapter_ops \<Rightarrow> (('k, 'a) sponge_world \<Rightarrow> bool result)
   \<Rightarrow> ('k, 'a) sponge_rules \<Rightarrow> ('k, 'a) sponge_world
   \<Rightarrow> (('k, 'a) sponge_rules \<times> ('k, 'a) sponge_world) result option" where
  "TCPSpongeSocket_tcp_loop en ops condition rules w =
     (let (base_time, w) = read_clock en w in sponge_loop en ops condition base_time rules w)"

definition state_in :: "State list \<Rightarrow> ('k, 'a) sponge_world \<Rightarrow> bool result" where
  "state_in states w =
     result_map (\<lambda>c. list_ex (\<lambda>s. TCPState_eq (TCPConnection_state c) (TCPState_of_State s)) states) (tcp_of w)"

definition set_config :: "('k, 'a) adapter_ops \<Rightarrow> FdAdapterConfig \<Rightarrow> bool \<Rightarrow> ('k, 'a) sponge_world \<Rightarrow> ('k, 'a) sponge_world" where
  "set_config ops c_ad listening w =
     (let a = sp_adapter (w_user w);
          b = (ao_base ops a)\<lparr>fa_cfg := c_ad\<rparr>;
          b = (if listening then FdAdapterBase_set_listening b True else b)
      in put_adapter (ao_set_base ops b a) w)"

text \<open>\<open>connect\<close> up to the start of the thread, which runs \<open>_tcp_main\<close> from the result.\<close>

definition TCPSpongeSocket_connect ::
  "'k environment \<Rightarrow> ('k, 'a) adapter_ops \<Rightarrow> u32 \<Rightarrow> TCPConfig \<Rightarrow> FdAdapterConfig \<Rightarrow> ('k, 'a) sponge_rules
   \<Rightarrow> ('k, 'a) sponge_world \<Rightarrow> (('k, 'a) sponge_rules \<times> ('k, 'a) sponge_world) result option" where
  "TCPSpongeSocket_connect en ops rand c_tcp c_ad rules w =
     (if sp_tcp (w_user w) \<noteq> None
      then Some (Inl (Runtime_error ''connect() with TCPConnection already initialized''))
      else
        let (rules, w) = TCPSpongeSocket_initialize_TCP en ops rand c_tcp rules w;
            w = set_config ops c_ad False w
        in case destination_text en ops w of
             Inl e \<Rightarrow> Some (Inl e)
           | Inr text \<Rightarrow>
               (let w = print_cerr (''DEBUG: Connecting to '' @ text @ ''...'' @ [CHR 0x0A]) w
                in case tcp_of w of
                     Inl e \<Rightarrow> Some (Inl e)
                   | Inr c \<Rightarrow>
                       (let c = TCPConnection_connect c;
                            w = put_tcp c w;
                            expected_state = TCPState_of_State SYN_SENT
                        in if \<not> TCPState_eq (TCPConnection_state c) expected_state
                           then Some (Inl (Runtime_error (''After TCPConnection::connect(), state was ''
                                  @ TCPState_name (TCPConnection_state c) @ '' but expected '' @ TCPState_name expected_state)))
                           else map_option (result_map (\<lambda>(rules, w). (rules,
                                    print_cerr (''Successfully connected to '' @ text @ ''.'' @ [CHR 0x0A]) w)))
                                  (TCPSpongeSocket_tcp_loop en ops (state_in [SYN_SENT]) rules w))))"

definition TCPSpongeSocket_listen_and_accept ::
  "'k environment \<Rightarrow> ('k, 'a) adapter_ops \<Rightarrow> u32 \<Rightarrow> TCPConfig \<Rightarrow> FdAdapterConfig \<Rightarrow> ('k, 'a) sponge_rules
   \<Rightarrow> ('k, 'a) sponge_world \<Rightarrow> (('k, 'a) sponge_rules \<times> ('k, 'a) sponge_world) result option" where
  "TCPSpongeSocket_listen_and_accept en ops rand c_tcp c_ad rules w =
     (if sp_tcp (w_user w) \<noteq> None
      then Some (Inl (Runtime_error ''listen_and_accept() with TCPConnection already initialized''))
      else
        let (rules, w) = TCPSpongeSocket_initialize_TCP en ops rand c_tcp rules w;
            w = set_config ops c_ad True w;
            w = print_cerr (''DEBUG: Listening for incoming connection...'' @ [CHR 0x0A]) w
        in map_option (\<lambda>res. result_bind res (\<lambda>(rules, w).
               result_map (\<lambda>text. (rules, print_cerr (''New connection from '' @ text @ ''.'' @ [CHR 0x0A]) w))
                 (destination_text en ops w)))
             (TCPSpongeSocket_tcp_loop en ops (state_in [LISTEN, SYN_RCVD, SYN_SENT]) rules w))"

text \<open>The body of the thread, when nothing is thrown; \<open>_tcp.reset()\<close> destroys the connection.\<close>

definition TCPSpongeSocket_tcp_main ::
  "'k environment \<Rightarrow> ('k, 'a) adapter_ops \<Rightarrow> ('k, 'a) sponge_rules \<Rightarrow> ('k, 'a) sponge_world
   \<Rightarrow> ('k, 'a) sponge_world result option" where
  "TCPSpongeSocket_tcp_main en ops rules w =
     (if sp_tcp (w_user w) = None then Some (Inl (Runtime_error ''no TCP''))
      else map_option (\<lambda>res. result_bind res (\<lambda>(_, w).
             result_bind (Socket_shutdown (en_sc en) (sp_main (w_user w)) SHUT_RDWR w) (\<lambda>w.
             result_map (\<lambda>c.
                 let w = (if \<not> cn_active c
                          then print_cerr (''DEBUG: TCP connection finished ''
                                 @ (if TCPState_eq (TCPConnection_state c) (TCPState_of_State RESET) then ''uncleanly''
                                    else ''cleanly.'' @ [CHR 0x0A])) w
                          else print_cerr (''Warning: Unclean shutdown of TCPConnection'' @ [CHR 0x0A]) w)
                 in user_modify (sp_tcp_update (\<lambda>_. None)) w)
               (tcp_of w))))
           (TCPSpongeSocket_tcp_loop en ops (\<lambda>_. Inr True) rules w))"

text \<open>The pair of sockets between the owner and the thread, and the constructor.\<close>

definition socket_pair_helper ::
  "'k environment \<Rightarrow> int \<Rightarrow> ('k, 'u) world \<Rightarrow> ((FileDescriptor \<times> FileDescriptor) \<times> ('k, 'u) world) result" where
  "socket_pair_helper en type w =
     result_bind (do_call (en_sc en) ''socketpair'' (Sys_socketpair AF_UNIX type) w) (\<lambda>(_, r, w).
     result_bind (FileDescriptor_new (fst (sr_pair r)) w) (\<lambda>(first, w).
     result_map (\<lambda>(second, w). ((first, second), w)) (FileDescriptor_new (snd (sr_pair r)) w)))"

text \<open>\<open>LocalStreamSocket\<close> checks its domain and type.\<close>

definition LocalStreamSocket_of_fd :: "'k environment \<Rightarrow> FileDescriptor \<Rightarrow> ('k, 'u) world \<Rightarrow> (FileDescriptor \<times> ('k, 'u) world) result" where
  "LocalStreamSocket_of_fd en fd w = Socket_of_fd (en_sc en) fd AF_UNIX SOCK_STREAM w"

definition TCPSpongeSocket_new ::
  "'k environment \<Rightarrow> FileDescriptor \<Rightarrow> 'a \<Rightarrow> ('k, 'u) world \<Rightarrow> ('k, 'a) sponge_world result" where
  "TCPSpongeSocket_new en adapter_fd adapter w =
     result_bind (socket_pair_helper en SOCK_STREAM w) (\<lambda>((first, second), w).
     result_bind (LocalStreamSocket_of_fd en first w) (\<lambda>(main, w).
     result_bind (LocalStreamSocket_of_fd en second w) (\<lambda>(thread_data, w).
     result_map (\<lambda>w. \<lparr>w_kernel = w_kernel w, w_fds = w_fds w,
         w_user = \<lparr>sp_main = main, sp_thread_data = thread_data, sp_adapter_fd = adapter_fd, sp_adapter = adapter,
                   sp_tcp = None, sp_inbound_shutdown = False, sp_outbound_shutdown = False, sp_fully_acked = False,
                   sp_cerr = []\<rparr>\<rparr>)
       (FileDescriptor_set_blocking (en_sc en) thread_data False w))))"

text \<open>The sockets of the applications, which choose a random port.\<close>

definition draw :: "'k environment \<Rightarrow> ('k, 'u) world \<Rightarrow> u32 \<times> ('k, 'u) world" where
  "draw en w = (let (v, k) = en_random_device en (w_kernel w) in (v, w\<lparr>w_kernel := k\<rparr>))"

definition connect_from ::
  "'k environment \<Rightarrow> ('k, 'a) adapter_ops \<Rightarrow> u32 \<Rightarrow> string \<Rightarrow> Address \<Rightarrow> ('k, 'a) sponge_rules
   \<Rightarrow> ('k, 'a) sponge_world \<Rightarrow> (('k, 'a) sponge_rules \<times> ('k, 'a) sponge_world) result option" where
  "connect_from en ops rand local_ip address rules w =
     (case FdAdapterConfig_new (en_rs en) of
        Inl e \<Rightarrow> Some (Inl e)
      | Inr multiplexer_config \<Rightarrow>
          (let (v, w) = draw en w
           in case Address_of_hostname (rs_getaddrinfo (en_rs en)) (rs_gai_strerror (en_rs en)) local_ip
                     (print_dec (unat (ucast v :: u16))) of
                Inl e \<Rightarrow> Some (Inl e)
              | Inr source \<Rightarrow>
                  TCPSpongeSocket_connect en ops rand (TCPConfig_new\<lparr>cfg_rt_timeout := 100\<rparr>)
                    (multiplexer_config\<lparr>fc_source := source, fc_destination := address\<rparr>) rules w))"

definition CS144TCPSocket_connect ::
  "'k environment \<Rightarrow> u32 \<Rightarrow> Address \<Rightarrow> ('k, FdAdapterBase) sponge_rules \<Rightarrow> ('k, FdAdapterBase) sponge_world
   \<Rightarrow> (('k, FdAdapterBase) sponge_rules \<times> ('k, FdAdapterBase) sponge_world) result option" where
  "CS144TCPSocket_connect en rand = connect_from en (tun_ops en) rand ''169.254.144.9''"

definition FullStackSocket_connect ::
  "'k environment \<Rightarrow> u32 \<Rightarrow> Address \<Rightarrow> ('k, TapAdapter) sponge_rules \<Rightarrow> ('k, TapAdapter) sponge_world
   \<Rightarrow> (('k, TapAdapter) sponge_rules \<times> ('k, TapAdapter) sponge_world) result option" where
  "FullStackSocket_connect en rand = connect_from en (tap_ops en) rand ''169.254.10.9''"

text \<open>Six random bytes, marked as a private unicast address.\<close>

primrec draw_bytes :: "'k environment \<Rightarrow> nat \<Rightarrow> ('k, 'u) world \<Rightarrow> bytes \<times> ('k, 'u) world" where
  "draw_bytes en 0 w = ([], w)"
| "draw_bytes en (Suc n) w =
     (let (v, w) = draw en w; (bs, w) = draw_bytes en n w in (ucast v # bs, w))"

definition random_private_ethernet_address :: "'k environment \<Rightarrow> ('k, 'u) world \<Rightarrow> EthernetAddress \<times> ('k, 'u) world" where
  "random_private_ethernet_address en w =
     (let (addr, w) = draw_bytes en 6 w;
          addr = addr[0 := addr ! 0 OR 0x02];
          addr = addr[0 := addr ! 0 AND 0xfe]
      in (addr, w))"

section \<open>What the rules keep\<close>

text \<open>
  The connection accepts everything rule 2 reads, so its exception is never thrown while the
  outbound stream is open.
\<close>

lemma send_accepts:
  assumes "ByteStream_inv (sn_stream (cn_sender c))" and "\<not> bs_input_ended (sn_stream (cn_sender c))"
    and "FileDescriptor_read sc fd (TCPConnection_remaining_outbound_capacity c) w = Inr (data, w')"
  shows "snd (TCPConnection_write c data) = list_size data"
  using stream_takes(2) [OF assms(1,2), of data] read_length [OF assms(3)]
  by (auto simp: TCPConnection_write_def TCPConnection_remaining_outbound_capacity_def Let_def split: prod.split)

text \<open>
  Rule 3 neither loses nor repeats a byte, however few the pipe takes. Of the kernel it relies
  on the law of \<open>writev\<close> and on a \<open>shutdown\<close> that succeeds and leaves what was written alone.
\<close>

definition shutdown_keeps :: "'k syscalls \<Rightarrow> (int \<Rightarrow> 'k \<Rightarrow> bytes) \<Rightarrow> bool" where
  "shutdown_keeps sc sink \<longleftrightarrow> (\<forall>num how k. \<exists>r k'.
     sc_call sc (Sys_shutdown num how) k = (r, k') \<and> sr_value r = 0 \<and> sink num k' = sink num k)"

lemma inbound_finished_ok:
  assumes law: "shutdown_keeps (en_sc en) sink" and dest: "destination_text en ops w = Inr text"
  shows "\<exists>w'. sponge_inbound_finished en ops c w = Inr w' \<and> sp_inbound_shutdown (w_user w')
     \<and> sp_tcp (w_user w') = sp_tcp (w_user w)
     \<and> sink (FileDescriptor_fd_num (sp_thread_data (w_user w)) w) (w_kernel w')
       = sink (FileDescriptor_fd_num (sp_thread_data (w_user w)) w) (w_kernel w)"
proof -
  let ?num = "FileDescriptor_fd_num (sp_thread_data (w_user w)) w"
  from law obtain r k' where k: "sc_call (en_sc en) (Sys_shutdown ?num SHUT_WR) (w_kernel w) = (r, k')"
      "sr_value r = 0" "sink ?num k' = sink ?num (w_kernel w)"
    unfolding shutdown_keeps_def by blast
  define w1 where "w1 = FileDescriptor_register_write (sp_thread_data (w_user w)) (w\<lparr>w_kernel := k'\<rparr>)"
  have "Socket_shutdown (en_sc en) (sp_thread_data (w_user w)) SHUT_WR w = Inr w1"
    using k(1,2) by (simp add: Socket_shutdown_def do_call_def SystemCall_def w1_def SHUT_WR_def SHUT_RD_def int32_def)
  moreover have w1: "w_user w1 = w_user w" "w_kernel w1 = k'" by (simp_all add: w1_def)
  moreover have "destination_text en ops (user_modify (sp_inbound_shutdown_update (\<lambda>_. True)) w1) = Inr text"
    using dest by (simp add: destination_text_def w1)
  ultimately show ?thesis
    using k(3) by (simp add: sponge_inbound_finished_def Let_def print_cerr_def)
qed

text \<open>The address the full-stack socket draws is a private unicast address.\<close>

lemma length_draw_bytes: "length (fst (draw_bytes en n w)) = n"
  by (induction n arbitrary: w) (auto simp: Let_def split: prod.splits, metis fst_conv)

lemma random_ethernet_address_private:
  assumes "random_private_ethernet_address en w = (addr, w')"
  shows "length addr = 6 \<and> bit (addr ! 0) 1 \<and> \<not> bit (addr ! 0) 0 \<and> addr \<noteq> ETHERNET_BROADCAST"
proof -
  obtain bs where bs: "length bs = 6" "addr = bs[0 := (bs ! 0 OR 0x02) AND 0xfe]"
    using assms length_draw_bytes [of en 6 w]
    by (auto simp: random_private_ethernet_address_def Let_def split: prod.splits)
  have b: "bit (0x02 :: u8) 1" "bit (0xfe :: u8) 1" "\<not> bit (0xfe :: u8) 0" by code_simp+
  then have "bit (addr ! 0) 1" "\<not> bit (addr ! 0) 0" using bs by (simp_all add: bit_simps)
  moreover have "bit (ETHERNET_BROADCAST ! 0) 0" by code_simp
  then have "addr \<noteq> ETHERNET_BROADCAST" using \<open>\<not> bit (addr ! 0) 0\<close> by blast
  moreover have "length addr = 6" unfolding bs(2) by (simp only: length_list_update bs(1))
  ultimately show ?thesis by blast
qed

lemma to_string_socket_address:
  assumes "names_numeric rs"
  shows "Address_to_string (rs_getnameinfo rs) (rs_gai_strerror rs) (socket_address n port)
     = Inr (inet_ntoa n @ '':'' @ print_dec (unat port))"
proof -
  have "unat port \<le> 0x7fffffff" using unsigned_less [of port, where ?'a = nat] by simp
  then have "stoi (print_dec (unat port)) = Inr (int (unat port))" by (rule stoi_print_dec)
  moreover have "ad_size (socket_address n port) = 16" by (simp add: socket_address_def)
  ultimately show ?thesis
    using assms print_dec_digits(1) [of "unat port"]
    by (simp add: Address_to_string_def Address_ip_port_def names_numeric_def c_str_digits c_str_inet_ntoa)
qed

section \<open>Properties\<close>


definition example_sponge_world :: "(bytes, FdAdapterBase) sponge_world" where
  "example_sponge_world = \<lparr>w_kernel = [],
     w_fds = [\<lparr>fd_fd = 3, fd_eof = False, fd_closed = False, fd_read_count = 0, fd_write_count = 0\<rparr>],
     w_user = \<lparr>sp_main = 1, sp_thread_data = 0, sp_adapter_fd = 2,
       sp_adapter = \<lparr>fa_cfg = \<lparr>fc_source = socket_address 1 80, fc_destination = socket_address 2 90,
                               fc_loss_rate_dn = 0, fc_loss_rate_up = 0\<rparr>, fa_listen = False\<rparr>,
       sp_tcp = Some ((TCPConnection_new 0 TCPConfig_new)\<lparr>cn_receiver :=
         TCPReceiver_set_stream_out ((ByteStream_new 9)\<lparr>bs_buffer := [1, 2, 3], bs_num_written := 3\<rparr>) (TCPReceiver_new 9)\<rparr>),
       sp_inbound_shutdown = False, sp_outbound_shutdown = False, sp_fully_acked = False, sp_cerr = []\<rparr>\<rparr>"

definition example_environment :: "bytes environment" where
  "example_environment = \<lparr>en_sc = example_sc, en_rs = example_rs, en_timestamp_ms = Pair 0, en_abort = (\<lambda>_. False),
     en_random_device = Pair 0\<rparr>"


end
