(* ===== verification/Stream_Copy.thy ===== *)
theory Stream_Copy
  imports Stream_Pump Sockets Event_Loop
begin

text \<open>
  \<open>apps/bidirectional_stream_copy.cc\<close>: standard input is copied to a socket and the socket to
  standard output, each through a byte stream, by an event loop of four rules. The streams, the
  descriptors and the flags are the user part of the world. The lemmas show that no rule loses,
  repeats or reorders a byte.
\<close>

section \<open>State\<close>

record copier =
  cp_socket :: FileDescriptor
  cp_input :: FileDescriptor
  cp_output :: FileDescriptor
  cp_outbound :: ByteStream
  cp_inbound :: ByteStream
  cp_outbound_shutdown :: bool
  cp_inbound_shutdown :: bool

type_synonym 'k copy_world = "('k, copier) world"

definition max_copy_length :: size_t where
  "max_copy_length = 65536"

definition buffer_size :: size_t where
  "buffer_size = 1048576"

section \<open>The rules\<close>

text \<open>Rule 1: from standard input into the outbound stream.\<close>

definition copy_input :: "'k syscalls \<Rightarrow> 'k copy_world \<Rightarrow> 'k copy_world result" where
  "copy_input sc w =
     result_map (\<lambda>(data, w).
         let w = user_modify (cp_outbound_update (\<lambda>bs. fst (ByteStream_write bs data))) w
         in if FileDescriptor_eof (cp_input (w_user w)) w
            then user_modify (cp_outbound_update ByteStream_end_input) w else w)
       (FileDescriptor_read sc (cp_input (w_user w)) (ByteStream_remaining_capacity (cp_outbound (w_user w))) w)"

definition copy_input_interest :: "'k copy_world \<Rightarrow> bool result" where
  "copy_input_interest w =
     Inr (\<not> bs_error (cp_outbound (w_user w)) \<and> ByteStream_remaining_capacity (cp_outbound (w_user w)) > 0
          \<and> \<not> bs_error (cp_inbound (w_user w)))"

definition end_outbound :: "'k copy_world \<Rightarrow> 'k copy_world result" where
  "end_outbound w = Inr (user_modify (cp_outbound_update ByteStream_end_input) w)"

text \<open>Rule 2: from the outbound stream into the socket.\<close>

definition copy_to_socket :: "'k syscalls \<Rightarrow> 'k copy_world \<Rightarrow> 'k copy_world result" where
  "copy_to_socket sc w =
     (let outbound = cp_outbound (w_user w);
          bytes_to_write = min max_copy_length (ByteStream_buffer_size outbound)
      in result_bind (FileDescriptor_write sc (cp_socket (w_user w)) [ByteStream_peek_output outbound bytes_to_write] False w)
           (\<lambda>(bytes_written, w).
              let w = user_modify (cp_outbound_update (\<lambda>bs. ByteStream_pop_output bs bytes_written)) w
              in if ByteStream_eof (cp_outbound (w_user w))
                 then result_map (user_modify (cp_outbound_shutdown_update (\<lambda>_. True)))
                        (Socket_shutdown sc (cp_socket (w_user w)) SHUT_WR w)
                 else Inr w))"

definition copy_to_socket_interest :: "'k copy_world \<Rightarrow> bool result" where
  "copy_to_socket_interest w =
     Inr (\<not> ByteStream_buffer_empty (cp_outbound (w_user w))
          \<or> ByteStream_eof (cp_outbound (w_user w)) \<and> \<not> cp_outbound_shutdown (w_user w))"

text \<open>Rule 3: from the socket into the inbound stream.\<close>

definition copy_from_socket :: "'k syscalls \<Rightarrow> 'k copy_world \<Rightarrow> 'k copy_world result" where
  "copy_from_socket sc w =
     result_map (\<lambda>(data, w).
         let w = user_modify (cp_inbound_update (\<lambda>bs. fst (ByteStream_write bs data))) w
         in if FileDescriptor_eof (cp_socket (w_user w)) w
            then user_modify (cp_inbound_update ByteStream_end_input) w else w)
       (FileDescriptor_read sc (cp_socket (w_user w)) (ByteStream_remaining_capacity (cp_inbound (w_user w))) w)"

definition copy_from_socket_interest :: "'k copy_world \<Rightarrow> bool result" where
  "copy_from_socket_interest w =
     Inr (\<not> bs_error (cp_inbound (w_user w)) \<and> ByteStream_remaining_capacity (cp_inbound (w_user w)) > 0
          \<and> \<not> bs_error (cp_outbound (w_user w)))"

definition end_inbound :: "'k copy_world \<Rightarrow> 'k copy_world result" where
  "end_inbound w = Inr (user_modify (cp_inbound_update ByteStream_end_input) w)"

text \<open>Rule 4: from the inbound stream to standard output.\<close>

definition copy_output :: "'k syscalls \<Rightarrow> 'k copy_world \<Rightarrow> 'k copy_world result" where
  "copy_output sc w =
     (let inbound = cp_inbound (w_user w);
          bytes_to_write = min max_copy_length (ByteStream_buffer_size inbound)
      in result_bind (FileDescriptor_write sc (cp_output (w_user w)) [ByteStream_peek_output inbound bytes_to_write] False w)
           (\<lambda>(bytes_written, w).
              let w = user_modify (cp_inbound_update (\<lambda>bs. ByteStream_pop_output bs bytes_written)) w
              in if ByteStream_eof (cp_inbound (w_user w))
                 then result_map (user_modify (cp_inbound_shutdown_update (\<lambda>_. True)))
                        (FileDescriptor_close sc (cp_output (w_user w)) w)
                 else Inr w))"

definition copy_output_interest :: "'k copy_world \<Rightarrow> bool result" where
  "copy_output_interest w =
     Inr (\<not> ByteStream_buffer_empty (cp_inbound (w_user w))
          \<or> ByteStream_eof (cp_inbound (w_user w)) \<and> \<not> cp_inbound_shutdown (w_user w))"

section \<open>The loop\<close>

type_synonym 'k copy_rules = "('k, copier) Rule list"

definition copy_rules :: "'k syscalls \<Rightarrow> FileDescriptor \<Rightarrow> FileDescriptor \<Rightarrow> FileDescriptor \<Rightarrow> 'k copy_rules" where
  "copy_rules sc socket input out =
     (let rules = EventLoop_add_rule [] input In (copy_input sc) copy_input_interest end_outbound;
          rules = EventLoop_add_rule rules socket Out (copy_to_socket sc) copy_to_socket_interest end_outbound;
          rules = EventLoop_add_rule rules socket In (copy_from_socket sc) copy_from_socket_interest end_inbound
      in EventLoop_add_rule rules out Out (copy_output sc) copy_output_interest end_inbound)"

text \<open>\<open>None\<close> is a loop that does not end.\<close>

partial_function (option) copy_loop ::
  "'k syscalls \<Rightarrow> 'k copy_rules \<Rightarrow> 'k copy_world \<Rightarrow> 'k copy_world result option" where
  "copy_loop sc rules w =
     (case EventLoop_wait_next_event sc rules (- 1) w of
        Inl e \<Rightarrow> Some (Inl e)
      | Inr (ret, rules, w) \<Rightarrow> if ret = Exit then Some (Inr w) else copy_loop sc rules w)"

definition bidirectional_stream_copy ::
  "'k syscalls \<Rightarrow> FileDescriptor \<Rightarrow> ('k, 'u) world \<Rightarrow> 'k copy_world result option" where
  "bidirectional_stream_copy sc socket w =
     (case result_bind (FileDescriptor_new 0 w) (\<lambda>(input, w).
           result_bind (FileDescriptor_new 1 w) (\<lambda>(out, w).
           result_bind (FileDescriptor_set_blocking sc socket False w) (\<lambda>w.
           result_bind (FileDescriptor_set_blocking sc input False w) (\<lambda>w.
           result_map (\<lambda>w. (input, out, w)) (FileDescriptor_set_blocking sc out False w))))) of
        Inl e \<Rightarrow> Some (Inl e)
      | Inr (input, out, w) \<Rightarrow>
          copy_loop sc (copy_rules sc socket input out)
            \<lparr>w_kernel = w_kernel w, w_fds = w_fds w,
             w_user = \<lparr>cp_socket = socket, cp_input = input, cp_output = out, cp_outbound = ByteStream_new buffer_size,
                       cp_inbound = ByteStream_new buffer_size, cp_outbound_shutdown = False, cp_inbound_shutdown = False\<rparr>\<rparr>)"


section \<open>Nothing is lost\<close>

text \<open>
  What is relied on of the kernel: reads and writes transfer prefixes, the other descriptors are
  not affected, and \<open>shutdown\<close> and \<open>close\<close> succeed and leave the data alone.
\<close>

definition leaves :: "(int \<Rightarrow> 'k \<Rightarrow> bytes) \<Rightarrow> (int \<Rightarrow> bool) \<Rightarrow> 'k \<Rightarrow> 'k \<Rightarrow> bool" where
  "leaves view except k k' \<longleftrightarrow> (\<forall>m. except m \<or> view m k' = view m k)"

definition stream_kernel :: "'k syscalls \<Rightarrow> (int \<Rightarrow> 'k \<Rightarrow> bytes) \<Rightarrow> (int \<Rightarrow> 'k \<Rightarrow> bytes) \<Rightarrow> bool" where
  "stream_kernel sc source sink \<longleftrightarrow>
     writes_prefix sc sink \<and> reads_prefix sc source
     \<and> (\<forall>num limit k. leaves sink (\<lambda>_. False) k (snd (sc_call sc (Sys_read num limit) k))
          \<and> leaves source (\<lambda>m. m = num) k (snd (sc_call sc (Sys_read num limit) k)))
     \<and> (\<forall>num iov k. leaves source (\<lambda>_. False) k (snd (sc_call sc (Sys_writev num iov) k))
          \<and> leaves sink (\<lambda>m. m = num) k (snd (sc_call sc (Sys_writev num iov) k)))
     \<and> (\<forall>c k. (\<exists>num how. c = Sys_shutdown num how \<or> c = Sys_close num) \<longrightarrow>
          sr_value (fst (sc_call sc c k)) = 0 \<and> leaves source (\<lambda>_. False) k (snd (sc_call sc c k))
          \<and> leaves sink (\<lambda>_. False) k (snd (sc_call sc c k)))"

lemma stream_kernel_laws:
  assumes "stream_kernel sc source sink"
  shows "writes_prefix sc sink" "reads_prefix sc source"
    and "sink m (snd (sc_call sc (Sys_read num limit) k)) = sink m k
      \<and> (m \<noteq> num \<longrightarrow> source m (snd (sc_call sc (Sys_read num limit) k)) = source m k)"
    and "source m (snd (sc_call sc (Sys_writev num iov) k)) = source m k
      \<and> (m \<noteq> num \<longrightarrow> sink m (snd (sc_call sc (Sys_writev num iov) k)) = sink m k)"
    and "sr_value (fst (sc_call sc (Sys_shutdown num how) k)) = 0
      \<and> source m (snd (sc_call sc (Sys_shutdown num how) k)) = source m k
      \<and> sink m (snd (sc_call sc (Sys_shutdown num how) k)) = sink m k"
    and "sr_value (fst (sc_call sc (Sys_close num) k)) = 0
      \<and> source m (snd (sc_call sc (Sys_close num) k)) = source m k \<and> sink m (snd (sc_call sc (Sys_close num) k)) = sink m k"
  using assms unfolding stream_kernel_def leaves_def by blast+

text \<open>The bytes on the way to the socket and on the way from it.\<close>

definition outbound_view :: "(int \<Rightarrow> 'k \<Rightarrow> bytes) \<Rightarrow> (int \<Rightarrow> 'k \<Rightarrow> bytes) \<Rightarrow> 'k copy_world \<Rightarrow> bytes" where
  "outbound_view source sink w =
     sink (FileDescriptor_fd_num (cp_socket (w_user w)) w) (w_kernel w) @ bs_buffer (cp_outbound (w_user w))
     @ source (FileDescriptor_fd_num (cp_input (w_user w)) w) (w_kernel w)"

definition inbound_view :: "(int \<Rightarrow> 'k \<Rightarrow> bytes) \<Rightarrow> (int \<Rightarrow> 'k \<Rightarrow> bytes) \<Rightarrow> 'k copy_world \<Rightarrow> bytes" where
  "inbound_view source sink w =
     sink (FileDescriptor_fd_num (cp_output (w_user w)) w) (w_kernel w) @ bs_buffer (cp_inbound (w_user w))
     @ source (FileDescriptor_fd_num (cp_socket (w_user w)) w) (w_kernel w)"

definition copy_inv :: "'k copy_world \<Rightarrow> bool" where
  "copy_inv w \<longleftrightarrow>
     ByteStream_inv (cp_outbound (w_user w)) \<and> ByteStream_inv (cp_inbound (w_user w))
     \<and> FileDescriptor_fd_num (cp_input (w_user w)) w \<noteq> FileDescriptor_fd_num (cp_socket (w_user w)) w
     \<and> FileDescriptor_fd_num (cp_output (w_user w)) w \<noteq> FileDescriptor_fd_num (cp_socket (w_user w)) w"

definition conserved :: "(int \<Rightarrow> 'k \<Rightarrow> bytes) \<Rightarrow> (int \<Rightarrow> 'k \<Rightarrow> bytes) \<Rightarrow> 'k copy_world \<Rightarrow> 'k copy_world \<Rightarrow> bool" where
  "conserved source sink w w' \<longleftrightarrow>
     copy_inv w' \<and> outbound_view source sink w' = outbound_view source sink w
     \<and> inbound_view source sink w' = inbound_view source sink w"

lemma conserved_trans: "conserved source sink w w' \<Longrightarrow> conserved source sink w' w'' \<Longrightarrow> conserved source sink w w''"
  by (simp add: conserved_def)

lemma conserved_kernel:
  assumes "copy_inv w" and "w_user w' = w_user w" and "\<And>fd. FileDescriptor_fd_num fd w' = FileDescriptor_fd_num fd w"
    and "\<And>m. source m (w_kernel w') = source m (w_kernel w)" and "\<And>m. sink m (w_kernel w') = sink m (w_kernel w)"
  shows "conserved source sink w w'"
  using assms by (simp add: conserved_def copy_inv_def outbound_view_def inbound_view_def)

lemma shutdown_ok:
  assumes law: "stream_kernel sc source sink" and inv: "copy_inv w"
  shows "\<exists>w'. Socket_shutdown sc fd SHUT_WR w = Inr w' \<and> conserved source sink w w'"
proof -
  let ?c = "Sys_shutdown (FileDescriptor_fd_num fd w) SHUT_WR"
  obtain r k where k: "sc_call sc ?c (w_kernel w) = (r, k)" by fastforce
  note l = stream_kernel_laws(5) [OF law, of "FileDescriptor_fd_num fd w" SHUT_WR "w_kernel w", unfolded k, simplified]
  have "SHUT_WR \<noteq> SHUT_RD" by (simp add: SHUT_WR_def SHUT_RD_def)
  then have "Socket_shutdown sc fd SHUT_WR w = Inr (FileDescriptor_register_write fd (w\<lparr>w_kernel := k\<rparr>))"
    using l by (simp add: Socket_shutdown_def do_call_def k SystemCall_def int32_def)
  moreover have "conserved source sink w (FileDescriptor_register_write fd (w\<lparr>w_kernel := k\<rparr>))"
    using l by (intro conserved_kernel [OF inv]) simp_all
  ultimately show ?thesis by blast
qed

lemma close_ok:
  assumes law: "stream_kernel sc source sink" and inv: "copy_inv w"
  shows "\<exists>w'. FileDescriptor_close sc fd w = Inr w' \<and> conserved source sink w w'"
proof -
  let ?c = "Sys_close (FileDescriptor_fd_num fd w)"
  obtain r k where k: "sc_call sc ?c (w_kernel w) = (r, k)" by fastforce
  note l = stream_kernel_laws(6) [OF law, of "FileDescriptor_fd_num fd w" "w_kernel w", unfolded k, simplified]
  let ?w = "fd_modify (fd_eof_update (\<lambda>_. True) \<circ> fd_closed_update (\<lambda>_. True)) fd (w\<lparr>w_kernel := k\<rparr>)"
  have "FileDescriptor_close sc fd w = Inr ?w"
    using l k by (simp add: FileDescriptor_close_def FDWrapper_close_def do_call_def SystemCall_def int32_def
        FileDescriptor_fd_num_def)
  moreover have "conserved source sink w ?w"
    using l by (intro conserved_kernel [OF inv]) (simp_all add: fd_num_modify)
  ultimately show ?thesis by blast
qed

lemma conserved_flag:
  "conserved source sink w w' \<Longrightarrow> conserved source sink w (user_modify (cp_outbound_shutdown_update f) w')"
  "conserved source sink w w' \<Longrightarrow> conserved source sink w (user_modify (cp_inbound_shutdown_update f) w')"
  by (simp_all add: conserved_def copy_inv_def outbound_view_def inbound_view_def)

lemma copy_input_ok:
  assumes inv: "copy_inv w" and law: "stream_kernel sc source sink" and opened: "\<not> bs_input_ended (cp_outbound (w_user w))"
  shows "\<exists>w'. copy_input sc w = Inr w' \<and> conserved source sink w w'"
proof -
  let ?u = "w_user w" and ?num = "FileDescriptor_fd_num (cp_input (w_user w)) w" and ?bs = "cp_outbound (w_user w)"
  from read_ok [OF stream_kernel_laws(2) [OF law], of "cp_input ?u" "ByteStream_remaining_capacity ?bs" w] obtain data w1 where
    rd: "FileDescriptor_read sc (cp_input ?u) (ByteStream_remaining_capacity ?bs) w = Inr (data, w1)" "w_user w1 = ?u"
      "source ?num (w_kernel w) = data @ source ?num (w_kernel w1)"
      "w_kernel w1 = snd (sc_call sc (Sys_read ?num (min BUFFER_SIZE (ByteStream_remaining_capacity ?bs))) (w_kernel w))"
      "\<forall>fd. FileDescriptor_fd_num fd w1 = FileDescriptor_fd_num fd w"
    by blast
  have bs: "ByteStream_inv ?bs" using inv by (simp add: copy_inv_def)
  define bs1 where "bs1 = fst (ByteStream_write ?bs data)"
  have bs1: "bs_buffer bs1 = bs_buffer ?bs @ data" "ByteStream_inv bs1"
    using stream_takes(1) [OF bs opened read_length [OF rd(1)]] ByteStream_write_inv [OF bs] by (simp_all add: bs1_def)
  define bs2 where "bs2 = (if FileDescriptor_eof (cp_input ?u) w1 then ByteStream_end_input bs1 else bs1)"
  define w2 where "w2 = user_modify (cp_outbound_update (\<lambda>_. bs2)) w1"
  have bs2: "bs_buffer bs2 = bs_buffer ?bs @ data" "ByteStream_inv bs2"
    using bs1 by (simp_all add: bs2_def)
  have "copy_input sc w = Inr w2"
    using rd(1,2) by (simp add: copy_input_def Let_def w2_def bs2_def bs1_def user_modify_def FileDescriptor_eof_def fd_at_def)
  moreover have "conserved source sink w w2"
    using inv rd(2,3,5) bs2 stream_kernel_laws(3) [OF law, of _ ?num _ "w_kernel w"]
    by (simp add: conserved_def copy_inv_def w2_def outbound_view_def inbound_view_def rd(4))
  ultimately show ?thesis by blast
qed

lemma copy_from_socket_ok:
  assumes inv: "copy_inv w" and law: "stream_kernel sc source sink" and opened: "\<not> bs_input_ended (cp_inbound (w_user w))"
  shows "\<exists>w'. copy_from_socket sc w = Inr w' \<and> conserved source sink w w'"
proof -
  let ?u = "w_user w" and ?num = "FileDescriptor_fd_num (cp_socket (w_user w)) w" and ?bs = "cp_inbound (w_user w)"
  from read_ok [OF stream_kernel_laws(2) [OF law], of "cp_socket ?u" "ByteStream_remaining_capacity ?bs" w] obtain data w1 where
    rd: "FileDescriptor_read sc (cp_socket ?u) (ByteStream_remaining_capacity ?bs) w = Inr (data, w1)" "w_user w1 = ?u"
      "source ?num (w_kernel w) = data @ source ?num (w_kernel w1)"
      "w_kernel w1 = snd (sc_call sc (Sys_read ?num (min BUFFER_SIZE (ByteStream_remaining_capacity ?bs))) (w_kernel w))"
      "\<forall>fd. FileDescriptor_fd_num fd w1 = FileDescriptor_fd_num fd w"
    by blast
  have bs: "ByteStream_inv ?bs" using inv by (simp add: copy_inv_def)
  define bs1 where "bs1 = fst (ByteStream_write ?bs data)"
  have bs1: "bs_buffer bs1 = bs_buffer ?bs @ data" "ByteStream_inv bs1"
    using stream_takes(1) [OF bs opened read_length [OF rd(1)]] ByteStream_write_inv [OF bs] by (simp_all add: bs1_def)
  define bs2 where "bs2 = (if FileDescriptor_eof (cp_socket ?u) w1 then ByteStream_end_input bs1 else bs1)"
  define w2 where "w2 = user_modify (cp_inbound_update (\<lambda>_. bs2)) w1"
  have bs2: "bs_buffer bs2 = bs_buffer ?bs @ data" "ByteStream_inv bs2"
    using bs1 by (simp_all add: bs2_def)
  have "copy_from_socket sc w = Inr w2"
    using rd(1,2) by (simp add: copy_from_socket_def Let_def w2_def bs2_def bs1_def user_modify_def FileDescriptor_eof_def fd_at_def)
  moreover have "conserved source sink w w2"
    using inv rd(2,3,5) bs2 stream_kernel_laws(3) [OF law, of _ ?num _ "w_kernel w"]
    by (simp add: conserved_def copy_inv_def w2_def outbound_view_def inbound_view_def rd(4))
  ultimately show ?thesis by blast
qed

lemma copy_to_socket_ok:
  assumes inv: "copy_inv w" and law: "stream_kernel sc source sink"
  shows "\<exists>w'. copy_to_socket sc w = Inr w' \<and> conserved source sink w w'"
proof -
  let ?u = "w_user w" and ?num = "FileDescriptor_fd_num (cp_socket (w_user w)) w" and ?bs = "cp_outbound (w_user w)"
  have bs: "ByteStream_inv ?bs" using inv by (simp add: copy_inv_def)
  define buffer where "buffer = ByteStream_peek_output ?bs (min 65536 (ByteStream_buffer_size ?bs))"
  from write_pop [OF stream_kernel_laws(1) [OF law] bs buffer_def, of "cp_socket ?u" w] obtain n w1 where
    wr: "FileDescriptor_write sc (cp_socket ?u) [buffer] False w = Inr (n, w1)" "w_user w1 = ?u"
      "sink ?num (w_kernel w1) @ bs_buffer (ByteStream_pop_output ?bs n) = sink ?num (w_kernel w) @ bs_buffer ?bs"
    by blast
  define bs1 where "bs1 = ByteStream_pop_output ?bs n"
  have bs1: "ByteStream_inv bs1" using ByteStream_read_inv [OF bs, of n] by (simp add: bs1_def ByteStream_read_def Let_def)
  define w2 where "w2 = user_modify (cp_outbound_update (\<lambda>bs. ByteStream_pop_output bs n)) w1"
  have two: "conserved source sink w w2"
    using inv wr(2,3) bs1 write_frame [OF wr(1)] stream_kernel_laws(4) [OF law, of _ ?num _ "w_kernel w"]
    by (simp add: conserved_def copy_inv_def w2_def outbound_view_def inbound_view_def bs1_def flip: append_assoc)
  have eq: "copy_to_socket sc w = (if ByteStream_eof bs1 then result_map (user_modify (cp_outbound_shutdown_update (\<lambda>_. True)))
             (Socket_shutdown sc (cp_socket (w_user w2)) SHUT_WR w2) else Inr w2)"
    using wr(1,2) unfolding copy_to_socket_def Let_def max_copy_length_def buffer_def [symmetric]
    by (simp add: w2_def bs1_def user_modify_def)
  show ?thesis
  proof (cases "ByteStream_eof bs1")
    case True
    obtain w3 where "Socket_shutdown sc (cp_socket (w_user w2)) SHUT_WR w2 = Inr w3" "conserved source sink w2 w3"
      using shutdown_ok [OF law, of w2] two unfolding conserved_def by blast
    with True eq two conserved_flag(1) [of source sink w2 w3] show ?thesis by (auto intro: conserved_trans)
  next
    case False
    with eq two show ?thesis by auto
  qed
qed

lemma copy_output_ok:
  assumes inv: "copy_inv w" and law: "stream_kernel sc source sink"
  shows "\<exists>w'. copy_output sc w = Inr w' \<and> conserved source sink w w'"
proof -
  let ?u = "w_user w" and ?num = "FileDescriptor_fd_num (cp_output (w_user w)) w" and ?bs = "cp_inbound (w_user w)"
  have bs: "ByteStream_inv ?bs" using inv by (simp add: copy_inv_def)
  define buffer where "buffer = ByteStream_peek_output ?bs (min 65536 (ByteStream_buffer_size ?bs))"
  from write_pop [OF stream_kernel_laws(1) [OF law] bs buffer_def, of "cp_output ?u" w] obtain n w1 where
    wr: "FileDescriptor_write sc (cp_output ?u) [buffer] False w = Inr (n, w1)" "w_user w1 = ?u"
      "sink ?num (w_kernel w1) @ bs_buffer (ByteStream_pop_output ?bs n) = sink ?num (w_kernel w) @ bs_buffer ?bs"
    by blast
  define bs1 where "bs1 = ByteStream_pop_output ?bs n"
  have bs1: "ByteStream_inv bs1" using ByteStream_read_inv [OF bs, of n] by (simp add: bs1_def ByteStream_read_def Let_def)
  define w2 where "w2 = user_modify (cp_inbound_update (\<lambda>bs. ByteStream_pop_output bs n)) w1"
  have two: "conserved source sink w w2"
    using inv wr(2,3) bs1 write_frame [OF wr(1)] stream_kernel_laws(4) [OF law, of _ ?num _ "w_kernel w"]
    by (simp add: conserved_def copy_inv_def w2_def outbound_view_def inbound_view_def bs1_def flip: append_assoc)
  have eq: "copy_output sc w = (if ByteStream_eof bs1 then result_map (user_modify (cp_inbound_shutdown_update (\<lambda>_. True)))
             (FileDescriptor_close sc (cp_output (w_user w2)) w2) else Inr w2)"
    using wr(1,2) unfolding copy_output_def Let_def max_copy_length_def buffer_def [symmetric]
    by (simp add: w2_def bs1_def user_modify_def)
  show ?thesis
  proof (cases "ByteStream_eof bs1")
    case True
    obtain w3 where "FileDescriptor_close sc (cp_output (w_user w2)) w2 = Inr w3" "conserved source sink w2 w3"
      using close_ok [OF law, of w2] two unfolding conserved_def by blast
    with True eq two conserved_flag(2) [of source sink w2 w3] show ?thesis by (auto intro: conserved_trans)
  next
    case False
    with eq two show ?thesis by auto
  qed
qed


text \<open>
  What can happen: a rule of the event loop runs its callback, a reading rule only while its
  stream is open (it is cancelled when its descriptor reaches the end), or a rule is cancelled.
\<close>

inductive copy_step :: "'k syscalls \<Rightarrow> 'k copy_world \<Rightarrow> 'k copy_world \<Rightarrow> bool" for sc where
  input: "\<not> bs_input_ended (cp_outbound (w_user w)) \<Longrightarrow> copy_input sc w = Inr w' \<Longrightarrow> copy_step sc w w'"
| to_socket: "copy_to_socket sc w = Inr w' \<Longrightarrow> copy_step sc w w'"
| from_socket: "\<not> bs_input_ended (cp_inbound (w_user w)) \<Longrightarrow> copy_from_socket sc w = Inr w' \<Longrightarrow> copy_step sc w w'"
| out: "copy_output sc w = Inr w' \<Longrightarrow> copy_step sc w w'"
| cancel_outbound: "end_outbound w = Inr w' \<Longrightarrow> copy_step sc w w'"
| cancel_inbound: "end_inbound w = Inr w' \<Longrightarrow> copy_step sc w w'"

lemma copy_step_conserved:
  assumes "copy_step sc w w'" and "copy_inv w" and "stream_kernel sc source sink"
  shows "conserved source sink w w'"
  using assms(1)
proof cases
  case input
  with copy_input_ok [OF assms(2,3)] show ?thesis by auto
next
  case to_socket
  with copy_to_socket_ok [OF assms(2,3)] show ?thesis by auto
next
  case from_socket
  with copy_from_socket_ok [OF assms(2,3)] show ?thesis by auto
next
  case out
  with copy_output_ok [OF assms(2,3)] show ?thesis by auto
qed (use assms(2) in \<open>auto simp: end_outbound_def end_inbound_def conserved_def copy_inv_def outbound_view_def inbound_view_def\<close>)

lemma copy_steps_conserved:
  assumes "(copy_step sc)\<^sup>*\<^sup>* w w'" and "copy_inv w" and "stream_kernel sc source sink"
  shows "conserved source sink w w'"
  using assms(1)
proof (induction rule: rtranclp_induct)
  case base
  then show ?case using assms(2) by (simp add: conserved_def)
next
  case (step w1 w2)
  then show ?case using copy_step_conserved [OF _ _ assms(3)] by (auto simp: conserved_def)
qed

section \<open>Properties\<close>


text \<open>A kernel with the bytes to be read and the bytes written of every descriptor, two at a time.\<close>

definition example_streams :: "((int \<Rightarrow> bytes) \<times> (int \<Rightarrow> bytes)) syscalls" where
  "example_streams = \<lparr>sc_call = (\<lambda>c (src, snk).
       let none = \<lparr>sr_value = 0, sr_errno = 0, sr_data = [], sr_address = [], sr_address_size = 0, sr_option = (0, 0),
                   sr_revents = [], sr_pair = (0, 0)\<rparr>
       in case c of
            Sys_writev num iov \<Rightarrow>
              (let bs = take 2 (concat (map fst iov))
               in (none\<lparr>sr_value := int (length bs)\<rparr>, (src, snk(num := snk num @ bs))))
          | Sys_read num limit \<Rightarrow>
              (let bs = take (min 2 (unat limit)) (src num)
               in (none\<lparr>sr_value := int (length bs), sr_data := bs\<rparr>, (src(num := drop (length bs) (src num)), snk)))
          | _ \<Rightarrow> (none, (src, snk))),
      sc_strerror = (\<lambda>_. [])\<rparr>"

lemma example_streams_kernel: "stream_kernel example_streams (\<lambda>m k. fst k m) (\<lambda>m k. snd k m)"
proof -
  have "\<exists>n r k'. sc_call example_streams (Sys_writev num iov) k = (r, k') \<and> sr_value r = int n
      \<and> n \<le> length (concat (map fst iov)) \<and> n < 2 ^ 31 \<and> (concat (map fst iov) \<noteq> [] \<longrightarrow> 0 < n)
      \<and> snd k' num = snd k num @ take n (concat (map fst iov))" for num iov k
    by (cases k) (rule exI [of _ "min 2 (length (concat (map fst iov)))"],
        auto simp: example_streams_def Let_def min_def)
  moreover have "\<exists>n r k'. sc_call example_streams (Sys_read num limit) k = (r, k') \<and> sr_value r = int n \<and> n \<le> unat limit
      \<and> n < 2 ^ 31 \<and> n \<le> length (sr_data r) \<and> fst k num = take n (sr_data r) @ fst k' num" for num limit k
    by (cases k) (rule exI [of _ "length (take (min 2 (unat limit)) (fst k num))"],
        auto simp: example_streams_def Let_def)
  ultimately show ?thesis
    by (auto simp: stream_kernel_def writes_prefix_def reads_prefix_def leaves_def)
      (auto simp: example_streams_def Let_def split: if_splits)
qed

definition example_copy :: "((int \<Rightarrow> bytes) \<times> (int \<Rightarrow> bytes)) copy_world" where
  "example_copy = \<lparr>w_kernel = ((\<lambda>m. if m = 0 then [1, 2, 3] else []), (\<lambda>_. [])),
     w_fds = map (\<lambda>n. \<lparr>fd_fd = n, fd_eof = False, fd_closed = False, fd_read_count = 0, fd_write_count = 0\<rparr>) [5, 0, 1],
     w_user = \<lparr>cp_socket = 0, cp_input = 1, cp_output = 2, cp_outbound = ByteStream_new 9, cp_inbound = ByteStream_new 9,
               cp_outbound_shutdown = False, cp_inbound_shutdown = False\<rparr>\<rparr>"


end
