(* ===== verification/Packet_Dump.thy ===== *)
theory Packet_Dump
  imports TCP_Segment Text_Format
begin

text \<open>
  The printed forms of TCP headers (\<open>tcp_helpers/tcp_header.cc\<close>), the dump of bytes of
  \<open>util/util.cc\<close>, and \<open>apps/udp_tcpdump.cc\<close>, which looks for TCP segments in captured UDP
  packets. A captured packet is the list of its bytes, and a read past its end is undefined. The
  capture library is not modelled: the type of the link and the packets are arguments, and so
  is the printed form of an IPv6 address. The lemmas say which captures are dissected without
  reading past their end.
\<close>

unbundle bit_operations_syntax

section \<open>The order of the results of parsing\<close>

fun ParseResult_value :: "ParseResult \<Rightarrow> nat" where
  "ParseResult_value NoError = 0"
| "ParseResult_value BadChecksum = 1"
| "ParseResult_value PacketTooShort = 2"
| "ParseResult_value WrongIPVersion = 3"
| "ParseResult_value HeaderTooShort = 4"
| "ParseResult_value TruncatedPacket = 5"
| "ParseResult_value Unsupported = 6"

lemma ParseResult_value_inject: "ParseResult_value a = ParseResult_value b \<Longrightarrow> a = b"
  by (cases a; cases b) simp_all

instantiation ParseResult :: linorder
begin

definition less_eq_ParseResult :: "ParseResult \<Rightarrow> ParseResult \<Rightarrow> bool" where
  "less_eq_ParseResult a b \<longleftrightarrow> ParseResult_value a \<le> ParseResult_value b"

definition less_ParseResult :: "ParseResult \<Rightarrow> ParseResult \<Rightarrow> bool" where
  "less_ParseResult a b \<longleftrightarrow> ParseResult_value a < ParseResult_value b"

instance
  by standard (auto simp: less_eq_ParseResult_def less_ParseResult_def intro: ParseResult_value_inject)

end

section \<open>Printed headers\<close>

definition TCPHeader_to_string :: "TCPHeader \<Rightarrow> string" where
  "TCPHeader_to_string h =
     ''TCP source port: '' @ print_hex (unat (th_sport h)) @ [CHR 0x0A]
     @ ''TCP dest port: '' @ print_hex (unat (th_dport h)) @ [CHR 0x0A]
     @ ''TCP seqno: '' @ print_hex (unat (raw_value (th_seqno h))) @ [CHR 0x0A]
     @ ''TCP ackno: '' @ print_hex (unat (raw_value (th_ackno h))) @ [CHR 0x0A]
     @ ''TCP doff: '' @ print_hex (unat (th_doff h)) @ [CHR 0x0A]
     @ ''Flags: urg: '' @ print_boolalpha (th_urg h) @ '' ack: '' @ print_boolalpha (th_ack h)
     @ '' psh: '' @ print_boolalpha (th_psh h) @ '' rst: '' @ print_boolalpha (th_rst h)
     @ '' syn: '' @ print_boolalpha (th_syn h) @ '' fin: '' @ print_boolalpha (th_fin h) @ [CHR 0x0A]
     @ ''TCP winsize: '' @ print_hex (unat (th_win h)) @ [CHR 0x0A]
     @ ''TCP cksum: '' @ print_hex (unat (th_cksum h)) @ [CHR 0x0A]
     @ ''TCP uptr: '' @ print_hex (unat (th_uptr h)) @ [CHR 0x0A]"

definition flag_text :: "bool \<Rightarrow> string \<Rightarrow> string" where
  "flag_text b s = (if b then s else [])"

definition TCPHeader_summary :: "TCPHeader \<Rightarrow> string" where
  "TCPHeader_summary h =
     ''Header(flags='' @ flag_text (th_syn h) ''S'' @ flag_text (th_ack h) ''A'' @ flag_text (th_rst h) ''R''
     @ flag_text (th_fin h) ''F'' @ '',seqno='' @ print_dec (unat (raw_value (th_seqno h)))
     @ '',ack='' @ print_dec (unat (raw_value (th_ackno h))) @ '',win='' @ print_dec (unat (th_win h)) @ '')''"

section \<open>hexdump\<close>

text \<open>
  A \<open>stringstream\<close> set to one space is written from its start, so the first character replaces
  the space.
\<close>

definition pchars_str :: "string \<Rightarrow> string" where
  "pchars_str written = (if written = [] then '' '' else written)"

definition dump_char :: "byte \<Rightarrow> char" where
  "dump_char b = (if 0x20 \<le> b \<and> b \<le> 0x7e then char_of (unat b) else CHR ''.'')"

text \<open>The loop, with the number of bytes printed and the characters of the line; for less than \<open>2 ^ 31\<close> bytes.\<close>

primrec hexdump_loop :: "string \<Rightarrow> bytes \<Rightarrow> nat \<Rightarrow> string \<Rightarrow> string \<times> nat \<times> string" where
  "hexdump_loop indent_string [] printed pchars = ([], printed, pchars)"
| "hexdump_loop indent_string (b # data) printed pchars =
     (let (before, pchars) =
            (if printed mod 16 = 0
             then if printed \<noteq> 0
                  then (''    '' @ pchars_str pchars @ [CHR 0x0A] @ indent_string @ fill_zeros 8 (print_hex printed) @ '':    '', [])
                  else (indent_string @ fill_zeros 8 (print_hex printed) @ '':    '', pchars)
             else if printed mod 2 = 0 then ('' '', pchars) else ([], pchars));
          (rest, result) = hexdump_loop indent_string data (printed + 1) (pchars @ [dump_char b])
      in (before @ fill_zeros 2 (print_hex (unat b)) @ rest, result))"

definition hexdump :: "bytes \<Rightarrow> nat \<Rightarrow> string" where
  "hexdump data indent =
     (let (text, printed, pchars) = hexdump_loop (replicate indent (CHR '' '')) data 0 [];
          print_rem = (16 - printed mod 16) mod 16
      in text @ replicate (2 * print_rem + print_rem div 2 + 4) (CHR '' '') @ pchars_str pchars @ [CHR 0x0A, CHR 0x0A])"

section \<open>Arguments\<close>

text \<open>What the program does after looking at its arguments: exit with a code, or go on.\<close>

datatype outcome = Exit_program int string | Go_on nat "string option"

definition show_usage :: "string \<Rightarrow> string option \<Rightarrow> string" where
  "show_usage arg0 errmsg =
     ''Usage: '' @ arg0 @ '' [-i <intf>] [-F <file>] [-h|--help] <expression>'' @ [CHR 0x0A, CHR 0x0A]
     @ ''  -i <intf>    only capture packets from <intf> (default: all)'' @ [CHR 0x0A, CHR 0x0A]
     @ ''  -F <file>    reads in a filter expression from <file>'' @ [CHR 0x0A]
     @ ''               <expression> is ignored if -F is supplied.'' @ [CHR 0x0A, CHR 0x0A]
     @ ''  -h, --help   show this message'' @ [CHR 0x0A, CHR 0x0A]
     @ ''  <expression> a filter expression in pcap-filter(7) syntax'' @ [CHR 0x0A]
     @ (case errmsg of None \<Rightarrow> [] | Some e \<Rightarrow> [CHR 0x0A] @ e) @ [CHR 0x0A]"

function parse_arguments :: "string list \<Rightarrow> nat \<Rightarrow> string option \<Rightarrow> outcome" where
  "parse_arguments argv cur dev =
     (if cur < length argv
      then if argv ! cur = ''-i''
           then if cur + 1 \<ge> length argv
                then Exit_program 1 (show_usage (argv ! 0) (Some ''ERROR: -i requires an argument''))
                else parse_arguments argv (cur + 2) (Some (argv ! (cur + 1)))
           else if argv ! cur = ''-h'' \<or> argv ! cur = ''--help''
           then Exit_program 0 (show_usage (argv ! 0) None)
           else Go_on cur dev
      else Go_on cur dev)"
  by auto
termination
  by (relation "measure (\<lambda>(argv, cur, dev). length argv - cur)") auto

declare parse_arguments.simps [simp del]

section \<open>Dissecting a packet\<close>

definition byte_at :: "bytes \<Rightarrow> int \<Rightarrow> byte result" where
  "byte_at data i =
     (if 0 \<le> i \<and> i < int (length data) then Inr (data ! nat i) else Inl Undefined_behaviour)"

definition bytes_at :: "bytes \<Rightarrow> nat \<Rightarrow> nat \<Rightarrow> bytes result" where
  "bytes_at data i n = (if i + n \<le> length data then Inr (take n (drop i data)) else Inl Undefined_behaviour)"

definition inet4_addr :: "bytes \<Rightarrow> nat \<Rightarrow> string result" where
  "inet4_addr data i = result_map (\<lambda>bs. inet_ntoa (be_value bs)) (bytes_at data i 4)"

text \<open>\<open>inet_ntop\<close> for IPv6 is a parameter, which may fail.\<close>

definition inet6_addr :: "(bytes \<Rightarrow> string option) \<Rightarrow> bytes \<Rightarrow> nat \<Rightarrow> string result" where
  "inet6_addr inet6_ntop data i =
     result_map (\<lambda>bs. case inet6_ntop bs of None \<Rightarrow> ''unknown'' | Some s \<Rightarrow> s) (bytes_at data i 16)"

text \<open>What is printed on \<open>cerr\<close>, and the value that is returned.\<close>

type_synonym offset = "string \<times> int"

text \<open>The loop over the extension headers of IPv6.\<close>

function skip_extensions :: "bytes \<Rightarrow> byte \<Rightarrow> int \<Rightarrow> offset result" where
  "skip_extensions data nxt data_offset =
     (if nxt = 0x11 then Inr ([], data_offset)
      else if nxt \<noteq> 0 \<and> nxt \<noteq> 43 \<and> nxt \<noteq> 60 then Inr (''Not UDP or fragmented; '', - 1)
      else
        (case byte_at data data_offset of
           Inl e \<Rightarrow> Inl e
         | Inr nxt' \<Rightarrow>
             (case byte_at data (data_offset + 1) of
                Inl e \<Rightarrow> Inl e
              | Inr len8 \<Rightarrow>
                  if int (length data) < data_offset + 8 * (1 + uint len8) + 2 then Inr ([], - 1)
                  else skip_extensions data nxt' (data_offset + 8 * (1 + uint len8)))))"
  by auto
termination
proof (relation "measure (\<lambda>(data, nxt, data_offset). nat (int (length data) - data_offset))", goal_cases)
  case (2 data nxt data_offset nxt' len8)
  from 2 have "data_offset < int (length data)"
    by (auto simp: byte_at_def split: if_splits)
  moreover have "data_offset < data_offset + 8 * (1 + uint len8)"
    by (simp add: add_pos_nonneg)
  ultimately show ?case
    by (simp only: in_measure split_conv)
qed simp

declare skip_extensions.simps [simp del]

definition process_ipv4_ipv6 ::
  "(bytes \<Rightarrow> string option) \<Rightarrow> bytes \<Rightarrow> (offset \<times> (string \<times> string) option) result" where
  "process_ipv4_ipv6 inet6_ntop data =
     (let len = int (length data)
      in if len < 1 then Inr (([], - 1), None)
         else result_bind (byte_at data 0) (\<lambda>b0.
           let pt = b0 AND 0xf0
           in if pt = 0x40
              then let data_offset = uint (b0 AND 0x0f) * 4
                   in if len < data_offset then Inr (([], - 1), None)
                      else result_bind (byte_at data 9) (\<lambda>proto.
                        if proto \<noteq> 0x11 then Inr ((''Not UDP; '', - 1), None)
                        else result_bind (inet4_addr data 12) (\<lambda>src.
                             result_map (\<lambda>dst. (([], data_offset + 8), Some (src, dst))) (inet4_addr data 16)))
              else if pt = 0x60
              then if len < 42 then Inr (([], - 1), None)
                   else result_bind (byte_at data 6) (\<lambda>nxt.
                        result_bind (skip_extensions data nxt 40) (\<lambda>(text, data_offset).
                          if data_offset < 0 then Inr ((text, - 1), None)
                          else result_bind (inet6_addr inet6_ntop data 8) (\<lambda>src.
                               result_map (\<lambda>dst. ((text, data_offset + 8), Some (src, dst)))
                                 (inet6_addr inet6_ntop data 24))))
              else Inr (([], - 1), None)))"

text \<open>Where the network layer starts, for the types of link that are supported.\<close>

definition DLT_NULL :: int where "DLT_NULL = 0"
definition DLT_EN10MB :: int where "DLT_EN10MB = 1"
definition DLT_RAW :: int where "DLT_RAW = 12"
definition DLT_LINUX_SLL :: int where "DLT_LINUX_SLL = 113"
definition DLT_LINUX_SLL2 :: int where "DLT_LINUX_SLL2 = 276"

datatype link_result = Skip string | Give_up string | Header_offset nat

definition check_ethertype :: "bytes \<Rightarrow> nat \<Rightarrow> nat \<Rightarrow> link_result result" where
  "check_ethertype pkt_data hdr_off at =
     (if length pkt_data < hdr_off then Inr (Skip (''[INFO] Skipping malformed packet.'' @ [CHR 0x0A]))
      else result_bind (byte_at pkt_data (int at)) (\<lambda>hi.
           result_map (\<lambda>lo.
               let pt = push_bit 8 (ucast hi) OR ucast lo :: u16
               in if pt \<noteq> 0x0800 \<and> pt \<noteq> 0x86dd then Skip (''[INFO] Skipping non-IP packet.'' @ [CHR 0x0A])
                  else Header_offset hdr_off)
             (byte_at pkt_data (int at + 1))))"

definition link_header :: "int \<Rightarrow> bytes \<Rightarrow> link_result result" where
  "link_header dl_type pkt_data =
     (if dl_type = DLT_NULL
      then if length pkt_data < 4 then Inr (Skip (''[INFO] Skipping malformed packet.'' @ [CHR 0x0A]))
           else result_map (\<lambda>pt.
               if pt \<noteq> 2 \<and> pt \<noteq> 24 \<and> pt \<noteq> 28 \<and> pt \<noteq> 30 then Skip (''[INFO] Skipping non-IP packet.'' @ [CHR 0x0A])
               else Header_offset 4) (byte_at pkt_data 3)
      else if dl_type = DLT_EN10MB then check_ethertype pkt_data 14 12
      else if dl_type = DLT_LINUX_SLL then check_ethertype pkt_data 16 14
      else if dl_type = DLT_LINUX_SLL2 then check_ethertype pkt_data 20 0
      else if dl_type \<noteq> DLT_RAW then Inr (Give_up ''Mysterious datalink type. Giving up.'')
      else Inr (Header_offset 0))"

text \<open>The lines printed for a payload that may be a TCP segment.\<close>

definition segment_text :: "string \<Rightarrow> string \<Rightarrow> nat \<Rightarrow> ParseResult \<Rightarrow> TCPSegment \<Rightarrow> string" where
  "segment_text src dst payload_len res seg =
     (let tcp_hdr = seg_header seg;
          seqlen = ucast (TCPSegment_length_in_sequence_space seg) :: u32
      in src @ '':'' @ print_dec (unat (th_sport tcp_hdr)) @ '' > '' @ dst @ '':'' @ print_dec (unat (th_dport tcp_hdr))
         @ [CHR 0x0A] @ ''    Flags [''
         @ flag_text (th_urg tcp_hdr) ''U'' @ flag_text (th_psh tcp_hdr) ''P'' @ flag_text (th_rst tcp_hdr) ''R''
         @ flag_text (th_syn tcp_hdr) ''S'' @ flag_text (th_fin tcp_hdr) ''F'' @ flag_text (th_ack tcp_hdr) ''.''
         @ ''] cksum 0x'' @ fill_zeros 4 (print_hex (unat (th_cksum tcp_hdr)))
         @ (if res = NoError then '' (correct)'' else '' (incorrect!)'')
         @ '' seq '' @ print_dec (unat (raw_value (th_seqno tcp_hdr)))
         @ (if 0 < seqlen then '':'' @ print_dec (unat (raw_value (WrappingInt32_plus (th_seqno tcp_hdr) seqlen))) else [])
         @ '' ack '' @ print_dec (unat (raw_value (th_ackno tcp_hdr))) @ '' win '' @ print_dec (unat (th_win tcp_hdr))
         @ '' length '' @ print_dec payload_len @ [CHR 0x0A])"

definition describe_payload :: "string \<Rightarrow> string \<Rightarrow> bytes \<Rightarrow> string result" where
  "describe_payload src dst payload =
     result_map (\<lambda>(res, seg).
         if res > BadChecksum
         then ''(did not recognize TCP header) src: '' @ src @ '' dst: '' @ dst @ [CHR 0x0A]
         else segment_text src dst (length payload) res seg)
       (TCPSegment_parse TCPSegment_new (Buffer_of payload) 0)"

text \<open>
  One round of the capture loop: what is printed on \<open>cerr\<close> and on \<open>cout\<close>, and whether the program
  gives up. The length of the payload is a \<open>size_t\<close>; a string of the size that a negative length
  becomes cannot be made.
\<close>

definition dump_packet ::
  "(bytes \<Rightarrow> string option) \<Rightarrow> int \<Rightarrow> bytes \<Rightarrow> (string \<times> string \<times> bool) result" where
  "dump_packet inet6_ntop dl_type pkt_data =
     result_bind (link_header dl_type pkt_data) (\<lambda>link.
       case link of
         Skip text \<Rightarrow> Inr (text, [], False)
       | Give_up text \<Rightarrow> Inr (text, [], True)
       | Header_offset hdr_off \<Rightarrow>
           result_bind (process_ipv4_ipv6 inet6_ntop (drop hdr_off pkt_data)) (\<lambda>((text, start_off), addresses).
             case addresses of
               None \<Rightarrow> Inr (text @ ''Error parsing IPv4/IPv6 packet. Skipping.'' @ [CHR 0x0A], [], False)
             | Some (src, dst) \<Rightarrow>
                 if length pkt_data < hdr_off + nat start_off then Inl Length_error
                 else let payload = drop (hdr_off + nat start_off) pkt_data
                      in result_map (\<lambda>t. (text, t @ hexdump payload 8, False)) (describe_payload src dst payload)))"

section \<open>The program\<close>

text \<open>What a call of \<open>pcap_next_ex\<close> gives: a timeout, a packet, an error with its message, or the end of the capture.\<close>

datatype capture = Capture_timeout | Capture_packet bytes | Capture_error string | Capture_end

text \<open>
  The capture loop on the results of its calls: what is printed on \<open>cerr\<close> and \<open>cout\<close>, and the exit
  code, if the loop has ended.
\<close>

primrec capture_loop ::
  "(bytes \<Rightarrow> string option) \<Rightarrow> int \<Rightarrow> capture list \<Rightarrow> (string \<times> string \<times> int option) result" where
  "capture_loop inet6_ntop dl_type [] = Inr ([], [], None)"
| "capture_loop inet6_ntop dl_type (c # cs) =
     (case c of
        Capture_timeout \<Rightarrow> capture_loop inet6_ntop dl_type cs
      | Capture_packet pkt_data \<Rightarrow>
          result_bind (dump_packet inet6_ntop dl_type pkt_data) (\<lambda>(err, out, give_up).
            if give_up then Inr (err, out, Some 1)
            else result_map (\<lambda>(err', out', code). (err @ err', out @ out', code)) (capture_loop inet6_ntop dl_type cs))
      | Capture_error e \<Rightarrow> Inr ([], ''Error listening for packet: '' @ e @ [CHR 0x0A], Some 1)
      | Capture_end \<Rightarrow> Inr ([], [], Some 0))"

definition supported_datalink :: "int \<Rightarrow> bool" where
  "supported_datalink dlt \<longleftrightarrow>
     dlt = DLT_RAW \<or> dlt = DLT_NULL \<or> dlt = DLT_EN10MB \<or> dlt = DLT_LINUX_SLL \<or> dlt = DLT_LINUX_SLL2"

definition filter_expression :: "string list \<Rightarrow> nat \<Rightarrow> string" where
  "filter_expression argv exp_start = concat (map (\<lambda>arg. arg @ '' '') (drop exp_start argv))"

text \<open>
  The capture library: the error or the type of link of an opened device, the description of a
  type, the errors of compiling and setting an expression, and what the calls of
  \<open>pcap_next_ex\<close> give.
\<close>

record pcap =
  pc_open_live :: "string option \<Rightarrow> string + int"
  pc_description :: "int \<Rightarrow> string"
  pc_compile :: "string \<Rightarrow> string option"
  pc_setfilter :: "string \<Rightarrow> string option"
  pc_next_ex :: "capture list"

definition udp_tcpdump ::
  "(bytes \<Rightarrow> string option) \<Rightarrow> pcap \<Rightarrow> string list \<Rightarrow> (string \<times> string \<times> int option) result" where
  "udp_tcpdump inet6_ntop pc argv =
     (case parse_arguments argv 1 None of
        Exit_program code out \<Rightarrow> Inr ([], out, Some code)
      | Go_on exp_start dev \<Rightarrow>
          let out = (case dev of Some d \<Rightarrow> ''Capturing on interface '' @ d | None \<Rightarrow> ''Capturing on all interfaces'')
          in case pc_open_live pc dev of
               Inl errbuf \<Rightarrow> Inr ([], out @ [CHR 0x0A] @ ''Error initiating capture: '' @ errbuf @ [CHR 0x0A], Some 1)
             | Inr dlt \<Rightarrow>
                 if \<not> supported_datalink dlt
                 then Inr ([], out @ [CHR 0x0A] @ ''Error: unsupported datalink type '' @ pc_description pc dlt @ [CHR 0x0A], Some 1)
                 else
                   let expr = filter_expression argv exp_start;
                       out = out @ '' (type: '' @ pc_description pc dlt @ '')'' @ [CHR 0x0A]
                             @ ''Using filter expression: '' @ expr @ [CHR 0x0A]
                   in case pc_compile pc expr of
                        Some e \<Rightarrow> Inr ([], out @ ''Error compiling filter expression: '' @ e @ [CHR 0x0A], Some 1)
                      | None \<Rightarrow>
                          (case pc_setfilter pc expr of
                             Some e \<Rightarrow> Inr ([], out @ ''Error configuring packet filter: '' @ e @ [CHR 0x0A], Some 1)
                           | None \<Rightarrow> result_map (\<lambda>(err, out', code). (err, out @ out', code))
                                       (capture_loop inet6_ntop dlt (pc_next_ex pc))))"

section \<open>The expression\<close>

text \<open>The index that is returned is one of the arguments or their end; the option \<open>-F\<close> of the usage is left in the expression.\<close>

lemma parse_arguments_bounds:
  "parse_arguments argv cur dev = Go_on i dev' \<Longrightarrow> cur \<le> length argv \<Longrightarrow> cur \<le> i \<and> i \<le> length argv"
proof (induction argv cur dev rule: parse_arguments.induct)
  case (1 argv cur dev)
  from 1(2,3) show ?case
    by (subst (asm) parse_arguments.simps) (use 1(1) in \<open>fastforce split: if_splits\<close>)
qed

lemma parse_arguments_file:
  "cur < length argv \<Longrightarrow> argv ! cur = ''-F'' \<Longrightarrow> parse_arguments argv cur dev = Go_on cur dev"
  by (simp add: parse_arguments.simps)

section \<open>What is printed\<close>

lemma hexdump_loop_printed: "fst (snd (hexdump_loop ind data printed pchars)) = printed + length data"
  by (induction data arbitrary: printed pchars) (simp_all add: split_beta)

text \<open>The space that the stream of characters is set to does not get printed.\<close>

lemma hexdump_without_space:
  "hexdump [0x41, 0x0a] 0 = ''00000000:    410a'' @ replicate 39 (CHR '' '') @ ''A.'' @ [CHR 0x0A, CHR 0x0A]"
  by code_simp

lemma skip_extensions_safe:
  assumes "0 \<le> data_offset" and "data_offset + 2 \<le> int (length data)"
  shows "\<exists>t i. skip_extensions data nxt data_offset = Inr (t, i)
     \<and> (i = - 1 \<or> data_offset \<le> i \<and> i + 2 \<le> int (length data))"
  using assms
proof (induction data nxt data_offset rule: skip_extensions.induct)
  case (1 data nxt data_offset)
  show ?case
  proof (cases "nxt = 0x11 \<or> (nxt \<noteq> 0 \<and> nxt \<noteq> 43 \<and> nxt \<noteq> 60)
      \<or> int (length data) < data_offset + 8 * (1 + uint (data ! nat (data_offset + 1))) + 2")
    case True
    with 1(2,3) show ?thesis
      by (subst skip_extensions.simps) (auto simp: byte_at_def)
  next
    case False
    have at: "byte_at data data_offset = Inr (data ! nat data_offset)"
      "byte_at data (data_offset + 1) = Inr (data ! nat (data_offset + 1))"
      using 1(2,3) by (simp_all add: byte_at_def)
    have le: "data_offset \<le> data_offset + 8 * (1 + uint (data ! nat (data_offset + 1)))"
      by (simp add: add_nonneg_nonneg)
    from False obtain t i
      where "skip_extensions data (data ! nat data_offset) (data_offset + 8 * (1 + uint (data ! nat (data_offset + 1)))) = Inr (t, i)"
        "i = - 1 \<or> data_offset + 8 * (1 + uint (data ! nat (data_offset + 1))) \<le> i \<and> i + 2 \<le> int (length data)"
      using 1(1) [OF _ _ at] 1(2) le by fastforce
    with False at order_trans [OF le] show ?thesis
      by (subst skip_extensions.simps) auto
  qed
qed


text \<open>A capture is dissected without reading past its end, if an IPv4 header says that it has its twenty bytes.\<close>

lemma process_ipv4_ipv6_safe:
  assumes "data \<noteq> [] \<Longrightarrow> data ! 0 AND 0xf0 = 0x40 \<Longrightarrow> 5 \<le> uint (data ! 0 AND 0x0f)"
  shows "\<exists>t i addrs. process_ipv4_ipv6 ntop data = Inr ((t, i), addrs)
     \<and> (case addrs of None \<Rightarrow> i = - 1 | Some _ \<Rightarrow> 8 \<le> i \<and> i \<le> int (length data) + 8)"
proof -
  consider "data = []" | (v4) "data \<noteq> []" "data ! 0 AND 0xf0 = 0x40"
    | (v6) "42 \<le> length data" "data ! 0 AND 0xf0 = 0x60"
    | (none) "data \<noteq> []" "data ! 0 AND 0xf0 \<noteq> 0x40" "length data < 42 \<or> data ! 0 AND 0xf0 \<noteq> 0x60"
    by (meson not_less)
  then show ?thesis
  proof cases
    case 1
    then show ?thesis by (simp add: process_ipv4_ipv6_def)
  next
    case v4
    from assms [OF v4] have ihl: "20 \<le> uint (data ! 0 AND 0x0f) * 4" by simp
    show ?thesis
    proof (cases "int (length data) < uint (data ! 0 AND 0x0f) * 4")
      case True
      with v4 show ?thesis
        by (cases data) (simp_all add: process_ipv4_ipv6_def byte_at_def)
    next
      case False
      with ihl have "20 \<le> length data" by linarith
      with v4 False ihl show ?thesis
        by (cases data) (simp_all add: process_ipv4_ipv6_def byte_at_def inet4_addr_def bytes_at_def)
    qed
  next
    case v6
    then obtain t i where skip: "skip_extensions data (data ! 6) 40 = Inr (t, i)"
      and "i = - 1 \<or> 40 \<le> i \<and> i + 2 \<le> int (length data)"
      using skip_extensions_safe [of 40 data "data ! 6"] by auto
    moreover from v6(1) have "data \<noteq> []" by auto
    ultimately show ?thesis using v6
      by (auto simp add: Let_def process_ipv4_ipv6_def byte_at_def inet6_addr_def bytes_at_def)
  next
    case none
    then show ?thesis
      by (cases data) (auto simp add: process_ipv4_ipv6_def byte_at_def)
  qed
qed

text \<open>An IPv4 capture with a smaller header length is not checked to have the bytes that are read.\<close>

lemma process_ipv4_ipv6_short_capture: "process_ipv4_ipv6 ntop [0x40] = Inl Undefined_behaviour"
  by (simp add: process_ipv4_ipv6_def byte_at_def)

lemma segment_text_cong:
  assumes "seg_header a = seg_header b" and "Buffer_str (seg_payload a) = Buffer_str (seg_payload b)"
  shows "segment_text src dst n res a = segment_text src dst n res b"
  using assms by (simp add: segment_text_def TCPSegment_length_in_sequence_space_def)

lemma describe_payload_segment:
  assumes "5 \<le> th_doff (seg_header seg)" and "th_doff (seg_header seg) < 16"
    and "65280 * (4 * unat (th_doff (seg_header seg)) + length (Buffer_str (seg_payload seg))) < 2 ^ 32"
    and "TCPSegment_serialize seg 0 = Inr bl"
  shows "\<exists>ck. describe_payload src dst (BufferList_concatenate bl)
     = Inr (segment_text src dst (length (BufferList_concatenate bl)) NoError
              (seg\<lparr>seg_header := (seg_header seg)\<lparr>th_cksum := ck\<rparr>\<rparr>))"
proof -
  have fits: "unat (0 :: u32) + 65280 * (4 * unat (th_doff (seg_header seg)) + length (Buffer_str (seg_payload seg))) < 2 ^ 32"
    using assms(3) by simp
  from TCPSegment_wire [OF assms(1,2) fits] assms(4) obtain c where
    len: "length (BufferList_concatenate bl) = 4 * unat (th_doff (seg_header seg)) + length (Buffer_str (seg_payload seg))"
    and parse: "\<And>b0 s. Buffer_inv b0 \<Longrightarrow> Buffer_str b0 = BufferList_concatenate bl \<Longrightarrow>
        (\<exists>b. TCPSegment_parse s b0 0 = Inr (NoError, \<lparr>seg_header = (seg_header seg)\<lparr>th_cksum := c\<rparr>, seg_payload = b\<rparr>)
           \<and> Buffer_str b = Buffer_str (seg_payload seg) \<and> Buffer_inv b)"
    by auto
  have "length (BufferList_concatenate bl) < 2 ^ 64" using len assms(3) by simp
  from parse [OF Buffer_inv_of [OF this] Buffer_str_of [OF this], of TCPSegment_new] obtain b where
    b: "TCPSegment_parse TCPSegment_new (Buffer_of (BufferList_concatenate bl)) 0
        = Inr (NoError, \<lparr>seg_header = (seg_header seg)\<lparr>th_cksum := c\<rparr>, seg_payload = b\<rparr>)"
    "Buffer_str b = Buffer_str (seg_payload seg)"
    by blast
  then have "describe_payload src dst (BufferList_concatenate bl)
     = Inr (segment_text src dst (length (BufferList_concatenate bl)) NoError
              \<lparr>seg_header = (seg_header seg)\<lparr>th_cksum := c\<rparr>, seg_payload = b\<rparr>)"
    by (simp add: describe_payload_def less_ParseResult_def)
  also have "\<dots> = Inr (segment_text src dst (length (BufferList_concatenate bl)) NoError
              (seg\<lparr>seg_header := (seg_header seg)\<lparr>th_cksum := c\<rparr>\<rparr>))"
    by (subst segment_text_cong [of _ "seg\<lparr>seg_header := (seg_header seg)\<lparr>th_cksum := c\<rparr>\<rparr>"]) (simp_all add: b(2))
  finally show ?thesis by blast
qed

text \<open>A payload whose checksum is wrong is described by the empty header, because the parser stops before reading it.\<close>

lemma describe_payload_bad_checksum:
  assumes "length payload < 2 ^ 64" and "inet_cksum 0 payload \<noteq> 0"
  shows "describe_payload src dst payload
     = Inr (src @ '':0 > '' @ dst @ '':0'' @ [CHR 0x0A] @ ''    Flags [] cksum 0x0000 (incorrect!) seq 0 ack 0 win 0 length ''
            @ print_dec (length payload) @ [CHR 0x0A])"
proof -
  have "TCPSegment_parse TCPSegment_new (Buffer_of payload) 0 = Inr (BadChecksum, TCPSegment_new)"
    using assms by (simp add: TCPSegment_parse_def Buffer_str_of)
  moreover have "segment_text src dst n BadChecksum TCPSegment_new
      = src @ '':0 > '' @ dst @ '':0'' @ [CHR 0x0A] @ ''    Flags [] cksum 0x0000 (incorrect!) seq 0 ack 0 win 0 length ''
            @ print_dec n @ [CHR 0x0A]" for n
  proof -
    have "seg_header TCPSegment_new = TCPHeader_new" "TCPSegment_length_in_sequence_space TCPSegment_new = 0"
      "print_dec 0 = ''0''" "fill_zeros 4 (print_hex 0) = ''0000''"
      by code_simp+
    then show ?thesis
      by (simp add: segment_text_def TCPHeader_new_def flag_text_def)
  qed
  ultimately show ?thesis
    by (simp add: describe_payload_def less_ParseResult_def)
qed

lemma dump_packet_udp:
  assumes "length eth = 14" and "drop 12 eth = [0x08, 0x00]" and "length ip = 20" and "ip ! 0 = 0x45"
    and "ip ! 9 = 0x11" and "length udp = 8"
  shows "dump_packet ntop DLT_EN10MB (eth @ ip @ udp @ payload)
     = result_map (\<lambda>t. ([], t @ hexdump payload 8, False))
         (describe_payload (inet_ntoa (be_value (take 4 (drop 12 ip)))) (inet_ntoa (be_value (drop 16 ip))) payload)"
proof -
  from assms(1,2) have eth: "eth ! 12 = 0x08" "eth ! 13 = 0x00"
    using nth_drop [of 12 eth 0] nth_drop [of 12 eth 1] by simp_all
  have link: "link_header DLT_EN10MB (eth @ ip @ udp @ payload) = Inr (Header_offset 14)"
    using assms(1) eth
    by (simp add: link_header_def DLT_EN10MB_def DLT_NULL_def check_ethertype_def byte_at_def nth_append)
  have "process_ipv4_ipv6 ntop (ip @ udp @ payload)
      = Inr (([], 28), Some (inet_ntoa (be_value (take 4 (drop 12 ip))), inet_ntoa (be_value (drop 16 ip))))"
    using assms(3-6)
    by (simp add: process_ipv4_ipv6_def byte_at_def inet4_addr_def bytes_at_def nth_append)
  with link assms show ?thesis
    by (simp add: dump_packet_def)
qed

section \<open>The loop goes on\<close>

lemma describe_payload_total:
  assumes "length payload < 2 ^ 64"
  shows "\<exists>t. describe_payload src dst payload = Inr t"
proof (cases "inet_cksum 0 payload = 0")
  case True
  obtain e h p where "TCPHeader_parse (NetParser_new (Buffer_of payload)) = Inr ((e, h), p)"
    using tcp_header.decode_returns [OF assms] by auto
  from TCPSegment_parse_buffer [OF assms True this] show ?thesis
    by (auto simp: describe_payload_def)
qed (use describe_payload_bad_checksum [OF assms] in blast)

text \<open>
  A round of the loop ends, unless an IPv4 header is too small for its own fields or the capture
  ends before the UDP payload.
\<close>

lemma link_header_safe: "\<exists>link. link_header dl_type pkt = Inr link \<and> (\<forall>n. link = Header_offset n \<longrightarrow> n \<le> length pkt)"
  by (auto simp: link_header_def check_ethertype_def byte_at_def Let_def)

lemma dump_packet_safe:
  assumes "length pkt < 2 ^ 64"
    and "\<And>n. link_header dl_type pkt = Inr (Header_offset n) \<Longrightarrow> n < length pkt \<Longrightarrow>
           pkt ! n AND 0xf0 = 0x40 \<Longrightarrow> 5 \<le> uint (pkt ! n AND 0x0f)"
  shows "dump_packet ntop dl_type pkt = Inl Length_error \<or> (\<exists>r. dump_packet ntop dl_type pkt = Inr r)"
proof -
  from link_header_safe obtain link where link: "link_header dl_type pkt = Inr link"
    and le: "\<And>n. link = Header_offset n \<Longrightarrow> n \<le> length pkt"
    by blast
  show ?thesis
  proof (cases link)
    case (Header_offset n)
    obtain t i addrs where addrs: "process_ipv4_ipv6 ntop (drop n pkt) = Inr ((t, i), addrs)"
      using process_ipv4_ipv6_safe [of "drop n pkt" ntop] assms(2) [of n] link Header_offset by auto
    show ?thesis
    proof (cases addrs)
      case None
      with addrs link Header_offset show ?thesis by (auto simp add: dump_packet_def)
    next
      case (Some a)
      obtain src dst where a: "a = (src, dst)" by (cases a)
      have "length (drop (n + nat i) pkt) < 2 ^ 64" using assms(1) by simp
      from describe_payload_total [OF this] obtain out
        where "describe_payload src dst (drop (n + nat i) pkt) = Inr out" by blast
      with addrs link Header_offset Some a show ?thesis by (auto simp add: dump_packet_def Let_def)
    qed
  qed (auto simp add: dump_packet_def link)
qed

lemma dump_packet_without_udp_header:
  "dump_packet ntop DLT_RAW [0x45, 0, 0, 0, 0, 0, 0, 0, 0, 0x11, 0, 0, 0, 0, 0, 0, 0, 0, 0, 0] = Inl Length_error"
  by (simp add: dump_packet_def link_header_def DLT_RAW_def DLT_NULL_def DLT_EN10MB_def DLT_LINUX_SLL_def
      DLT_LINUX_SLL2_def process_ipv4_ipv6_def byte_at_def inet4_addr_def bytes_at_def)

text \<open>The type of link is checked once, so the loop does not give up on it; an error of a packet ends the program.\<close>

lemma supported_datalink_goes_on:
  "supported_datalink dlt \<Longrightarrow> dump_packet ntop dlt pkt = Inr (err, out, give_up) \<Longrightarrow> \<not> give_up"
  by (auto simp: supported_datalink_def dump_packet_def link_header_def check_ethertype_def result_bind_Inr_iff
      result_map_Inr_iff Let_def split: if_splits option.splits link_result.splits)

lemma capture_loop_ends:
  assumes "supported_datalink dlt" and "capture_loop ntop dlt cs = Inr (err, out, code)"
  shows "code = None \<longleftrightarrow> (\<forall>c \<in> set cs. c = Capture_timeout \<or> (\<exists>pkt. c = Capture_packet pkt))"
  using assms(2)
proof (induction cs arbitrary: err out)
  case (Cons c cs)
  show ?case
  proof (cases c)
    case (Capture_packet pkt)
    with Cons.prems supported_datalink_goes_on [OF assms(1), of ntop] obtain err' out'
      where "capture_loop ntop dlt cs = Inr (err', out', code)"
      by (fastforce simp: result_bind_Inr_iff result_map_Inr_iff split: if_splits)
    with Cons.IH Capture_packet show ?thesis by auto
  qed (use Cons in auto)
qed simp

section \<open>Properties\<close>

text \<open>
  C15. \<open>udp_tcpdump\<close> shows the segments that are on the wire: for an Ethernet capture of an IPv4
  packet with a UDP datagram, if the payload is a segment as \<open>TCPSegment::serialize\<close> writes it for
  TCP over UDP, the addresses of the packet, the header of that segment, up to the checksum, and
  the bytes are printed, with the checksum called correct. If the checksum of the payload is
  wrong, the line printed is that of an empty header, whatever the payload holds.
\<close>

theorem dump_packet_shows_segment:
  assumes "length eth = 14" and "drop 12 eth = [0x08, 0x00]" and "length ip = 20" and "ip ! 0 = 0x45"
    and "ip ! 9 = 0x11" and "length udp = 8"
    and "src = inet_ntoa (be_value (take 4 (drop 12 ip)))" and "dst = inet_ntoa (be_value (drop 16 ip))"
  shows "(5 \<le> th_doff (seg_header seg) \<and> th_doff (seg_header seg) < 16
      \<and> 65280 * (4 * unat (th_doff (seg_header seg)) + length (Buffer_str (seg_payload seg))) < 2 ^ 32 \<longrightarrow>
      (\<exists>bl ck. TCPSegment_serialize seg 0 = Inr bl
      \<and> dump_packet ntop DLT_EN10MB (eth @ ip @ udp @ BufferList_concatenate bl)
        = Inr ([], segment_text src dst (length (BufferList_concatenate bl)) NoError
                     (seg\<lparr>seg_header := (seg_header seg)\<lparr>th_cksum := ck\<rparr>\<rparr>)
                   @ hexdump (BufferList_concatenate bl) 8, False)))
    \<and> (length payload < 2 ^ 64 \<and> inet_cksum 0 payload \<noteq> 0 \<longrightarrow>
      dump_packet ntop DLT_EN10MB (eth @ ip @ udp @ payload)
        = Inr ([], src @ '':0 > '' @ dst @ '':0'' @ [CHR 0x0A]
                   @ ''    Flags [] cksum 0x0000 (incorrect!) seq 0 ack 0 win 0 length ''
                   @ print_dec (length payload) @ [CHR 0x0A] @ hexdump payload 8, False))"
proof (intro conjI impI, elim conjE)
  note udp = dump_packet_udp [OF assms(1-6), folded assms(7,8)]
  assume doff: "5 \<le> th_doff (seg_header seg)" "th_doff (seg_header seg) < 16"
    and fits: "65280 * (4 * unat (th_doff (seg_header seg)) + length (Buffer_str (seg_payload seg))) < 2 ^ 32"
  from TCPSegment_wire [OF doff, of 0] fits obtain bl where bl: "TCPSegment_serialize seg 0 = Inr bl" by auto
  from describe_payload_segment [OF doff fits bl, of src dst] bl
  show "\<exists>bl ck. TCPSegment_serialize seg 0 = Inr bl
      \<and> dump_packet ntop DLT_EN10MB (eth @ ip @ udp @ BufferList_concatenate bl)
        = Inr ([], segment_text src dst (length (BufferList_concatenate bl)) NoError
                     (seg\<lparr>seg_header := (seg_header seg)\<lparr>th_cksum := ck\<rparr>\<rparr>)
                   @ hexdump (BufferList_concatenate bl) 8, False)"
    by (auto simp: udp)
next
  assume "length payload < 2 ^ 64 \<and> inet_cksum 0 payload \<noteq> 0"
  then show "dump_packet ntop DLT_EN10MB (eth @ ip @ udp @ payload)
        = Inr ([], src @ '':0 > '' @ dst @ '':0'' @ [CHR 0x0A]
                   @ ''    Flags [] cksum 0x0000 (incorrect!) seq 0 ack 0 win 0 length ''
                   @ print_dec (length payload) @ [CHR 0x0A] @ hexdump payload 8, False)"
    by (simp add: dump_packet_udp [OF assms(1-6), folded assms(7,8)] describe_payload_bad_checksum)
qed

theorem dump_packet_shows_segment_witness:
  "(\<exists>bl ck. TCPSegment_serialize (TCPSegment_new\<lparr>seg_payload := Buffer_of [7]\<rparr>) 0 = Inr bl
      \<and> dump_packet (\<lambda>_. None) DLT_EN10MB
          (replicate 12 0 @ [0x08, 0x00] @ [0x45, 0, 0, 0, 0, 0, 0, 0, 0, 0x11, 0, 0, 10, 0, 0, 1, 10, 0, 0, 2]
           @ replicate 8 0 @ BufferList_concatenate bl)
        = Inr ([], segment_text ''10.0.0.1'' ''10.0.0.2'' (length (BufferList_concatenate bl)) NoError
                     (TCPSegment_new\<lparr>seg_payload := Buffer_of [7], seg_header := TCPHeader_new\<lparr>th_cksum := ck\<rparr>\<rparr>)
                   @ hexdump (BufferList_concatenate bl) 8, False))
   \<and> (\<exists>out. dump_packet (\<lambda>_. None) DLT_EN10MB
          (replicate 12 0 @ [0x08, 0x00] @ [0x45, 0, 0, 0, 0, 0, 0, 0, 0, 0x11, 0, 0, 10, 0, 0, 1, 10, 0, 0, 2]
           @ replicate 8 0 @ [1])
        = Inr ([], ''10.0.0.1:0 > 10.0.0.2:0'' @ out, False))"
proof -
  let ?eth = "replicate 12 0 @ [0x08, 0x00] :: bytes"
  let ?ip = "[0x45, 0, 0, 0, 0, 0, 0, 0, 0, 0x11, 0, 0, 10, 0, 0, 1, 10, 0, 0, 2] :: bytes"
  let ?udp = "replicate 8 0 :: bytes"
  let ?seg = "TCPSegment_new\<lparr>seg_payload := Buffer_of [7]\<rparr>"
  have src: "''10.0.0.1'' = inet_ntoa (be_value (take 4 (drop 12 ?ip)))" by code_simp
  have dst: "''10.0.0.2'' = inet_ntoa (be_value (drop 16 ?ip))" by code_simp
  have seg: "seg_header ?seg = TCPHeader_new" "th_doff TCPHeader_new = 5" "Buffer_str (seg_payload ?seg) = [7]"
    "inet_cksum 0 [1] \<noteq> 0"
    by code_simp+
  note prints = dump_packet_shows_segment [of ?eth ?ip ?udp "''10.0.0.1''" "''10.0.0.2''" ?seg "\<lambda>_. None" "[1]",
      OF _ _ _ _ _ _ src dst]
  show ?thesis
    using prints seg by simp
qed

end
