(* ===== verification/Spec2Isabelle.thy ===== *)
theory Spec2Isabelle
  imports Sender_Window TCP_Benchmark Sponge_Socket Stream_Copy Packet_Dump
begin

text \<open>
  Verification of Sponge, a user-space TCP/IP stack in C++ (\<open>src/libsponge\<close>, with applications
  in \<open>src/apps\<close>).

  \<^bold>\<open>The program.\<close> A \<open>TCPConnection\<close> is one endpoint of TCP. It owns a \<open>TCPSender\<close>, which cuts an
  outbound \<open>ByteStream\<close> into segments and retransmits them, and a \<open>TCPReceiver\<close>, which turns
  sequence numbers into stream indices (\<open>WrappingInt32\<close>) and hands the bytes to a
  \<open>StreamReassembler\<close>, which writes them in order to an inbound \<open>ByteStream\<close>. Segments are put
  in IPv4 datagrams or UDP payloads by adapters; datagrams are put in Ethernet frames by a
  \<open>NetworkInterface\<close>, which resolves addresses with ARP, and are forwarded by a \<open>Router\<close>.
  \<open>TCPSpongeSocket\<close> runs a connection over an adapter with an \<open>EventLoop\<close> of four rules over
  file descriptors.

  \<^bold>\<open>Conventions.\<close> Unsigned integers are words of their width, so arithmetic wraps where it wraps
  in C++. A class is a record, a member function a definition \<open>Class_member\<close> that takes the
  object and returns it changed. An exception or undefined behaviour is a value \<open>Inl e\<close> of the
  type \<open>'a result\<close>. Containers of the standard library are lists, \<open>std::map\<close> is a list of
  entries in the order of iteration. System calls, the resolver of the C library, the random
  device and the clock are parameters; what a theorem relies on of them is a named hypothesis
  (\<open>writes_prefix\<close>, \<open>shutdown_keeps\<close>, \<open>names_numeric\<close>, \<open>resolves_numeric\<close>).

  \<^bold>\<open>Theories.\<close>
  \<^item> \<open>Prelude\<close>: types, errors, generic lemmas. \<open>Std_Map\<close>: \<open>std::map\<close>. \<open>Text_Format\<close>: printing of
    numbers and addresses.
  \<^item> \<open>Byte_Stream\<close> (\<open>byte_stream.cc\<close>): every member function. Lemmas: the stream is first in, first
    out (a refinement of a queue, through the locale \<open>byte_channel\<close>), its counters count, and
    the narrowing of \<open>size_t\<close> to \<open>int\<close> shows from \<open>2 ^ 31\<close> bytes on.
  \<^item> \<open>Wrapping_Integers\<close> (\<open>wrapping_integers.cc\<close>): \<open>unwrap\<close> is the closest preimage, and a round trip.
  \<^item> \<open>Stream_Reassembler\<close> (\<open>stream_reassembler.cc\<close>): loop by loop. Safety for all inputs,
    completeness for inputs inside the window, and the two ways it fails outside.
  \<^item> \<open>Buffers\<close> (\<open>util/buffer.cc\<close>), \<open>Net_Parser\<close> (\<open>util/parser.cc\<close>), \<open>Internet_Checksum\<close>
    (\<open>util/util.cc\<close>): locales \<open>byte_sequence\<close> and \<open>codec\<close>; the checksum verifies itself and
    detects a changed word.
  \<^item> \<open>TCP_Segment\<close> (\<open>tcp_header.cc\<close>, \<open>tcp_segment.cc\<close>), \<open>IPv4\<close> (\<open>ipv4_header.cc\<close>,
    \<open>ipv4_datagram.cc\<close>), \<open>Ethernet\<close> (\<open>ethernet_header.cc\<close>, \<open>ethernet_frame.cc\<close>,
    \<open>arp_message.cc\<close>): parsers never throw, serialized values are parsed back, and which
    malformed values are accepted.
  \<^item> \<open>TCP_Receiver\<close>, \<open>TCP_Sender\<close>, \<open>Sender_Window\<close>, \<open>TCP_State\<close>, \<open>TCP_Connection\<close>,
    \<open>Connection_Lifecycle\<close> (\<open>tcp_receiver.cc\<close>, \<open>tcp_sender.cc\<close>, \<open>tcp_state.cc\<close>,
    \<open>tcp_connection.cc\<close>): the receiver delivers and acknowledges exactly, the sender only sends
    its stream and keeps its books, what filling the window, an acknowledgment and a tick do,
    the handshake, the ends of a connection.
  \<^item> \<open>TCP_Network\<close>: two connections over a network that loses, duplicates, delays and reorders; what
    one application reads is a prefix of what the other wrote.
  \<^item> \<open>Address\<close> (\<open>util/address.cc\<close>), \<open>Network_Interface\<close> (\<open>network_interface.cc\<close>), \<open>Router\<close>
    (\<open>router.cc\<close>): an interface never throws, resolves an address and delivers; the router
    computes the longest-prefix match.
  \<^item> \<open>TCP_Over_IP\<close> (\<open>tcp_over_ip.cc\<close>, \<open>fd_adapter.cc\<close>, \<open>tuntap_adapter.cc\<close>,
    \<open>lossy_fd_adapter.hh\<close>): segments cross the adapters unchanged (locale \<open>segment_channel\<close>).
  \<^item> \<open>File_Descriptor\<close>, \<open>Sockets\<close>, \<open>Event_Loop\<close>, \<open>Sponge_Socket\<close> (\<open>util/file_descriptor.cc\<close>,
    \<open>util/socket.cc\<close>, \<open>util/eventloop.cc\<close>, \<open>tcp_sponge_socket.cc\<close>): a complete write ends and
    loses nothing, rules are only removed, and the bytes of a connection reach its owner.

  \<^bold>\<open>Termination and bounds.\<close> Every loop is a total function, by structural recursion or with a
  termination proof, except the loops that wait for the world: \<open>sponge_loop\<close> is a
  \<open>partial_function\<close> whose value \<open>None\<close> is a loop that does not end. No fuel is used. The
  hypotheses of the form \<open>length data < 2 ^ 31\<close> are the bounds beyond which the narrowing of
  \<open>ByteStream\<close> shows.

  \<^bold>\<open>Not modelled.\<close> The threads of \<open>TCPSpongeSocket\<close> (starting, joining, aborting), the opening of
  TUN and TAP devices, the random generator and the clock, which only wrap the operating
  system. The applications parse command lines and print.
\<close>

end
